(* ===== verification/Prelude.thy ===== *)
theory Prelude
  imports Main "HOL-Library.Word"
begin

unbundle bit_operations_syntax

text \<open>
  Shared vocabulary of the development: the types of the C++ code that every component uses
  (\<open>size_t\<close>, bytes, descriptors, thread ids), the way an operation fails, and the lemmas and
  collections the component proofs share.

  An operation of the code that can fail is a function into \<open>error + 'a\<close>. The errors are the
  ways a call of the code does not return: \<open>LOG_FATAL\<close> ends the process with \<open>exit(-1)\<close>
  (include/Logger.h), \<open>std::vector\<close> throws \<open>std::length_error\<close>, memory outside an object is
  touched, a dead object is used, a null pointer followed, an
  \<open>int\<close> overflows, or the process is ended by \<open>std::terminate\<close>. Errors the code handles (a system call that returns -1) are
  ordinary results.
\<close>

section \<open>Types of the code\<close>

type_synonym byte = "8 word"
type_synonym size_t = "64 word"
type_synonym fd = int
type_synonym tid = int
type_synonym errno = int
type_synonym conn_id = nat
type_synonym loop_id = nat

section \<open>Failures as values\<close>

datatype error =
    FatalExit
  | LengthError
  | OutOfBounds
  | UseAfterFree
  | NullPointer
  | Terminate
  | SignedOverflow

definition bindE :: "'e + 'a \<Rightarrow> ('a \<Rightarrow> 'e + 'b) \<Rightarrow> 'e + 'b" where
  "bindE m f = (case m of Inl e \<Rightarrow> Inl e | Inr x \<Rightarrow> f x)"

lemma bindE_Inl [simp, code_unfold]: "bindE (Inl e) f = Inl e"
  by (simp add: bindE_def)

lemma bindE_Inr [simp, code_unfold]: "bindE (Inr x) f = f x"
  by (simp add: bindE_def)

lemma bindE_right [simp]: "bindE m Inr = m"
  by (cases m) simp_all

lemma bindE_assoc: "bindE (bindE m f) g = bindE m (\<lambda>x. bindE (f x) g)"
  by (cases m) simp_all

lemma bindE_eq_Inr: "bindE m f = Inr y \<longleftrightarrow> (\<exists>x. m = Inr x \<and> f x = Inr y)"
  by (cases m) simp_all

lemma bindE_eq_Inl: "bindE m f = Inl e \<longleftrightarrow> m = Inl e \<or> (\<exists>x. m = Inr x \<and> f x = Inl e)"
  by (cases m) simp_all

lemma bindE_InrE [elim!]:
  assumes "bindE m f = Inr y"
  obtains x where "m = Inr x" "f x = Inr y"
  using assms by (auto simp: bindE_eq_Inr)

lemma bindE_cong [fundef_cong]:
  "m = m' \<Longrightarrow> (\<And>x. m' = Inr x \<Longrightarrow> f x = f' x) \<Longrightarrow> bindE m f = bindE m' f'"
  by (cases m') simp_all

text \<open>
  \<open>holdsE E Q m\<close>: the call \<open>m\<close> ends in a result that satisfies \<open>Q\<close> or in an error that
  satisfies \<open>E\<close>. It composes along \<open>bindE\<close>, so an invariant of a handler is proved one call
  at a time.
\<close>

definition holdsE :: "('e \<Rightarrow> bool) \<Rightarrow> ('a \<Rightarrow> bool) \<Rightarrow> 'e + 'a \<Rightarrow> bool" where
  "holdsE E Q m = (case m of Inl e \<Rightarrow> E e | Inr x \<Rightarrow> Q x)"

lemma holdsE_Inl [simp]: "holdsE E Q (Inl e) = E e"
  by (simp add: holdsE_def)

lemma holdsE_Inr [simp]: "holdsE E Q (Inr x) = Q x"
  by (simp add: holdsE_def)

lemma holdsE_bind:
  assumes "holdsE E P m" and "\<And>x. P x \<Longrightarrow> holdsE E Q (f x)"
  shows "holdsE E Q (bindE m f)"
  using assms by (cases m) simp_all

lemma holdsE_mono:
  assumes "holdsE E P m" and "\<And>e. E e \<Longrightarrow> E' e" and "\<And>x. P x \<Longrightarrow> Q x"
  shows "holdsE E' Q m"
  using assms by (cases m) simp_all

lemma holdsE_conj: "holdsE E P m \<Longrightarrow> holdsE E Q m \<Longrightarrow> holdsE E (\<lambda>x. P x \<and> Q x) m"
  by (cases m) simp_all

lemma holdsED: "holdsE E Q m \<Longrightarrow> m = Inr x \<Longrightarrow> Q x"
  by simp

text \<open>A loop that calls \<open>f\<close> on each element and stops at the first failure.\<close>

fun foldE :: "('a \<Rightarrow> 's \<Rightarrow> 'e + 's) \<Rightarrow> 'a list \<Rightarrow> 's \<Rightarrow> 'e + 's" where
  "foldE f [] s = Inr s"
| "foldE f (x # xs) s = bindE (f x s) (foldE f xs)"

lemma foldE_Nil_fun [simp]: "foldE f [] = Inr"
  by (rule ext) simp

lemma foldE_append: "foldE f (xs @ ys) s = bindE (foldE f xs s) (foldE f ys)"
  by (induction xs arbitrary: s) (simp_all add: bindE_assoc cong: bindE_cong)

lemma foldE_invariant:
  assumes "\<And>x s. x \<in> set xs \<Longrightarrow> P s \<Longrightarrow> holdsE E P (f x s)" and "P s"
  shows "holdsE E P (foldE f xs s)"
  using assms
proof (induction xs arbitrary: s)
  case (Cons x xs)
  then have "holdsE E P (f x s)" by simp
  then show ?case
    using Cons by (auto intro: holdsE_bind)
qed simp

section \<open>Collections\<close>

named_theorems size_arith \<open>reading size_t arithmetic as arithmetic on nat\<close>
named_theorems buffer_defs \<open>the definitions of the Buffer accessors\<close>
named_theorems frame \<open>what an operation leaves unchanged\<close>

section \<open>Words\<close>

lemma unat_size_bound: "unat (a :: size_t) < 18446744073709551616"
  using unsigned_less [of a] by simp

lemma unat_add_size [size_arith]:
  fixes a b :: size_t
  assumes "unat a + unat b < 18446744073709551616"
  shows "unat (a + b) = unat a + unat b"
  using assms by (simp add: unat_word_ariths)

lemma unat_sub_size [size_arith]:
  fixes a b :: size_t
  assumes "unat b \<le> unat a"
  shows "unat (a - b) = unat a - unat b"
  using assms by (simp add: unat_sub word_le_nat_alt)

lemma unat_of_nat_size [size_arith]:
  assumes "n < 18446744073709551616"
  shows "unat (of_nat n :: size_t) = n"
  using assms by (simp add: unat_of_nat take_bit_eq_mod)

lemma unat_minus_size [size_arith]:
  fixes a :: size_t
  assumes "a \<noteq> 0"
  shows "unat (- a) = 18446744073709551616 - unat a"
proof -
  define x y where "x = unat a" and "y = unat (- a)"
  have "unat (a + - a) = (unat a + unat (- a)) mod 2 ^ LENGTH(64)"
    by (rule unat_word_ariths)
  then have m: "(x + y) mod 18446744073709551616 = 0"
    by (simp add: x_def y_def)
  have "x < 18446744073709551616" "y < 18446744073709551616"
    unfolding x_def y_def by (rule unat_size_bound)+
  moreover have "0 < x" using assms by (simp add: unat_gt_0 x_def)
  ultimately have "x + y = 18446744073709551616"
    using m by (cases "x + y < 18446744073709551616") (auto simp: mod_if split: if_splits)
  then show ?thesis by (simp add: x_def y_def)
qed

lemma size_eq_iff: "(a :: size_t) = b \<longleftrightarrow> unat a = unat b"
  by (rule word_unat_eq_iff)

lemma size_less_iff: "(a :: size_t) < b \<longleftrightarrow> unat a < unat b"
  by (rule word_less_nat_alt)

lemma size_le_iff: "(a :: size_t) \<le> b \<longleftrightarrow> unat a \<le> unat b"
  by (rule word_le_nat_alt)

lemma word_bit_or_and:
  "(a OR b) AND b = (b :: 'a::len word)" "b AND (a OR b) = b"
  by (auto simp: bit_eq_iff bit_and_iff bit_or_iff)

lemma word_and_not_and: "(a AND NOT b) AND b = (0 :: 'a::len word)"
  by (auto simp: bit_eq_iff bit_and_iff bit_not_iff)

section \<open>Lists\<close>

lemma take_drop_append_exact: "length xs = n \<Longrightarrow> take k (drop n (xs @ ys)) = take k ys"
  by simp

lemma drop_take_split:
  "m \<le> n \<Longrightarrow> take (n - m) (drop m xs) @ drop n xs = drop m xs"
  by (metis add.commute append_take_drop_id drop_drop le_add_diff_inverse)

end
