(* ===== verification/Format.thy ===== *)
theory Format
  imports Prelude
begin

text \<open>
  What the sources use of C's formatted output: \<open>%d\<close>, \<open>%u\<close>, \<open>%4d\<close> and \<open>%02d\<close>, and the truncation
  of \<open>snprintf\<close>. Strings are lists of bytes (\<open>char\<close>); a \<open>char buf[n]\<close> that \<open>snprintf\<close> fills
  holds at most \<open>n - 1\<close> of them. Shared by Timestamp, Logger, InetAddress, Thread and TcpServer.
\<close>

section \<open>Decimal numbers\<close>

definition digit :: "nat \<Rightarrow> char" where
  "digit d = char_of (48 + d)"

fun show_nat :: "nat \<Rightarrow> string" where
  "show_nat n = (if n < 10 then [digit n] else show_nat (n div 10) @ [digit (n mod 10)])"

declare show_nat.simps [simp del]

text \<open>\<open>%d\<close> and \<open>%u\<close>.\<close>

definition fmt_d :: "int \<Rightarrow> string" where
  "fmt_d i = (if i < 0 then CHR ''-'' # show_nat (nat (- i)) else show_nat (nat i))"

text \<open>\<open>%wd\<close>: padded on the left with spaces. \<open>%0wd\<close>: padded with zeros after the sign.\<close>

definition fmt_wd :: "nat \<Rightarrow> int \<Rightarrow> string" where
  "fmt_wd w i = (let s = fmt_d i in replicate (w - length s) CHR '' '' @ s)"

definition fmt_0wd :: "nat \<Rightarrow> int \<Rightarrow> string" where
  "fmt_0wd w i =
     (let s = show_nat (nat \<bar>i\<bar>); sign = (if i < 0 then [CHR ''-''] else [])
      in sign @ replicate (w - length sign - length s) CHR ''0'' @ s)"

definition snprintf :: "nat \<Rightarrow> string \<Rightarrow> string" where
  "snprintf n s = take (n - 1) s"

lemma snprintf_fits [simp]: "length s < n \<Longrightarrow> snprintf n s = s"
  by (simp add: snprintf_def)

lemma length_snprintf: "length (snprintf n s) = min (length s) (n - 1)"
  by (simp add: snprintf_def)

section \<open>Decimal numerals determine their number\<close>

lemma digit_code:
  assumes "d < 10"
  shows "of_char (digit d) = (48 + d :: nat)"
proof -
  have "of_char (digit d) = (48 + d) mod (256 :: nat)"
    unfolding digit_def by (rule of_char_of)
  then show ?thesis using assms by simp
qed

lemma digit_eq_iff: "a < 10 \<Longrightarrow> b < 10 \<Longrightarrow> digit a = digit b \<longleftrightarrow> a = b"
  by (metis add_left_cancel digit_code)

definition is_digit :: "char \<Rightarrow> bool" where
  "is_digit c \<longleftrightarrow> (\<exists>d<10. c = digit d)"

lemma is_digit_code: "is_digit c \<Longrightarrow> 48 \<le> (of_char c :: nat) \<and> (of_char c :: nat) < 58"
  by (auto simp: is_digit_def digit_code)

lemma separators_not_digit:
  "\<not> is_digit CHR ''.''" "\<not> is_digit CHR '':''" "\<not> is_digit CHR ''#''" "\<not> is_digit CHR ''-''"
  "\<not> is_digit CHR '' ''" "\<not> is_digit CHR ''/''"
  using is_digit_code [of "CHR ''.''"] is_digit_code [of "CHR '':''"] is_digit_code [of "CHR ''#''"]
    is_digit_code [of "CHR ''-''"] is_digit_code [of "CHR '' ''"] is_digit_code [of "CHR ''/''"]
  by auto

lemma show_nat_digits: "c \<in> set (show_nat n) \<Longrightarrow> is_digit c"
proof (induction n rule: show_nat.induct)
  case (1 n)
  show ?case
  proof (cases "n < 10")
    case True
    then show ?thesis using 1 by (auto simp: show_nat.simps [of n] is_digit_def)
  next
    case False
    then have "c \<in> set (show_nat (n div 10)) \<or> c = digit (n mod 10)"
      using "1.prems" by (auto simp: show_nat.simps [of n])
    moreover have "is_digit (digit (n mod 10))"
      unfolding is_digit_def by (intro exI [of _ "n mod 10"]) simp
    ultimately show ?thesis using "1.IH" False by auto
  qed
qed

lemma separators_not_in_show_nat:
  "CHR ''.'' \<notin> set (show_nat n)" "CHR '':'' \<notin> set (show_nat n)" "CHR ''#'' \<notin> set (show_nat n)"
  "CHR ''-'' \<notin> set (show_nat n)"
  using show_nat_digits separators_not_digit by blast+

lemma show_nat_nonempty [simp]: "show_nat n \<noteq> []"
  by (subst show_nat.simps) simp

lemma show_nat_inject: "show_nat m = show_nat n \<longleftrightarrow> m = n"
proof (induction m arbitrary: n rule: show_nat.induct)
  case (1 m)
  consider "m < 10" "n < 10" | "m < 10" "10 \<le> n" | "10 \<le> m" "n < 10" | "10 \<le> m" "10 \<le> n"
    by linarith
  then show ?case
  proof cases
    case 4
    then have "show_nat m = show_nat n \<longleftrightarrow>
        show_nat (m div 10) = show_nat (n div 10) \<and> digit (m mod 10) = digit (n mod 10)"
      by (simp add: show_nat.simps [of m] show_nat.simps [of n])
    also have "\<dots> \<longleftrightarrow> m div 10 = n div 10 \<and> m mod 10 = n mod 10"
      using 4 "1.IH" by (simp add: digit_eq_iff)
    also have "\<dots> \<longleftrightarrow> m = n" by (metis div_mult_mod_eq)
    finally show ?thesis .
  qed (auto simp: show_nat.simps [of m] show_nat.simps [of n] digit_eq_iff Cons_eq_append_conv
        append_eq_Cons_conv)
qed

lemma length_show_nat: "n < 10 ^ k \<Longrightarrow> 0 < k \<Longrightarrow> length (show_nat n) \<le> k"
proof (induction k arbitrary: n)
  case (Suc k)
  show ?case
  proof (cases "n < 10")
    case False
    then have "0 < k" using Suc.prems by (cases k) auto
    moreover have "n div 10 < 10 ^ k"
      using Suc.prems by (simp add: less_mult_imp_div_less mult.commute)
    ultimately have "n div 10 < 10 ^ k" "0 < k" by simp_all
    then show ?thesis
      using Suc.IH [of "n div 10"] False by (simp add: show_nat.simps [of n])
  qed (simp add: show_nat.simps [of n])
qed simp

lemma length_show_nat_ge: "10 ^ k \<le> n \<Longrightarrow> k < length (show_nat n)"
proof (induction k arbitrary: n)
  case (Suc k)
  then have "10 ^ k \<le> n div 10" by (simp add: less_eq_div_iff_mult_less_eq mult.commute)
  then have "k < length (show_nat (n div 10))" by (rule Suc.IH)
  moreover have "10 \<le> n" using Suc.prems by (simp add: order.trans [rotated])
  ultimately show ?case by (simp add: show_nat.simps [of n])
qed simp

lemma fmt_d_inject: "fmt_d i = fmt_d j \<longleftrightarrow> i = j"
proof -
  have "CHR ''-'' # s \<noteq> show_nat n" for s n
    using separators_not_in_show_nat(4) [of n] by (metis list.set_intros(1))
  then show ?thesis
    by (auto simp: fmt_d_def show_nat_inject eq_commute [of "show_nat _" "_ # _"])
qed

text \<open>A 32-bit \<open>int\<close> prints in at most eleven characters.\<close>

lemma length_fmt_d_int:
  assumes "- 2147483648 \<le> i" and "i \<le> 2147483647"
  shows "length (fmt_d i) \<le> 11"
proof -
  have "nat i < 10 ^ 10" "nat (- i) < 10 ^ 10" using assms by auto
  then have "length (show_nat (nat i)) \<le> 10" "length (show_nat (nat (- i))) \<le> 10"
    by (simp_all add: length_show_nat)
  then show ?thesis by (simp add: fmt_d_def)
qed

lemma length_fmt_wd: "length (fmt_wd w i) = max w (length (fmt_d i))"
  by (auto simp: fmt_wd_def Let_def)

lemma length_fmt_0wd: "length (fmt_0wd w i) = max w (length (fmt_d i))"
  by (auto simp: fmt_0wd_def fmt_d_def Let_def abs_if)

text \<open>A separator that occurs in neither prefix splits two texts at the same place.\<close>

lemma split_at_separator:
  assumes "c \<notin> set xs" "c \<notin> set xs'" and "xs @ c # ys = xs' @ c # ys'"
  shows "xs = xs' \<and> ys = ys'"
  using assms
proof (induction xs arbitrary: xs')
  case Nil
  then show ?case by (cases xs') auto
next
  case (Cons x xs)
  then show ?case by (cases xs') auto
qed

end
