(* ===== verification/Syscalls.thy ===== *)
theory Syscalls
  imports Prelude
begin

text \<open>
  The operating system below the library. The sources call it through the POSIX and Linux
  functions named here; none of them is under src/, so each is a parameter: the record
  \<open>'k sys\<close> has one field per call, a function of its arguments and of the kernel's state
  \<open>'k\<close>. The definitions of the model take such a record and thread the kernel's state.

  What the proofs rely on is stated by the predicates below, each the documented behaviour of a
  call (its manual page), read through a \<open>'k view\<close> of the kernel's state: the bytes a
  descriptor has accepted, the write ends that are shut down and the registrations of an epoll
  instance.
\<close>

section \<open>The interface\<close>

datatype 'a io = Done 'a | Fail errno

datatype epoll_op = EPOLL_CTL_ADD | EPOLL_CTL_MOD | EPOLL_CTL_DEL

text \<open>
  \<open>Channel*\<close>: which channel a pointer names. A channel is a member of the object that owns it
  (the wakeup channel of an event loop, the accept channel of the acceptor, the channel of a
  connection), so its address is the owner's.
\<close>

datatype chan_ptr =
    WakeupChannelOf loop_id
  | AcceptChannelOf loop_id
  | ConnChannelOf conn_id

text \<open>\<open>struct sockaddr_in\<close>; port and address are in network byte order, as in C.\<close>

record sockaddr_in =
  sin_family :: "16 word"
  sin_port :: "16 word"
  sin_addr :: "32 word"

record 'k sys =
  sys_readv :: "fd \<Rightarrow> nat list \<Rightarrow> 'k \<Rightarrow> byte list io \<times> 'k"
  sys_read :: "fd \<Rightarrow> nat \<Rightarrow> 'k \<Rightarrow> byte list io \<times> 'k"
  sys_write :: "fd \<Rightarrow> byte list \<Rightarrow> 'k \<Rightarrow> nat io \<times> 'k"
  sys_sendfile :: "fd \<Rightarrow> fd \<Rightarrow> int \<Rightarrow> nat \<Rightarrow> 'k \<Rightarrow> nat io \<times> int \<times> 'k"
  sys_shutdown_wr :: "fd \<Rightarrow> 'k \<Rightarrow> unit io \<times> 'k"
  sys_so_error :: "fd \<Rightarrow> 'k \<Rightarrow> int io \<times> 'k"
  sys_setsockopt :: "fd \<Rightarrow> int \<Rightarrow> int \<Rightarrow> int \<Rightarrow> 'k \<Rightarrow> unit io \<times> 'k"
  sys_socket :: "'k \<Rightarrow> fd io \<times> 'k"
  sys_bind :: "fd \<Rightarrow> sockaddr_in \<Rightarrow> 'k \<Rightarrow> unit io \<times> 'k"
  sys_listen :: "fd \<Rightarrow> int \<Rightarrow> 'k \<Rightarrow> unit io \<times> 'k"
  sys_accept4 :: "fd \<Rightarrow> 'k \<Rightarrow> (fd \<times> sockaddr_in) io \<times> 'k"
  sys_getsockname :: "fd \<Rightarrow> 'k \<Rightarrow> sockaddr_in io \<times> 'k"
  sys_close :: "fd \<Rightarrow> 'k \<Rightarrow> unit io \<times> 'k"
  sys_eventfd :: "'k \<Rightarrow> fd io \<times> 'k"
  sys_epoll_create :: "'k \<Rightarrow> fd io \<times> 'k"
  sys_epoll_ctl :: "fd \<Rightarrow> epoll_op \<Rightarrow> fd \<Rightarrow> 32 word \<times> chan_ptr \<Rightarrow> 'k \<Rightarrow> unit io \<times> 'k"
  sys_epoll_wait :: "fd \<Rightarrow> nat \<Rightarrow> int \<Rightarrow> 'k \<Rightarrow> (32 word \<times> chan_ptr) list io \<times> 'k"
  sys_time :: "'k \<Rightarrow> int \<times> 'k"

text \<open>\<open>errno\<close> values the code tests (asm-generic/errno.h).\<close>

definition EINTR :: errno where "EINTR = 4"
definition EAGAIN :: errno where "EAGAIN = 11"
definition EWOULDBLOCK :: errno where "EWOULDBLOCK = EAGAIN"
definition EMFILE :: errno where "EMFILE = 24"
definition EPIPE :: errno where "EPIPE = 32"
definition ECONNRESET :: errno where "ECONNRESET = 104"

lemmas errno_defs = EINTR_def EAGAIN_def EWOULDBLOCK_def EMFILE_def EPIPE_def ECONNRESET_def

section \<open>Views of the kernel's state and documented behaviour\<close>

record 'k view =
  v_sent :: "'k \<Rightarrow> fd \<Rightarrow> byte list"
  v_fin :: "'k \<Rightarrow> fd \<Rightarrow> bool"
  v_reg :: "'k \<Rightarrow> fd \<Rightarrow> fd \<Rightarrow> (32 word \<times> chan_ptr) option"

text \<open>readv(2): at most as many bytes as the buffers hold; nothing is sent, no end is shut, no
  registration changes.\<close>

definition readv_doc :: "'k sys \<Rightarrow> 'k view \<Rightarrow> bool" where
  "readv_doc S V \<longleftrightarrow> (\<forall>f lens k r k'. sys_readv S f lens k = (r, k') \<longrightarrow>
     (case r of Done d \<Rightarrow> length d \<le> sum_list lens | Fail _ \<Rightarrow> True) \<and>
     v_sent V k' = v_sent V k \<and> v_fin V k' = v_fin V k \<and> v_reg V k' = v_reg V k)"

text \<open>write(2): the first \<open>n\<close> bytes of the data are appended to what the descriptor accepted,
  where \<open>n\<close> is the returned count; on error none are.\<close>

definition write_doc :: "'k sys \<Rightarrow> 'k view \<Rightarrow> bool" where
  "write_doc S V \<longleftrightarrow> (\<forall>f d k r k'. sys_write S f d k = (r, k') \<longrightarrow>
     v_fin V k' = v_fin V k \<and> v_reg V k' = v_reg V k \<and>
     (case r of Done n \<Rightarrow> n \<le> length d \<and>
          v_sent V k' = (v_sent V k)(f := v_sent V k f @ take n d)
      | Fail _ \<Rightarrow> v_sent V k' = v_sent V k))"

text \<open>shutdown(2) with \<open>SHUT_WR\<close>: at most the write end of this descriptor is shut.\<close>

definition shutdown_doc :: "'k sys \<Rightarrow> 'k view \<Rightarrow> bool" where
  "shutdown_doc S V \<longleftrightarrow> (\<forall>f k r k'. sys_shutdown_wr S f k = (r, k') \<longrightarrow>
     v_sent V k' = v_sent V k \<and> v_reg V k' = v_reg V k \<and>
     (\<forall>g. g \<noteq> f \<longrightarrow> v_fin V k' g = v_fin V k g) \<and>
     (case r of Done _ \<Rightarrow> v_fin V k' f | Fail _ \<Rightarrow> v_fin V k' f = v_fin V k f))"

text \<open>write(2) of some bytes on a socket whose write end is shut fails with \<open>EPIPE\<close> (the signal
  \<open>SIGPIPE\<close> that goes with it is taken to be ignored).\<close>

definition epipe_doc :: "'k sys \<Rightarrow> 'k view \<Rightarrow> bool" where
  "epipe_doc S V \<longleftrightarrow> (\<forall>f d k. v_fin V k f \<longrightarrow> d \<noteq> [] \<longrightarrow> fst (sys_write S f d k) = Fail EPIPE)"

text \<open>sendfile(2): at most \<open>count\<close> bytes go out; only this descriptor's stream grows.\<close>

definition sendfile_doc :: "'k sys \<Rightarrow> 'k view \<Rightarrow> bool" where
  "sendfile_doc S V \<longleftrightarrow> (\<forall>f g off n k r off' k'. sys_sendfile S f g off n k = (r, off', k') \<longrightarrow>
     v_fin V k' = v_fin V k \<and> v_reg V k' = v_reg V k \<and>
     (case r of Done m \<Rightarrow> m \<le> n \<and> (\<exists>d. length d = m \<and> v_sent V k' = (v_sent V k)(f := v_sent V k f @ d))
      | Fail _ \<Rightarrow> v_sent V k' = v_sent V k))"

text \<open>getsockopt(2) with \<open>SO_ERROR\<close> reads and clears the pending error only.\<close>

definition so_error_doc :: "'k sys \<Rightarrow> 'k view \<Rightarrow> bool" where
  "so_error_doc S V \<longleftrightarrow> (\<forall>f k r k'. sys_so_error S f k = (r, k') \<longrightarrow>
     v_sent V k' = v_sent V k \<and> v_fin V k' = v_fin V k \<and> v_reg V k' = v_reg V k)"

text \<open>
  epoll\_ctl(2): an \<open>ADD\<close> that succeeds found no registration of the descriptor and makes one, a
  \<open>MOD\<close> that succeeds replaces one, a \<open>DEL\<close> of a registered descriptor succeeds and removes it;
  a call that fails changes no registration. A \<open>DEL\<close> or \<open>MOD\<close> of an absent one fails
  (\<open>ENOENT\<close>), as does an \<open>ADD\<close> of a present one (\<open>EEXIST\<close>).
\<close>

definition epoll_ctl_doc :: "'k sys \<Rightarrow> 'k view \<Rightarrow> bool" where
  "epoll_ctl_doc S V \<longleftrightarrow> (\<forall>ep op f ev k r k'. sys_epoll_ctl S ep op f ev k = (r, k') \<longrightarrow>
     v_sent V k' = v_sent V k \<and> v_fin V k' = v_fin V k \<and>
     (case r of
        Fail _ \<Rightarrow> v_reg V k' = v_reg V k \<and> \<not> (op = EPOLL_CTL_DEL \<and> v_reg V k ep f \<noteq> None)
      | Done _ \<Rightarrow>
          v_reg V k' = (v_reg V k)(ep := (v_reg V k ep)
            (f := (if op = EPOLL_CTL_DEL then None else Some ev))) \<and>
          (v_reg V k ep f = None \<longleftrightarrow> op = EPOLL_CTL_ADD)))"

text \<open>epoll\_wait(2): at most \<open>maxevents\<close> events, each with the data of a registration.\<close>

definition epoll_wait_doc :: "'k sys \<Rightarrow> 'k view \<Rightarrow> bool" where
  "epoll_wait_doc S V \<longleftrightarrow> (\<forall>ep n t k r k'. sys_epoll_wait S ep n t k = (r, k') \<longrightarrow>
     v_sent V k' = v_sent V k \<and> v_fin V k' = v_fin V k \<and> v_reg V k' = v_reg V k \<and>
     (case r of Done evs \<Rightarrow> length evs \<le> n \<and>
          (\<forall>e p. (e, p) \<in> set evs \<longrightarrow> (\<exists>f ev. v_reg V k ep f = Some (ev, p)))
      | Fail _ \<Rightarrow> True))"

definition kernel_doc :: "'k sys \<Rightarrow> 'k view \<Rightarrow> bool" where
  "kernel_doc S V \<longleftrightarrow> readv_doc S V \<and> write_doc S V \<and> shutdown_doc S V \<and> so_error_doc S V \<and>
     epoll_ctl_doc S V \<and> epoll_wait_doc S V \<and> epipe_doc S V \<and> sendfile_doc S V"

lemma kernel_docD:
  assumes "kernel_doc S V"
  shows "readv_doc S V" "write_doc S V" "shutdown_doc S V" "so_error_doc S V"
    "epoll_ctl_doc S V" "epoll_wait_doc S V" "epipe_doc S V" "sendfile_doc S V"
  using assms by (simp_all add: kernel_doc_def)

text \<open>
  epoll\_create1(2): a new instance has no registrations. The calls below it touch neither
  streams nor registrations: eventfd(2), read(2), gettimeofday(2), setsockopt(2).
\<close>

definition epoll_create_doc :: "'k sys \<Rightarrow> 'k view \<Rightarrow> bool" where
  "epoll_create_doc S V \<longleftrightarrow> (\<forall>k r k'. sys_epoll_create S k = (r, k') \<longrightarrow>
     v_sent V k' = v_sent V k \<and> v_fin V k' = v_fin V k \<and>
     (case r of Done f \<Rightarrow> v_reg V k' = (v_reg V k)(f := Map.empty) | Fail _ \<Rightarrow> v_reg V k' = v_reg V k))"

definition same_view :: "'k view \<Rightarrow> 'k \<Rightarrow> 'k \<Rightarrow> bool" where
  "same_view V k k' \<longleftrightarrow> v_sent V k' = v_sent V k \<and> v_fin V k' = v_fin V k \<and> v_reg V k' = v_reg V k"

definition passive_doc :: "'k sys \<Rightarrow> 'k view \<Rightarrow> bool" where
  "passive_doc S V \<longleftrightarrow>
     (\<forall>k. same_view V k (snd (sys_eventfd S k))) \<and> (\<forall>k. same_view V k (snd (sys_time S k))) \<and>
     (\<forall>f n k. same_view V k (snd (sys_read S f n k))) \<and>
     (\<forall>f l n v k. same_view V k (snd (sys_setsockopt S f l n v k)))"

text \<open>close(2): a closed descriptor loses its registrations, no other appears.\<close>

definition close_doc :: "'k sys \<Rightarrow> 'k view \<Rightarrow> bool" where
  "close_doc S V \<longleftrightarrow> (\<forall>f k ep g. v_reg V (snd (sys_close S f k)) ep g \<in> {v_reg V k ep g, None})"

lemma same_view_refl [simp]: "same_view V k k"
  by (simp add: same_view_def)

lemma same_view_trans: "same_view V k k1 \<Longrightarrow> same_view V k1 k2 \<Longrightarrow> same_view V k k2"
  by (simp add: same_view_def)

text \<open>The kernel's state after a new descriptor has been made.\<close>

definition new_fd :: "'k view \<Rightarrow> fd \<Rightarrow> 'k \<Rightarrow> 'k \<Rightarrow> bool" where
  "new_fd V f k k' \<longleftrightarrow> \<not> v_fin V k' f \<and> (\<forall>ep. v_reg V k' ep f = None) \<and>
     (\<forall>g. g \<noteq> f \<longrightarrow> v_sent V k' g = v_sent V k g \<and> v_fin V k' g = v_fin V k g \<and> (\<forall>ep. v_reg V k' ep g = v_reg V k ep g))"

text \<open>close(2) of a descriptor that is no epoll instance changes nothing of the other descriptors.\<close>

definition close_own_doc :: "'k sys \<Rightarrow> 'k view \<Rightarrow> bool" where
  "close_own_doc S V \<longleftrightarrow> (\<forall>f g k. g \<noteq> f \<longrightarrow> v_sent V (snd (sys_close S f k)) g = v_sent V k g \<and>
     v_fin V (snd (sys_close S f k)) g = v_fin V k g \<and>
     (\<forall>ep. ep \<noteq> f \<longrightarrow> v_reg V (snd (sys_close S f k)) ep g = v_reg V k ep g))"

text \<open>accept4(2) makes a new descriptor or nothing; getsockname(2) changes nothing.\<close>

definition accept_doc :: "'k sys \<Rightarrow> 'k view \<Rightarrow> bool" where
  "accept_doc S V \<longleftrightarrow> (\<forall>f k r k'. sys_accept4 S f k = (r, k') \<longrightarrow>
     (case r of Done (g, a) \<Rightarrow> new_fd V g k k' | Fail e \<Rightarrow> same_view V k k'))"

definition server_doc :: "'k sys \<Rightarrow> 'k view \<Rightarrow> bool" where
  "server_doc S V \<longleftrightarrow> kernel_doc S V \<and> passive_doc S V \<and> accept_doc S V \<and>
     (\<forall>f k. same_view V k (snd (sys_getsockname S f k))) \<and> close_doc S V \<and> close_own_doc S V"

lemma server_docD:
  assumes "server_doc S V"
  shows "kernel_doc S V" "passive_doc S V" "accept_doc S V" "same_view V k (snd (sys_getsockname S f k))"
    "close_doc S V" "close_own_doc S V"
  using assms by (simp_all add: server_doc_def)

lemma new_fd_same_view: "new_fd V f k k1 \<Longrightarrow> same_view V k1 k2 \<Longrightarrow> new_fd V f k k2"
  by (simp add: new_fd_def same_view_def)

end
