(* ===== verification/Timestamp.thy ===== *)
theory Timestamp
  imports Format Syscalls
begin

text \<open>
  Points in time (include/Timestamp.h, src/Timestamp.cpp). A \<open>Timestamp\<close> is one counter; despite
  the member's name \<open>now\<close> stores the seconds of \<open>time(NULL)\<close> in it and \<open>toString\<close> hands it to
  \<open>localtime\<close> as seconds. \<open>localtime\<close> depends on the time zone of the process: it is the
  parameter \<open>lt\<close> of \<open>toString\<close>.
\<close>

record timestamp =
  microSecondsSinceEpoch :: int

text \<open>\<open>struct tm\<close>, the fields \<open>toString\<close> reads.\<close>

record tm =
  tm_year :: int
  tm_mon :: int
  tm_mday :: int
  tm_hour :: int
  tm_min :: int
  tm_sec :: int

definition Timestamp_default :: timestamp where
  "Timestamp_default = \<lparr>microSecondsSinceEpoch = 0\<rparr>"

definition Timestamp_of :: "int \<Rightarrow> timestamp" where
  "Timestamp_of n = \<lparr>microSecondsSinceEpoch = n\<rparr>"

definition Timestamp_now :: "'k sys \<Rightarrow> 'k \<Rightarrow> timestamp \<times> 'k" where
  "Timestamp_now S k = (case sys_time S k of (t, k) \<Rightarrow> (Timestamp_of t, k))"

definition Timestamp_text :: "tm \<Rightarrow> string" where
  "Timestamp_text m =
     fmt_wd 4 (tm_year m + 1900) @ ''/'' @ fmt_0wd 2 (tm_mon m + 1) @ ''/'' @ fmt_0wd 2 (tm_mday m) @
     '' '' @ fmt_0wd 2 (tm_hour m) @ '':'' @ fmt_0wd 2 (tm_min m) @ '':'' @ fmt_0wd 2 (tm_sec m)"

definition Timestamp_toString :: "(int \<Rightarrow> tm) \<Rightarrow> timestamp \<Rightarrow> string" where
  "Timestamp_toString lt t = snprintf 128 (Timestamp_text (lt (microSecondsSinceEpoch t)))"

section \<open>The text\<close>

definition c_int :: "int \<Rightarrow> bool" where
  "c_int i \<longleftrightarrow> - 2147483648 \<le> i \<and> i \<le> 2147483647"

text \<open>Every field, also after the two additions, is a C \<open>int\<close>.\<close>

definition tm_ok :: "tm \<Rightarrow> bool" where
  "tm_ok m \<longleftrightarrow> c_int (tm_year m + 1900) \<and> c_int (tm_mon m + 1) \<and> c_int (tm_mday m) \<and>
     c_int (tm_hour m) \<and> c_int (tm_min m) \<and> c_int (tm_sec m)"

lemma length_fmt_d_c_int: "c_int i \<Longrightarrow> length (fmt_d i) \<le> 11"
  by (simp add: c_int_def length_fmt_d_int)

lemma length_Timestamp_text:
  assumes "tm_ok m"
  shows "length (Timestamp_text m) \<le> 71"
proof -
  have "length (fmt_wd 4 (tm_year m + 1900)) \<le> 11" "length (fmt_0wd 2 (tm_mon m + 1)) \<le> 11"
    "length (fmt_0wd 2 (tm_mday m)) \<le> 11" "length (fmt_0wd 2 (tm_hour m)) \<le> 11"
    "length (fmt_0wd 2 (tm_min m)) \<le> 11" "length (fmt_0wd 2 (tm_sec m)) \<le> 11"
    using assms by (simp_all add: tm_ok_def length_fmt_wd length_fmt_0wd length_fmt_d_c_int)
  then show ?thesis by (simp add: Timestamp_text_def)
qed

text \<open>A two-digit field: two characters that determine the number.\<close>

lemma fmt_0wd_two:
  assumes "0 \<le> i" "i < 100"
  shows "fmt_0wd 2 i = [digit (nat i div 10), digit (nat i mod 10)]"
proof (cases "i < 10")
  case True
  have "digit 0 = CHR ''0''" by code_simp
  moreover have "nat i < 10" using True assms by linarith
  ultimately show ?thesis using assms by (simp add: fmt_0wd_def show_nat.simps [of "nat i"])
next
  case False
  with assms have "nat i div 10 < 10" by linarith
  with False assms show ?thesis
    by (simp add: fmt_0wd_def show_nat.simps [of "nat i"] show_nat.simps [of "nat i div 10"])
qed

lemma fmt_0wd_two_inject:
  assumes "0 \<le> i" "i < 100" "0 \<le> j" "j < 100"
  shows "fmt_0wd 2 i = fmt_0wd 2 j \<longleftrightarrow> i = j"
proof -
  have "nat i div 10 < 10" "nat j div 10 < 10" using assms by linarith+
  then have "fmt_0wd 2 i = fmt_0wd 2 j \<longleftrightarrow>
      nat i div 10 = nat j div 10 \<and> nat i mod 10 = nat j mod 10"
    using assms by (simp add: fmt_0wd_two digit_eq_iff)
  also have "\<dots> \<longleftrightarrow> nat i = nat j" by (metis div_mult_mod_eq)
  finally show ?thesis using assms by (simp add: nat_eq_iff)
qed

lemma fmt_wd_four_inject:
  assumes "1000 \<le> i" "1000 \<le> j"
  shows "fmt_wd 4 i = fmt_wd 4 j \<longleftrightarrow> i = j"
proof -
  have "length (show_nat n) \<ge> 4" if "1000 \<le> n" for n
    using length_show_nat_ge [of 3 n] that by simp
  then have "4 \<le> length (fmt_d i)" "4 \<le> length (fmt_d j)"
    using assms by (simp_all add: fmt_d_def)
  then show ?thesis by (simp add: fmt_wd_def fmt_d_inject)
qed

definition calendar_tm :: "tm \<Rightarrow> bool" where
  "calendar_tm m \<longleftrightarrow> - 900 \<le> tm_year m \<and> tm_year m + 1900 \<le> 2147483647 \<and>
     0 \<le> tm_mon m \<and> tm_mon m < 12 \<and> 1 \<le> tm_mday m \<and> tm_mday m \<le> 31 \<and>
     0 \<le> tm_hour m \<and> tm_hour m < 24 \<and> 0 \<le> tm_min m \<and> tm_min m < 60 \<and>
     0 \<le> tm_sec m \<and> tm_sec m \<le> 60"

lemma calendar_tm_ok: "calendar_tm m \<Longrightarrow> tm_ok m"
  by (auto simp: calendar_tm_def tm_ok_def c_int_def)

lemma Timestamp_text_inject:
  assumes m: "calendar_tm m" and m': "calendar_tm m'" and eq: "Timestamp_text m = Timestamp_text m'"
  shows "m = m'"
proof -
  have no_sep: "CHR ''/'' \<notin> set (fmt_wd 4 (tm_year x + 1900))" if "calendar_tm x" for x
  proof -
    have "c = CHR '' '' \<or> is_digit c" if "c \<in> set (fmt_wd 4 (tm_year x + 1900))" for c
      using that \<open>calendar_tm x\<close> show_nat_digits
      by (auto simp: fmt_wd_def fmt_d_def calendar_tm_def Let_def split: if_splits)
    then show ?thesis using separators_not_digit(6) by fastforce
  qed
  let ?y = "\<lambda>m. fmt_wd 4 (tm_year m + 1900)"
  let ?rest = "\<lambda>m. fmt_0wd 2 (tm_mon m + 1) @ ''/'' @ fmt_0wd 2 (tm_mday m) @
     '' '' @ fmt_0wd 2 (tm_hour m) @ '':'' @ fmt_0wd 2 (tm_min m) @ '':'' @ fmt_0wd 2 (tm_sec m)"
  have "?y m @ CHR ''/'' # ?rest m = ?y m' @ CHR ''/'' # ?rest m'"
    using eq by (simp add: Timestamp_text_def)
  from split_at_separator [OF no_sep [OF m] no_sep [OF m'] this]
  have y: "?y m = ?y m'" and rest: "?rest m = ?rest m'" by auto
  have two: "0 \<le> tm_mon x + 1 \<and> tm_mon x + 1 < 100" "0 \<le> tm_mday x \<and> tm_mday x < 100"
    "0 \<le> tm_hour x \<and> tm_hour x < 100" "0 \<le> tm_min x \<and> tm_min x < 100"
    "0 \<le> tm_sec x \<and> tm_sec x < 100" if "calendar_tm x" for x
    using that by (auto simp: calendar_tm_def)
  have "fmt_0wd 2 (tm_mon m + 1) = fmt_0wd 2 (tm_mon m' + 1)"
    "fmt_0wd 2 (tm_mday m) = fmt_0wd 2 (tm_mday m')"
    "fmt_0wd 2 (tm_hour m) = fmt_0wd 2 (tm_hour m')"
    "fmt_0wd 2 (tm_min m) = fmt_0wd 2 (tm_min m')"
    "fmt_0wd 2 (tm_sec m) = fmt_0wd 2 (tm_sec m')"
    using rest two [OF m] two [OF m'] by (simp_all add: fmt_0wd_two)
  then have "tm_mon m = tm_mon m'" "tm_mday m = tm_mday m'" "tm_hour m = tm_hour m'"
    "tm_min m = tm_min m'" "tm_sec m = tm_sec m'"
    using two [OF m] two [OF m'] by (simp_all add: fmt_0wd_two_inject)
  moreover have "tm_year m = tm_year m'"
    using y m m' fmt_wd_four_inject [of "tm_year m + 1900" "tm_year m' + 1900"]
    by (simp add: calendar_tm_def)
  ultimately show ?thesis by simp
qed

section \<open>Properties\<close>

text \<open>\<open>toString\<close> never truncates: whatever \<open>int\<close> values \<open>localtime\<close> delivers (the
  year and month leaving room for the additions), the whole text fits the 128-byte buffer, and two
  time points whose calendar fields (years from 1000) print alike have the same fields.\<close>

lemma toString_faithful:
  assumes "tm_ok (lt (microSecondsSinceEpoch t))"
  shows "Timestamp_toString lt t = Timestamp_text (lt (microSecondsSinceEpoch t)) \<and>
    (calendar_tm (lt (microSecondsSinceEpoch t)) \<and> calendar_tm (lt (microSecondsSinceEpoch u)) \<and>
     Timestamp_toString lt t = Timestamp_toString lt u \<longrightarrow>
       lt (microSecondsSinceEpoch t) = lt (microSecondsSinceEpoch u))"
proof -
  have fits: "Timestamp_toString lt x = Timestamp_text (lt (microSecondsSinceEpoch x))"
    if "tm_ok (lt (microSecondsSinceEpoch x))" for x
    using length_Timestamp_text [OF that] by (simp add: Timestamp_toString_def)
  with assms show ?thesis
    by (auto simp: calendar_tm_ok intro: Timestamp_text_inject)
qed

end
