(* ===== verification/Logger.thy ===== *)
theory Logger
  imports Timestamp
begin

text \<open>
  The logger (include/Logger.h, src/Logger.cpp): one process-wide object (\<open>instance()\<close>) with a
  level, and the macros that set the level, format the message into a 1024-byte buffer and print
  it. \<open>logger\<close> is that object together with what it wrote to \<open>std::cout\<close>. \<open>LOG_FATAL\<close> prints
  and then ends the process: its value is \<open>FatalExit\<close>. The other theories leave log lines out of
  their state and keep only that exit.
\<close>

datatype LogLevel = INFO | ERROR | FATAL | DEBUG

definition level_int :: "LogLevel \<Rightarrow> int" where
  "level_int l = (case l of INFO \<Rightarrow> 0 | ERROR \<Rightarrow> 1 | FATAL \<Rightarrow> 2 | DEBUG \<Rightarrow> 3)"

record logger =
  logLevel :: int
  cout :: "string list"

definition setLogLevel :: "int \<Rightarrow> logger \<Rightarrow> logger" where
  "setLogLevel l g = g\<lparr>logLevel := l\<rparr>"

definition log_prefix :: "int \<Rightarrow> string" where
  "log_prefix l =
     (if l = level_int INFO then ''[INFO]'' else if l = level_int ERROR then ''[ERROR]''
      else if l = level_int FATAL then ''[FATAL]'' else if l = level_int DEBUG then ''[DEBUG]''
      else [])"

definition log_msg :: "(int \<Rightarrow> tm) \<Rightarrow> timestamp \<Rightarrow> string \<Rightarrow> logger \<Rightarrow> logger" where
  "log_msg lt now msg g =
     g\<lparr>cout := cout g @ [log_prefix (logLevel g) @ Timestamp_toString lt now @ '' : '' @ msg]\<rparr>"

definition LOG_INFO :: "(int \<Rightarrow> tm) \<Rightarrow> timestamp \<Rightarrow> string \<Rightarrow> logger \<Rightarrow> logger" where
  "LOG_INFO lt now msg g = log_msg lt now (snprintf 1024 msg) (setLogLevel (level_int INFO) g)"

definition LOG_ERROR :: "(int \<Rightarrow> tm) \<Rightarrow> timestamp \<Rightarrow> string \<Rightarrow> logger \<Rightarrow> logger" where
  "LOG_ERROR lt now msg g = log_msg lt now (snprintf 1024 msg) (setLogLevel (level_int ERROR) g)"

text \<open>\<open>LOG_DEBUG\<close> with and without \<open>MUDEBUG\<close>; the build files define no \<open>MUDEBUG\<close>.\<close>

definition LOG_DEBUG :: "bool \<Rightarrow> (int \<Rightarrow> tm) \<Rightarrow> timestamp \<Rightarrow> string \<Rightarrow> logger \<Rightarrow> logger" where
  "LOG_DEBUG mudebug lt now msg g =
     (if mudebug then log_msg lt now (snprintf 1024 msg) (setLogLevel (level_int DEBUG) g) else g)"

text \<open>The macro prints and calls \<open>exit(-1)\<close>: the printed logger and the error of the call.\<close>

definition LOG_FATAL :: "(int \<Rightarrow> tm) \<Rightarrow> timestamp \<Rightarrow> string \<Rightarrow> logger \<Rightarrow> logger \<times> (error + unit)" where
  "LOG_FATAL lt now msg g =
     (log_msg lt now (snprintf 1024 msg) (setLogLevel (level_int FATAL) g), Inl FatalExit)"

lemma log_prefix_level [simp]:
  "log_prefix (level_int INFO) = ''[INFO]''" "log_prefix (level_int ERROR) = ''[ERROR]''"
  "log_prefix (level_int FATAL) = ''[FATAL]''" "log_prefix (level_int DEBUG) = ''[DEBUG]''"
  by (simp_all add: log_prefix_def level_int_def)

section \<open>Properties\<close>

text \<open>The level never filters: whatever level the logger had before, \<open>LOG_INFO\<close>, \<open>LOG_ERROR\<close>
  and \<open>LOG_FATAL\<close> print exactly one line, tagged with their own level and holding the first 1023
  bytes of the message, and leave their level behind; \<open>LOG_FATAL\<close> does not return.\<close>

lemma log_macros_print:
  "cout (LOG_INFO lt now msg g) =
     cout g @ [''[INFO]'' @ Timestamp_toString lt now @ '' : '' @ take 1023 msg] \<and>
   cout (LOG_ERROR lt now msg g) =
     cout g @ [''[ERROR]'' @ Timestamp_toString lt now @ '' : '' @ take 1023 msg] \<and>
   cout (fst (LOG_FATAL lt now msg g)) =
     cout g @ [''[FATAL]'' @ Timestamp_toString lt now @ '' : '' @ take 1023 msg] \<and>
   snd (LOG_FATAL lt now msg g) = Inl FatalExit \<and>
   logLevel (LOG_ERROR lt now msg g) = level_int ERROR"
  by (simp add: LOG_INFO_def LOG_ERROR_def LOG_FATAL_def log_msg_def setLogLevel_def
      snprintf_def)

end
