(* ===== verification/Channel.thy ===== *)
theory Channel
  imports Timestamp
begin

text \<open>
  Channels (include/Channel.h, src/Channel.cpp): a descriptor, the events asked for and the events
  that occurred, the state of its registration, and the callbacks. Event sets are the bit masks of
  sys/epoll.h. A callback is a \<open>std::function\<close>: a function on the state \<open>'s\<close> of the program that
  may fail; an empty one is \<open>None\<close>. The callbacks are a separate record because their type
  mentions the state that holds the channel. \<open>tie\<close> stores a weak pointer; whether it can be locked
  is a property of the state, given by \<open>alive\<close>.

  The operations that register events (\<open>enableReading\<close> and its kin) need the event loop and are in
  the theory EventLoop.
\<close>

section \<open>State\<close>

type_synonym events = "32 word"

definition EPOLLIN :: events where "EPOLLIN = 1"
definition EPOLLPRI :: events where "EPOLLPRI = 2"
definition EPOLLOUT :: events where "EPOLLOUT = 4"
definition EPOLLERR :: events where "EPOLLERR = 8"
definition EPOLLHUP :: events where "EPOLLHUP = 16"

definition kNoneEvent :: events where "kNoneEvent = 0"
definition kReadEvent :: events where "kReadEvent = EPOLLIN OR EPOLLPRI"
definition kWriteEvent :: events where "kWriteEvent = EPOLLOUT"

lemmas event_defs = EPOLLIN_def EPOLLPRI_def EPOLLOUT_def EPOLLERR_def EPOLLHUP_def
  kNoneEvent_def kReadEvent_def kWriteEvent_def

record channel =
  ch_fd :: fd
  ch_events :: events
  ch_revents :: events
  ch_index :: int
  ch_tie :: "conn_id option"
  ch_tied :: bool

record 's channel_callbacks =
  readCallback :: "(timestamp \<Rightarrow> 's \<Rightarrow> error + 's) option"
  writeCallback :: "('s \<Rightarrow> error + 's) option"
  closeCallback :: "('s \<Rightarrow> error + 's) option"
  errorCallback :: "('s \<Rightarrow> error + 's) option"

definition Channel_init :: "fd \<Rightarrow> channel" where
  "Channel_init fd = \<lparr>ch_fd = fd, ch_events = 0, ch_revents = 0, ch_index = -1,
     ch_tie = None, ch_tied = False\<rparr>"

definition Channel_tie :: "conn_id \<Rightarrow> channel \<Rightarrow> channel" where
  "Channel_tie obj ch = ch\<lparr>ch_tie := Some obj, ch_tied := True\<rparr>"

definition set_revents :: "events \<Rightarrow> channel \<Rightarrow> channel" where
  "set_revents revt ch = ch\<lparr>ch_revents := revt\<rparr>"

definition set_index :: "int \<Rightarrow> channel \<Rightarrow> channel" where
  "set_index idx ch = ch\<lparr>ch_index := idx\<rparr>"

definition isNoneEvent :: "channel \<Rightarrow> bool" where
  "isNoneEvent ch \<longleftrightarrow> ch_events ch = kNoneEvent"

definition isWriting :: "channel \<Rightarrow> bool" where
  "isWriting ch \<longleftrightarrow> ch_events ch AND kWriteEvent \<noteq> 0"

definition isReading :: "channel \<Rightarrow> bool" where
  "isReading ch \<longleftrightarrow> ch_events ch AND kReadEvent \<noteq> 0"

section \<open>Dispatching the events that occurred\<close>

definition call :: "('s \<Rightarrow> error + 's) option \<Rightarrow> 's \<Rightarrow> error + 's" where
  "call cb s = (case cb of None \<Rightarrow> Inr s | Some f \<Rightarrow> f s)"

definition call_read :: "(timestamp \<Rightarrow> 's \<Rightarrow> error + 's) option \<Rightarrow> timestamp \<Rightarrow> 's \<Rightarrow> error + 's" where
  "call_read cb t s = (case cb of None \<Rightarrow> Inr s | Some f \<Rightarrow> f t s)"

text \<open>
  \<open>this\<close> gives the channel in a state: \<open>revents_\<close> is read again after each callback, as the code
  does.
\<close>

definition handleEventWithGuard ::
    "('s \<Rightarrow> channel) \<Rightarrow> 's channel_callbacks \<Rightarrow> timestamp \<Rightarrow> 's \<Rightarrow> error + 's" where
  "handleEventWithGuard this cbs receiveTime s =
     bindE (if ch_revents (this s) AND EPOLLHUP \<noteq> 0 \<and> ch_revents (this s) AND EPOLLIN = 0
            then call (closeCallback cbs) s else Inr s) (\<lambda>s.
     bindE (if ch_revents (this s) AND EPOLLERR \<noteq> 0
            then call (errorCallback cbs) s else Inr s) (\<lambda>s.
     bindE (if ch_revents (this s) AND (EPOLLIN OR EPOLLPRI) \<noteq> 0
            then call_read (readCallback cbs) receiveTime s else Inr s) (\<lambda>s.
     if ch_revents (this s) AND EPOLLOUT \<noteq> 0
     then call (writeCallback cbs) s else Inr s)))"

definition handleEvent ::
    "(conn_id \<Rightarrow> 's \<Rightarrow> bool) \<Rightarrow> ('s \<Rightarrow> channel) \<Rightarrow> 's channel_callbacks \<Rightarrow> timestamp \<Rightarrow> 's \<Rightarrow>
     error + 's" where
  "handleEvent alive this cbs receiveTime s =
     (if ch_tied (this s)
      then (case ch_tie (this s) of
              None \<Rightarrow> Inr s
            | Some obj \<Rightarrow>
                if alive obj s then handleEventWithGuard this cbs receiveTime s else Inr s)
      else handleEventWithGuard this cbs receiveTime s)"

section \<open>Lemmas\<close>

lemma call_None [simp]: "call None s = Inr s"
  by (simp add: call_def)

lemma call_Some [simp]: "call (Some f) s = f s"
  by (simp add: call_def)

lemma call_read_None [simp]: "call_read None t s = Inr s"
  by (simp add: call_read_def)

lemma call_read_Some [simp]: "call_read (Some f) t s = f t s"
  by (simp add: call_read_def)

text \<open>The write bit of the masks the setters compute.\<close>

lemma set_index_simps [simp]:
  "ch_fd (set_index i ch) = ch_fd ch" "ch_events (set_index i ch) = ch_events ch"
  "ch_revents (set_index i ch) = ch_revents ch" "ch_index (set_index i ch) = i"
  "ch_tie (set_index i ch) = ch_tie ch" "ch_tied (set_index i ch) = ch_tied ch"
  by (simp_all add: set_index_def)

lemma Channel_tie_simps [simp]:
  "ch_fd (Channel_tie c ch) = ch_fd ch" "ch_events (Channel_tie c ch) = ch_events ch"
  "ch_revents (Channel_tie c ch) = ch_revents ch" "ch_index (Channel_tie c ch) = ch_index ch"
  by (simp_all add: Channel_tie_def)

lemma isWriting_bit: "isWriting ch \<longleftrightarrow> bit (ch_events ch) 2"
proof -
  have "ch_events ch AND 2 ^ 2 = 0 \<longleftrightarrow> \<not> bit (ch_events ch) 2" by (rule and_exp_eq_0_iff_not_bit)
  then show ?thesis by (simp add: isWriting_def event_defs)
qed

lemma write_bit: "bit kWriteEvent 2" "\<not> bit kReadEvent 2" "\<not> bit kNoneEvent 2"
  by (simp_all add: event_defs bit_or_iff bit_numeral_rec)

lemma isWriting_masks [simp]:
  "isWriting (ch\<lparr>ch_events := e OR kWriteEvent\<rparr>)" "\<not> isWriting (ch\<lparr>ch_events := e AND NOT kWriteEvent\<rparr>)"
  "\<not> isWriting (ch\<lparr>ch_events := kNoneEvent\<rparr>)"
  "isWriting (ch\<lparr>ch_events := e OR kReadEvent\<rparr>) = isWriting (ch\<lparr>ch_events := e\<rparr>)"
  "isWriting (ch\<lparr>ch_events := ch_events ch\<rparr>) = isWriting ch"
  "isWriting (set_index i ch) = isWriting ch" "isWriting (Channel_tie c ch) = isWriting ch"
  by (simp_all add: isWriting_bit write_bit bit_or_iff bit_and_iff bit_not_iff set_index_def Channel_tie_def)

text \<open>A tied channel whose object is gone runs no callback: \<open>handleEvent\<close> leaves the state as
  it is; with a live object, or untied, it is \<open>handleEventWithGuard\<close>.\<close>

lemma handleEvent_tie:
  "handleEvent alive this cbs t s =
     (if ch_tied (this s) \<and> \<not> (\<exists>obj. ch_tie (this s) = Some obj \<and> alive obj s) then Inr s
      else handleEventWithGuard this cbs t s)"
  by (auto simp: handleEvent_def split: option.splits)

end
