(* ===== verification/SimKernel.thy ===== *)
theory SimKernel
  imports Syscalls
begin

text \<open>
  A concrete kernel that behaves as the documents say. The witnesses evaluate the model's
  operations on it, so the hypotheses of the theorems are seen to hold together. Its state holds
  what was sent, received, shut and registered, and scripts that say what the next calls answer: how many
  bytes the next writes accept, what the next reads deliver, which descriptors are ready next.
  An empty script answers as an idle kernel would: a write accepts everything, a read would block,
  no descriptor is ready.
\<close>

record sim =
  sim_sent :: "fd \<Rightarrow> byte list"
  sim_got :: "fd \<Rightarrow> byte list"
  sim_fin :: "fd \<Rightarrow> bool"
  sim_reg :: "fd \<Rightarrow> fd \<Rightarrow> (32 word \<times> chan_ptr) option"
  sim_reads :: "byte list io list"
  sim_writes :: "nat io list"
  sim_ready :: "(fd \<times> 32 word) list list"
  sim_conns :: "sockaddr_in list"
  sim_closed :: "fd list"
  sim_next :: fd
  sim_now :: int

definition sim_init :: sim where
  "sim_init = \<lparr>sim_sent = (\<lambda>_. []), sim_got = (\<lambda>_. []), sim_fin = (\<lambda>_. False), sim_reg = (\<lambda>_ _. None),
     sim_reads = [], sim_writes = [], sim_ready = [], sim_conns = [], sim_closed = [],
     sim_next = 3, sim_now = 0\<rparr>"

definition sim_readv :: "nat \<Rightarrow> sim \<Rightarrow> byte list io \<times> sim" where
  "sim_readv n k = (case sim_reads k of
      [] \<Rightarrow> (Fail EAGAIN, k)
    | Fail e # rs \<Rightarrow> (Fail e, k\<lparr>sim_reads := rs\<rparr>)
    | Done d # rs \<Rightarrow> (Done (take n d), k\<lparr>sim_reads := rs\<rparr>))"

fun sim_log :: "fd \<Rightarrow> byte list io \<times> sim \<Rightarrow> byte list io \<times> sim" where
  "sim_log f (Done d, k) = (Done d, k\<lparr>sim_got := (sim_got k)(f := sim_got k f @ d)\<rparr>)"
| "sim_log f (Fail e, k) = (Fail e, k)"

definition sim_write :: "fd \<Rightarrow> byte list \<Rightarrow> sim \<Rightarrow> nat io \<times> sim" where
  "sim_write f d k = (if sim_fin k f \<and> d \<noteq> [] then (Fail EPIPE, k) else case sim_writes k of
      [] \<Rightarrow> (Done (length d), k\<lparr>sim_sent := (sim_sent k)(f := sim_sent k f @ d)\<rparr>)
    | Fail e # ws \<Rightarrow> (Fail e, k\<lparr>sim_writes := ws\<rparr>)
    | Done n # ws \<Rightarrow> (Done (min n (length d)),
        k\<lparr>sim_sent := (sim_sent k)(f := sim_sent k f @ take (min n (length d)) d), sim_writes := ws\<rparr>))"

text \<open>The file holds zeros and sends as many as the next scripted write accepts.\<close>

definition sim_sendfile :: "fd \<Rightarrow> fd \<Rightarrow> int \<Rightarrow> nat \<Rightarrow> sim \<Rightarrow> nat io \<times> int \<times> sim" where
  "sim_sendfile f g off n k = (case sim_write f (replicate n 0) k of
      (Done m, k) \<Rightarrow> (Done m, off + int m, k) | (Fail e, k) \<Rightarrow> (Fail e, off, k))"

fun sim_epoll_ctl :: "fd \<Rightarrow> epoll_op \<Rightarrow> fd \<Rightarrow> 32 word \<times> chan_ptr \<Rightarrow> sim \<Rightarrow> unit io \<times> sim" where
  "sim_epoll_ctl ep EPOLL_CTL_ADD f ev k =
     (if sim_reg k ep f = None
      then (Done (), k\<lparr>sim_reg := (sim_reg k)(ep := (sim_reg k ep)(f := Some ev))\<rparr>)
      else (Fail 17, k))"
| "sim_epoll_ctl ep EPOLL_CTL_MOD f ev k =
     (if sim_reg k ep f = None then (Fail 2, k)
      else (Done (), k\<lparr>sim_reg := (sim_reg k)(ep := (sim_reg k ep)(f := Some ev))\<rparr>))"
| "sim_epoll_ctl ep EPOLL_CTL_DEL f ev k =
     (if sim_reg k ep f = None then (Fail 2, k)
      else (Done (), k\<lparr>sim_reg := (sim_reg k)(ep := (sim_reg k ep)(f := None))\<rparr>))"

definition sim_events :: "fd \<Rightarrow> (fd \<times> 32 word) list \<Rightarrow> sim \<Rightarrow> (32 word \<times> chan_ptr) list" where
  "sim_events ep fes k = concat (map (\<lambda>(f, e).
     case sim_reg k ep f of None \<Rightarrow> [] | Some (ev, p) \<Rightarrow> [(e, p)]) fes)"

definition sim_epoll_wait :: "fd \<Rightarrow> nat \<Rightarrow> sim \<Rightarrow> (32 word \<times> chan_ptr) list io \<times> sim" where
  "sim_epoll_wait ep n k = (case sim_ready k of
      [] \<Rightarrow> (Done [], k)
    | r # rs \<Rightarrow> (Done (take n (sim_events ep r k)), k\<lparr>sim_ready := rs\<rparr>))"

definition sim_fresh :: "sim \<Rightarrow> fd io \<times> sim" where
  "sim_fresh k = (Done (sim_next k), k\<lparr>sim_next := sim_next k + 1\<rparr>)"

definition sim_epoll_create :: "sim \<Rightarrow> fd io \<times> sim" where
  "sim_epoll_create k = (Done (sim_next k),
     k\<lparr>sim_next := sim_next k + 1, sim_reg := (sim_reg k)(sim_next k := Map.empty)\<rparr>)"

definition sim_accept :: "sim \<Rightarrow> (fd \<times> sockaddr_in) io \<times> sim" where
  "sim_accept k = (case sim_conns k of
      [] \<Rightarrow> (Fail EAGAIN, k)
    | a # cs \<Rightarrow> (Done (sim_next k, a), k\<lparr>sim_conns := cs, sim_next := sim_next k + 1,
        sim_sent := (sim_sent k)(sim_next k := []), sim_got := (sim_got k)(sim_next k := []),
        sim_fin := (sim_fin k)(sim_next k := False), sim_reg := (\<lambda>ep. (sim_reg k ep)(sim_next k := None))\<rparr>))"

definition sim_sys :: "sim sys" where
  "sim_sys = \<lparr>
     sys_readv = (\<lambda>f lens k. sim_log f (sim_readv (sum_list lens) k)),
     sys_read = (\<lambda>f n k. (Done (replicate n 0), k)),
     sys_write = sim_write,
     sys_sendfile = sim_sendfile,
     sys_shutdown_wr = (\<lambda>f k. (Done (), k\<lparr>sim_fin := (sim_fin k)(f := True)\<rparr>)),
     sys_so_error = (\<lambda>f k. (Done 0, k)),
     sys_setsockopt = (\<lambda>f l n v k. (Done (), k)),
     sys_socket = sim_fresh,
     sys_bind = (\<lambda>f a k. (Done (), k)),
     sys_listen = (\<lambda>f n k. (Done (), k)),
     sys_accept4 = (\<lambda>f. sim_accept),
     sys_getsockname = (\<lambda>f k. (Done \<lparr>sin_family = 2, sin_port = 0, sin_addr = 0\<rparr>, k)),
     sys_close = (\<lambda>f k. (Done (), k\<lparr>sim_closed := f # sim_closed k\<rparr>)),
     sys_eventfd = sim_fresh,
     sys_epoll_create = sim_epoll_create,
     sys_epoll_ctl = sim_epoll_ctl,
     sys_epoll_wait = (\<lambda>ep n t. sim_epoll_wait ep n),
     sys_time = (\<lambda>k. (sim_now k, k))\<rparr>"

definition sim_view :: "sim view" where
  "sim_view = \<lparr>v_sent = sim_sent, v_fin = sim_fin, v_reg = sim_reg\<rparr>"

lemma sim_sys_simps [simp]:
  "sys_readv sim_sys f lens k = sim_log f (sim_readv (sum_list lens) k)"
  "sys_read sim_sys f n k = (Done (replicate n 0), k)"
  "sys_write sim_sys = sim_write"
  "sys_sendfile sim_sys = sim_sendfile"
  "sys_shutdown_wr sim_sys f k = (Done (), k\<lparr>sim_fin := (sim_fin k)(f := True)\<rparr>)"
  "sys_so_error sim_sys f k = (Done 0, k)"
  "sys_setsockopt sim_sys f l m v k = (Done (), k)"
  "sys_socket sim_sys = sim_fresh"
  "sys_bind sim_sys f a k = (Done (), k)"
  "sys_listen sim_sys f b k = (Done (), k)"
  "sys_accept4 sim_sys f = sim_accept"
  "sys_getsockname sim_sys f k = (Done \<lparr>sin_family = 2, sin_port = 0, sin_addr = 0\<rparr>, k)"
  "sys_close sim_sys f k = (Done (), k\<lparr>sim_closed := f # sim_closed k\<rparr>)"
  "sys_eventfd sim_sys = sim_fresh"
  "sys_epoll_create sim_sys = sim_epoll_create"
  "sys_epoll_ctl sim_sys = sim_epoll_ctl"
  "sys_epoll_wait sim_sys ep n t = sim_epoll_wait ep n"
  "sys_time sim_sys k = (sim_now k, k)"
  by (simp_all add: sim_sys_def)

lemma sim_view_simps [simp]:
  "v_sent sim_view = sim_sent" "v_fin sim_view = sim_fin" "v_reg sim_view = sim_reg"
  by (simp_all add: sim_view_def)

lemma sim_readv_doc: "readv_doc sim_sys sim_view"
  by (auto simp: readv_doc_def sim_readv_def split: list.splits io.splits)

lemma sim_write_doc: "write_doc sim_sys sim_view"
  by (auto simp: write_doc_def sim_write_def split: list.splits io.splits if_splits)

lemma sim_epipe_doc: "epipe_doc sim_sys sim_view"
  by (simp add: epipe_doc_def sim_write_def)

lemma sim_sendfile_doc: "sendfile_doc sim_sys sim_view"
  unfolding sendfile_doc_def
proof (intro allI impI)
  fix f g off n k r off' k'
  assume "sys_sendfile sim_sys f g off n k = (r, off', k')"
  then have w: "sys_write sim_sys f (replicate n 0) k = (r, k')"
    by (auto simp: sim_sendfile_def split: prod.splits io.splits)
  note d = sim_write_doc [unfolded write_doc_def, rule_format, OF w]
  show "v_fin sim_view k' = v_fin sim_view k \<and> v_reg sim_view k' = v_reg sim_view k \<and>
     (case r of Done m \<Rightarrow> m \<le> n \<and> (\<exists>d. length d = m \<and>
          v_sent sim_view k' = (v_sent sim_view k)(f := v_sent sim_view k f @ d))
      | Fail _ \<Rightarrow> v_sent sim_view k' = v_sent sim_view k)"
  proof (cases r)
    case (Done m)
    with d show ?thesis by (auto intro!: exI [of _ "take m (replicate n 0)"])
  qed (use d in auto)
qed

lemma sim_shutdown_doc: "shutdown_doc sim_sys sim_view"
  by (auto simp: shutdown_doc_def)

lemma sim_so_error_doc: "so_error_doc sim_sys sim_view"
  by (auto simp: so_error_doc_def)

lemma sim_epoll_ctl_doc: "epoll_ctl_doc sim_sys sim_view"
  unfolding epoll_ctl_doc_def
proof (intro allI impI)
  fix ep op f ev k r k'
  assume "sys_epoll_ctl sim_sys ep op f ev k = (r, k')"
  then show "v_sent sim_view k' = v_sent sim_view k \<and> v_fin sim_view k' = v_fin sim_view k \<and>
     (case r of
        Fail _ \<Rightarrow> v_reg sim_view k' = v_reg sim_view k \<and>
          \<not> (op = EPOLL_CTL_DEL \<and> v_reg sim_view k ep f \<noteq> None)
      | Done _ \<Rightarrow>
          v_reg sim_view k' = (v_reg sim_view k)(ep := (v_reg sim_view k ep)
            (f := (if op = EPOLL_CTL_DEL then None else Some ev))) \<and>
          (v_reg sim_view k ep f = None \<longleftrightarrow> op = EPOLL_CTL_ADD))"
    by (cases op) (auto split: if_splits)
qed

lemma sim_events_registered:
  "(e, p) \<in> set (sim_events ep fes k) \<Longrightarrow> \<exists>f ev. sim_reg k ep f = Some (ev, p)"
  unfolding sim_events_def set_concat set_map
  by (elim UnionE imageE) (auto split: option.splits dest: sym)

lemma sim_epoll_wait_doc: "epoll_wait_doc sim_sys sim_view"
  unfolding epoll_wait_doc_def
  by (auto simp: sim_epoll_wait_def dest!: in_set_takeD sim_events_registered split: list.splits)

lemma sim_kernel_doc: "kernel_doc sim_sys sim_view"
  by (simp add: kernel_doc_def sim_readv_doc sim_write_doc sim_shutdown_doc sim_so_error_doc
      sim_epoll_ctl_doc sim_epoll_wait_doc sim_epipe_doc sim_sendfile_doc)

lemma sim_epoll_create_doc: "epoll_create_doc sim_sys sim_view"
  by (auto simp: epoll_create_doc_def sim_epoll_create_def)

lemma sim_passive_doc: "passive_doc sim_sys sim_view"
  by (simp add: passive_doc_def same_view_def sim_fresh_def)

lemma sim_close_doc: "close_doc sim_sys sim_view"
  by (simp add: close_doc_def)

lemma sim_close_own_doc: "close_own_doc sim_sys sim_view"
  by (simp add: close_own_doc_def)

lemma sim_accept_doc: "accept_doc sim_sys sim_view"
  by (auto simp: accept_doc_def sim_accept_def new_fd_def same_view_def split: list.splits)

lemma sim_server_doc: "server_doc sim_sys sim_view"
  by (simp add: server_doc_def sim_kernel_doc sim_passive_doc sim_accept_doc same_view_def sim_close_doc sim_close_own_doc)

text \<open>The same kernel with writes that always take everything.\<close>

definition greedy_sys :: "sim sys" where
  "greedy_sys = sim_sys\<lparr>sys_write := (\<lambda>f d k. sim_write f d (k\<lparr>sim_writes := []\<rparr>))\<rparr>"

lemma greedy_kernel_doc: "kernel_doc greedy_sys sim_view"
proof -
  have "write_doc greedy_sys sim_view" "epipe_doc greedy_sys sim_view"
    by (auto simp: write_doc_def epipe_doc_def greedy_sys_def sim_write_def split: if_splits)
  with sim_kernel_doc show ?thesis
    by (simp add: kernel_doc_def greedy_sys_def readv_doc_def shutdown_doc_def so_error_doc_def
        epoll_ctl_doc_def epoll_wait_doc_def sendfile_doc_def)
qed

end
