(* ===== verification/EPollPoller.thy ===== *)
theory EPollPoller
  imports Channel SimKernel
begin

text \<open>
  The poller (include/Poller.h, src/Poller.cpp, include/EPollPoller.h, src/EPollPoller.cpp,
  src/DefaultPoller.cpp). \<open>ep_channels\<close> is the table \<open>channels_\<close> from descriptors to channel
  pointers, \<open>ep_events_size\<close> the size of the output vector of \<open>epoll_wait\<close>. A channel's \<open>index_\<close>
  is the state of its registration: new, added or deleted. The operations take the pointer and the
  channel it points to, and return the channel as they leave it.

  \<open>known\<close> relates the three records of a registration (the channel's index, the table, the
  kernel's epoll set). The locale \<open>poller\<close> is the interface of the base class \<open>Poller\<close> as event
  loops and channels use it; EPollPoller is its interpretation.
\<close>

section \<open>State\<close>

record epoller =
  ep_channels :: "fd \<rightharpoonup> chan_ptr"
  ep_epollfd :: fd
  ep_events_size :: nat

definition kNew :: int where "kNew = -1"
definition kAdded :: int where "kAdded = 1"
definition kDeleted :: int where "kDeleted = 2"
definition kInitEventListSize :: nat where "kInitEventListSize = 16"

lemmas index_defs = kNew_def kAdded_def kDeleted_def

section \<open>Operations\<close>

definition EPollPoller_init :: "'k sys \<Rightarrow> 'k \<Rightarrow> error + (epoller \<times> 'k)" where
  "EPollPoller_init S k = (case sys_epoll_create S k of
      (Done f, k) \<Rightarrow> Inr (\<lparr>ep_channels = Map.empty, ep_epollfd = f,
         ep_events_size = kInitEventListSize\<rparr>, k)
    | (Fail e, k) \<Rightarrow> Inl FatalExit)"

definition EPollPoller_destroy :: "'k sys \<Rightarrow> epoller \<Rightarrow> 'k \<Rightarrow> 'k" where
  "EPollPoller_destroy S po k = snd (sys_close S (ep_epollfd po) k)"

text \<open>\<open>None\<close> is the null pointer returned when \<open>MUDUO_USE_POLL\<close> is set in the environment.\<close>

definition newDefaultPoller :: "'k sys \<Rightarrow> bool \<Rightarrow> 'k \<Rightarrow> error + (epoller option \<times> 'k)" where
  "newDefaultPoller S use_poll k =
     (if use_poll then Inr (None, k)
      else bindE (EPollPoller_init S k) (\<lambda>(po, k). Inr (Some po, k)))"

definition hasChannel :: "chan_ptr \<Rightarrow> channel \<Rightarrow> epoller \<Rightarrow> bool" where
  "hasChannel p ch po = (case ep_channels po (ch_fd ch) of None \<Rightarrow> False | Some q \<Rightarrow> q = p)"

definition poller_update ::
    "'k sys \<Rightarrow> epoll_op \<Rightarrow> chan_ptr \<Rightarrow> channel \<Rightarrow> epoller \<Rightarrow> 'k \<Rightarrow> error + 'k" where
  "poller_update S operation p ch po k =
     (case sys_epoll_ctl S (ep_epollfd po) operation (ch_fd ch) (ch_events ch, p) k of
        (Done _, k) \<Rightarrow> Inr k
      | (Fail _, k) \<Rightarrow> if operation = EPOLL_CTL_DEL then Inr k else Inl FatalExit)"

definition poller_updateChannel ::
    "'k sys \<Rightarrow> chan_ptr \<Rightarrow> channel \<Rightarrow> epoller \<times> 'k \<Rightarrow> error + (channel \<times> epoller \<times> 'k)" where
  "poller_updateChannel S p ch = (\<lambda>(po, k).
     let index = ch_index ch in
     if index = kNew \<or> index = kDeleted
     then let po = (if index = kNew then po\<lparr>ep_channels := (ep_channels po)(ch_fd ch \<mapsto> p)\<rparr> else po);
              ch = set_index kAdded ch
          in bindE (poller_update S EPOLL_CTL_ADD p ch po k) (\<lambda>k. Inr (ch, po, k))
     else if isNoneEvent ch
       then bindE (poller_update S EPOLL_CTL_DEL p ch po k) (\<lambda>k. Inr (set_index kDeleted ch, po, k))
       else bindE (poller_update S EPOLL_CTL_MOD p ch po k) (\<lambda>k. Inr (ch, po, k)))"

definition poller_removeChannel ::
    "'k sys \<Rightarrow> chan_ptr \<Rightarrow> channel \<Rightarrow> epoller \<times> 'k \<Rightarrow> error + (channel \<times> epoller \<times> 'k)" where
  "poller_removeChannel S p ch = (\<lambda>(po, k).
     let po = po\<lparr>ep_channels := (ep_channels po)(ch_fd ch := None)\<rparr> in
     if ch_index ch = kAdded
     then bindE (poller_update S EPOLL_CTL_DEL p ch po k) (\<lambda>k. Inr (set_index kNew ch, po, k))
     else Inr (set_index kNew ch, po, k))"

text \<open>
  \<open>fillActiveChannels\<close>: \<open>with_channel p f\<close> updates the channel at \<open>p\<close> in the state by \<open>f\<close>.
\<close>

fun fillActiveChannels ::
    "(chan_ptr \<Rightarrow> (channel \<Rightarrow> channel) \<Rightarrow> 's \<Rightarrow> 's) \<Rightarrow> (events \<times> chan_ptr) list \<Rightarrow> 's \<Rightarrow>
     chan_ptr list \<times> 's" where
  "fillActiveChannels with_channel [] s = ([], s)"
| "fillActiveChannels with_channel ((e, p) # evs) s =
     (let (ps, s) = fillActiveChannels with_channel evs (with_channel p (set_revents e) s)
      in (p # ps, s))"

text \<open>
  \<open>poll\<close>: the result of \<open>epoll_wait\<close>, the time of its return, and the poller with its output vector
  doubled when the events filled it. The active channels are filled by the caller of this
  definition from the events returned (none after a timeout or an error).
\<close>

definition poll :: "'k sys \<Rightarrow> int \<Rightarrow> epoller \<Rightarrow> 'k \<Rightarrow> timestamp \<times> (events \<times> chan_ptr) list \<times> epoller \<times> 'k" where
  "poll S timeoutMs po k =
     (let (r, k) = sys_epoll_wait S (ep_epollfd po) (ep_events_size po) timeoutMs k;
          (now, k) = Timestamp_now S k
      in case r of
        Done evs \<Rightarrow>
          if 0 < length evs
          then (now, evs, (if length evs = ep_events_size po
                           then po\<lparr>ep_events_size := ep_events_size po * 2\<rparr> else po), k)
          else (now, [], po, k)
      | Fail e \<Rightarrow> (now, [], po, k))"

section \<open>The registration of a channel\<close>

definition interest :: "'k view \<Rightarrow> epoller \<times> 'k \<Rightarrow> fd \<Rightarrow> (events \<times> chan_ptr) option" where
  "interest V q f = v_reg V (snd q) (ep_epollfd (fst q)) f"

definition known :: "'k view \<Rightarrow> epoller \<times> 'k \<Rightarrow> chan_ptr \<Rightarrow> channel \<Rightarrow> bool" where
  "known V q p ch \<longleftrightarrow>
     (ch_index ch = kAdded \<and> (\<exists>ev. interest V q (ch_fd ch) = Some (ev, p)) \<and>
        ep_channels (fst q) (ch_fd ch) = Some p) \<or>
     (ch_index ch = kDeleted \<and> interest V q (ch_fd ch) = None \<and>
        ep_channels (fst q) (ch_fd ch) = Some p) \<or>
     (ch_index ch = kNew \<and> interest V q (ch_fd ch) = None \<and>
        ep_channels (fst q) (ch_fd ch) = None)"

text \<open>The registration is what the channel asks for.\<close>

definition in_sync :: "'k view \<Rightarrow> epoller \<times> 'k \<Rightarrow> chan_ptr \<Rightarrow> channel \<Rightarrow> bool" where
  "in_sync V q p ch \<longleftrightarrow> known V q p ch \<and>
     (case interest V q (ch_fd ch) of
        None \<Rightarrow> ch_events ch = kNoneEvent
      | Some (ev, _) \<Rightarrow> ev = ch_events ch)"

text \<open>What a change of one descriptor's registration leaves alone.\<close>

definition same_but :: "'k view \<Rightarrow> fd \<Rightarrow> epoller \<times> 'k \<Rightarrow> epoller \<times> 'k \<Rightarrow> bool" where
  "same_but V f q q' \<longleftrightarrow> ep_epollfd (fst q') = ep_epollfd (fst q) \<and>
     ep_events_size (fst q') = ep_events_size (fst q) \<and>
     v_sent V (snd q') = v_sent V (snd q) \<and> v_fin V (snd q') = v_fin V (snd q) \<and>
     (\<forall>g. g \<noteq> f \<longrightarrow> ep_channels (fst q') g = ep_channels (fst q) g) \<and>
     (\<forall>ep g. ep \<noteq> ep_epollfd (fst q) \<or> g \<noteq> f \<longrightarrow> v_reg V (snd q') ep g = v_reg V (snd q) ep g)"

lemma same_but_interest: "same_but V f q q' \<Longrightarrow> g \<noteq> f \<Longrightarrow> interest V q' g = interest V q g"
  by (simp add: same_but_def interest_def)

lemma same_but_known:
  "same_but V f q q' \<Longrightarrow> ch_fd ch \<noteq> f \<Longrightarrow> known V q' p ch = known V q p ch"
  by (simp add: known_def same_but_interest) (simp add: same_but_def)

lemma known_new: "known V q p (Channel_init f) \<longleftrightarrow>
    interest V q f = None \<and> ep_channels (fst q) f = None"
  by (auto simp: known_def Channel_init_def index_defs)

lemma known_events [simp]: "known V q p (ch\<lparr>ch_events := e\<rparr>) = known V q p ch"
  by (simp add: known_def)

lemma known_hasChannel: "known V q p ch \<Longrightarrow> hasChannel p ch (fst q) \<longleftrightarrow> ch_index ch \<noteq> kNew"
  by (auto simp: known_def hasChannel_def index_defs)

lemma known_index: "known V q p ch \<Longrightarrow> ch_index ch \<in> {kNew, kAdded, kDeleted}"
  by (auto simp: known_def)

text \<open>One call of \<open>epoll_ctl\<close>.\<close>

lemma poller_update_ok:
  assumes doc: "epoll_ctl_doc S V" and u: "poller_update S operation p ch po k = Inr k'"
    and pre: "operation = EPOLL_CTL_DEL \<Longrightarrow> v_reg V k (ep_epollfd po) (ch_fd ch) \<noteq> None"
  shows "v_reg V k' = (v_reg V k)(ep_epollfd po := (v_reg V k (ep_epollfd po))
      (ch_fd ch := (if operation = EPOLL_CTL_DEL then None else Some (ch_events ch, p))))"
    and "v_sent V k' = v_sent V k" and "v_fin V k' = v_fin V k"
proof -
  obtain r k1 where c: "sys_epoll_ctl S (ep_epollfd po) operation (ch_fd ch) (ch_events ch, p) k = (r, k1)"
    by fastforce
  note d = doc [unfolded epoll_ctl_doc_def, rule_format, OF c]
  have r: "r = Done ()"
    using d u pre c by (cases r) (auto simp: poller_update_def split: if_splits)
  then have "k' = k1" using u c by (simp add: poller_update_def)
  with d r show "v_reg V k' = (v_reg V k)(ep_epollfd po := (v_reg V k (ep_epollfd po))
      (ch_fd ch := (if operation = EPOLL_CTL_DEL then None else Some (ch_events ch, p))))"
    "v_sent V k' = v_sent V k" "v_fin V k' = v_fin V k"
    by simp_all
qed

lemma poller_update_err: "poller_update S operation p ch po k = Inl e \<Longrightarrow> e = FatalExit"
  by (auto simp: poller_update_def split: prod.splits io.splits if_splits)

lemma poller_update_del: "\<exists>k'. poller_update S EPOLL_CTL_DEL p ch po k = Inr k'"
  by (auto simp: poller_update_def split: prod.splits io.splits)

section \<open>updateChannel and removeChannel keep the registrations in step\<close>

text \<open>The index a channel has after \<open>updateChannel\<close>.\<close>

definition next_index :: "channel \<Rightarrow> int" where
  "next_index ch = (if ch_index ch = kAdded \<and> isNoneEvent ch then kDeleted else kAdded)"

lemma updateChannel_ok:
  assumes doc: "epoll_ctl_doc S V" and kn: "known V (po, k) p ch"
  shows "holdsE (\<lambda>e. e = FatalExit)
     (\<lambda>(ch', q'). ch' = set_index (next_index ch) ch \<and> in_sync V q' p ch' \<and>
        same_but V (ch_fd ch) (po, k) q')
     (poller_updateChannel S p ch (po, k))"
proof -
  consider (new) "ch_index ch = kNew" | (deleted) "ch_index ch = kDeleted"
    | (drop) "ch_index ch = kAdded" "isNoneEvent ch"
    | (change) "ch_index ch = kAdded" "\<not> isNoneEvent ch"
    using known_index [OF kn] by blast
  then show ?thesis
  proof cases
    case new
    let ?po = "po\<lparr>ep_channels := (ep_channels po)(ch_fd ch \<mapsto> p)\<rparr>" and ?ch = "set_index kAdded ch"
    have eq: "poller_updateChannel S p ch (po, k) =
        bindE (poller_update S EPOLL_CTL_ADD p ?ch ?po k) (\<lambda>k. Inr (?ch, ?po, k))"
      using new by (simp add: poller_updateChannel_def Let_def)
    show ?thesis
    proof (cases "poller_update S EPOLL_CTL_ADD p ?ch ?po k")
      case (Inr k')
      from poller_update_ok [OF doc Inr] show ?thesis
        using new unfolding eq Inr
        by (auto simp: in_sync_def known_def same_but_def interest_def set_index_def next_index_def
            index_defs)
    qed (simp add: eq poller_update_err)
  next
    case deleted
    let ?ch = "set_index kAdded ch"
    have eq: "poller_updateChannel S p ch (po, k) =
        bindE (poller_update S EPOLL_CTL_ADD p ?ch po k) (\<lambda>k. Inr (?ch, po, k))"
      using deleted by (simp add: poller_updateChannel_def Let_def) (simp add: index_defs)
    show ?thesis
    proof (cases "poller_update S EPOLL_CTL_ADD p ?ch po k")
      case (Inr k')
      from poller_update_ok [OF doc Inr] kn show ?thesis
        using deleted unfolding eq Inr
        by (auto simp: in_sync_def known_def same_but_def interest_def set_index_def next_index_def
            index_defs)
    qed (simp add: eq poller_update_err)
  next
    case drop
    have eq: "poller_updateChannel S p ch (po, k) =
        bindE (poller_update S EPOLL_CTL_DEL p ch po k) (\<lambda>k. Inr (set_index kDeleted ch, po, k))"
      using drop by (simp add: poller_updateChannel_def index_defs)
    obtain k' where u: "poller_update S EPOLL_CTL_DEL p ch po k = Inr k'"
      using poller_update_del [of S p ch po k] by auto
    have "v_reg V k (ep_epollfd po) (ch_fd ch) \<noteq> None"
      using kn drop by (auto simp: known_def interest_def index_defs)
    from poller_update_ok [OF doc u this] kn show ?thesis
      using drop unfolding eq u
      by (auto simp: in_sync_def known_def same_but_def interest_def set_index_def next_index_def
          index_defs isNoneEvent_def)
  next
    case change
    have eq: "poller_updateChannel S p ch (po, k) =
        bindE (poller_update S EPOLL_CTL_MOD p ch po k) (\<lambda>k. Inr (ch, po, k))"
      using change by (simp add: poller_updateChannel_def index_defs)
    show ?thesis
    proof (cases "poller_update S EPOLL_CTL_MOD p ch po k")
      case (Inr k')
      from poller_update_ok [OF doc Inr] kn show ?thesis
        using change unfolding eq Inr
        by (auto simp: in_sync_def known_def same_but_def interest_def set_index_def next_index_def
            index_defs)
    qed (simp add: eq poller_update_err)
  qed
qed

lemma removeChannel_ok:
  assumes doc: "epoll_ctl_doc S V" and kn: "known V (po, k) p ch"
  shows "\<exists>q'. poller_removeChannel S p ch (po, k) = Inr (set_index kNew ch, q') \<and>
     known V q' p (set_index kNew ch) \<and> interest V q' (ch_fd ch) = None \<and>
     same_but V (ch_fd ch) (po, k) q'"
proof (cases "ch_index ch = kAdded")
  case True
  let ?po = "po\<lparr>ep_channels := (ep_channels po)(ch_fd ch := None)\<rparr>"
  obtain k' where u: "poller_update S EPOLL_CTL_DEL p ch ?po k = Inr k'"
    using poller_update_del [of S p ch ?po k] by auto
  have "v_reg V k (ep_epollfd ?po) (ch_fd ch) \<noteq> None"
    using kn True by (auto simp: known_def interest_def index_defs)
  from poller_update_ok [OF doc u this] show ?thesis
    using True u
    by (auto simp: poller_removeChannel_def known_def same_but_def interest_def set_index_def
        index_defs)
next
  case False
  then show ?thesis
    using kn by (auto simp: poller_removeChannel_def known_def same_but_def interest_def
        set_index_def index_defs)
qed

section \<open>The interface of the base class\<close>

text \<open>
  \<open>class Poller\<close> as its callers use it. \<open>fits\<close> is what a caller has to know of a channel before a
  call, \<open>synced\<close> what it has afterwards: the registration is the one the channel asks for. A call
  for one descriptor leaves the channels of the others synced.
\<close>

locale poller =
  fixes update :: "chan_ptr \<Rightarrow> channel \<Rightarrow> 'q \<Rightarrow> error + (channel \<times> 'q)"
    and remove :: "chan_ptr \<Rightarrow> channel \<Rightarrow> 'q \<Rightarrow> error + (channel \<times> 'q)"
    and fits :: "'q \<Rightarrow> chan_ptr \<Rightarrow> channel \<Rightarrow> bool"
    and synced :: "'q \<Rightarrow> chan_ptr \<Rightarrow> channel \<Rightarrow> bool"
  assumes change: "synced q p ch \<Longrightarrow> fits q p (ch\<lparr>ch_events := e\<rparr>)"
    and update: "fits q p ch \<Longrightarrow> holdsE (\<lambda>e. e = FatalExit)
      (\<lambda>(ch', q'). synced q' p ch' \<and> ch_fd ch' = ch_fd ch \<and>
         (\<forall>p2 ch2. ch_fd ch2 \<noteq> ch_fd ch \<longrightarrow> synced q p2 ch2 \<longrightarrow> synced q' p2 ch2)) (update p ch q)"
    and remove: "fits q p ch \<Longrightarrow> holdsE (\<lambda>e. e = FatalExit)
      (\<lambda>(ch', q'). synced q' p ch' \<and> ch_fd ch' = ch_fd ch \<and>
         (\<forall>p2 ch2. ch_fd ch2 \<noteq> ch_fd ch \<longrightarrow> synced q p2 ch2 \<longrightarrow> synced q' p2 ch2)) (remove p ch q)"

text \<open>
  What the owners of channels do with them over time: set the events asked for and call
  \<open>update()\<close> (\<open>enableReading\<close>, \<open>disableAll\<close>, ...), or call \<open>remove()\<close>.
\<close>

datatype channel_op = SetEvents events | RemoveChannel

fun channel_step ::
    "(chan_ptr \<Rightarrow> channel \<Rightarrow> 'q \<Rightarrow> error + (channel \<times> 'q)) \<Rightarrow>
     (chan_ptr \<Rightarrow> channel \<Rightarrow> 'q \<Rightarrow> error + (channel \<times> 'q)) \<Rightarrow>
     chan_ptr \<times> channel_op \<Rightarrow> (chan_ptr \<Rightarrow> channel) \<times> 'q \<Rightarrow> error + ((chan_ptr \<Rightarrow> channel) \<times> 'q)" where
  "channel_step update remove (p, SetEvents e) (chs, q) =
     bindE (update p (chs p\<lparr>ch_events := e\<rparr>) q) (\<lambda>(ch, q). Inr (chs(p := ch), q))"
| "channel_step update remove (p, RemoveChannel) (chs, q) =
     bindE (remove p (chs p) q) (\<lambda>(ch, q). Inr (chs(p := ch), q))"

definition all_synced ::
    "('q \<Rightarrow> chan_ptr \<Rightarrow> channel \<Rightarrow> bool) \<Rightarrow> chan_ptr set \<Rightarrow> (chan_ptr \<Rightarrow> channel) \<times> 'q \<Rightarrow> bool" where
  "all_synced synced P = (\<lambda>(chs, q). inj_on (\<lambda>p. ch_fd (chs p)) P \<and> (\<forall>p\<in>P. synced q p (chs p)))"

context poller
begin

lemma fits_unchanged: "synced q p ch \<Longrightarrow> fits q p ch"
  using change [of q p ch "ch_events ch"] by simp

definition kept :: "chan_ptr \<Rightarrow> channel \<Rightarrow> 'q \<Rightarrow> channel \<times> 'q \<Rightarrow> bool" where
  "kept p ch q = (\<lambda>(ch', q'). synced q' p ch' \<and> ch_fd ch' = ch_fd ch \<and>
     (\<forall>p2 ch2. ch_fd ch2 \<noteq> ch_fd ch \<longrightarrow> synced q p2 ch2 \<longrightarrow> synced q' p2 ch2))"

lemma put_back:
  assumes inv: "all_synced synced P (chs, q)" and p: "p \<in> P" and ch: "ch_fd ch = ch_fd (chs p)"
    and r: "holdsE (\<lambda>e. e = FatalExit) (kept p ch q) m"
  shows "holdsE (\<lambda>e. e = FatalExit) (all_synced synced P)
     (bindE m (\<lambda>(ch, q). Inr (chs(p := ch), q)))"
proof (rule holdsE_bind [OF r])
  fix x
  assume x: "kept p ch q x"
  have inj: "inj_on (\<lambda>p. ch_fd (chs p)) P" and all: "\<And>r. r \<in> P \<Longrightarrow> synced q r (chs r)"
    using inv by (simp_all add: all_synced_def)
  obtain ch' q' where xq: "x = (ch', q')" by fastforce
  have new: "synced q' p ch'" and f: "ch_fd ch' = ch_fd (chs p)"
    and others: "\<And>p2 ch2. ch_fd ch2 \<noteq> ch_fd (chs p) \<Longrightarrow> synced q p2 ch2 \<Longrightarrow> synced q' p2 ch2"
    using x ch by (simp_all add: xq kept_def)
  have "(\<lambda>r. ch_fd ((chs(p := ch')) r)) = (\<lambda>r. ch_fd (chs r))"
    using f by (rule_tac ext) simp
  then have "inj_on (\<lambda>r. ch_fd ((chs(p := ch')) r)) P"
    using inj by (simp only:)
  moreover have "synced q' r ((chs(p := ch')) r)" if r: "r \<in> P" for r
  proof (cases "r = p")
    case True
    then show ?thesis using new by simp
  next
    case False
    then have "ch_fd (chs r) \<noteq> ch_fd (chs p)"
      using inj_onD [OF inj, of r p] p r by auto
    moreover have "synced q r (chs r)" by (rule all [OF r])
    ultimately show ?thesis using others False by simp
  qed
  ultimately show "holdsE (\<lambda>e. e = FatalExit) (all_synced synced P)
      (case x of (ch, q) \<Rightarrow> Inr (chs(p := ch), q))"
    by (simp add: xq all_synced_def)
qed

lemma step_synced:
  assumes inv: "all_synced synced P st" and p: "fst pop \<in> P"
  shows "holdsE (\<lambda>e. e = FatalExit) (all_synced synced P) (channel_step update remove pop st)"
proof -
  obtain chs q p' oper where st: "st = (chs, q)" "pop = (p', oper)" by fastforce
  have s: "synced q p' (chs p')" using inv p st by (auto simp: all_synced_def)
  show ?thesis
  proof (cases oper)
    case (SetEvents e)
    have "fits q p' (chs p'\<lparr>ch_events := e\<rparr>)" by (rule change [OF s])
    from put_back [OF inv [unfolded st] _ _ update [OF this, folded kept_def]] show ?thesis
      using p by (simp add: st SetEvents)
  next
    case RemoveChannel
    from put_back [OF inv [unfolded st] _ _ remove [OF fits_unchanged [OF s], folded kept_def]] show ?thesis
      using p by (simp add: st RemoveChannel)
  qed
qed

lemma script_synced:
  assumes "all_synced synced P st" and "fst ` set script \<subseteq> P"
  shows "holdsE (\<lambda>e. e = FatalExit) (all_synced synced P)
     (foldE (channel_step update remove) script st)"
proof (rule foldE_invariant)
  show "all_synced synced P st" by (rule assms(1))
next
  fix pop st'
  assume "pop \<in> set script" "all_synced synced P st'"
  with assms(2) show "holdsE (\<lambda>e. e = FatalExit) (all_synced synced P)
      (channel_step update remove pop st')"
    by (intro step_synced) auto
qed

end

text \<open>EPollPoller implements the interface.\<close>

definition ep_synced :: "'k view \<Rightarrow> epoller \<times> 'k \<Rightarrow> chan_ptr \<Rightarrow> channel \<Rightarrow> bool" where
  "ep_synced V q p ch \<longleftrightarrow> known V q p ch \<and>
     (ch_index ch = kAdded \<longrightarrow> interest V q (ch_fd ch) = Some (ch_events ch, p))"

lemma in_sync_ep_synced: "in_sync V q p ch \<Longrightarrow> ep_synced V q p ch"
  by (auto simp: in_sync_def ep_synced_def known_def index_defs)

lemma same_but_synced:
  "same_but V f q q' \<Longrightarrow> ch_fd ch \<noteq> f \<Longrightarrow> ep_synced V q p ch \<Longrightarrow> ep_synced V q' p ch"
  by (auto simp: ep_synced_def same_but_known same_but_interest)

lemma updateChannel_synced:
  assumes "epoll_ctl_doc S V" and "known V q p ch"
  shows "holdsE (\<lambda>e. e = FatalExit)
      (\<lambda>(ch', q'). ep_synced V q' p ch' \<and> ch_fd ch' = ch_fd ch \<and>
         (\<forall>p2 ch2. ch_fd ch2 \<noteq> ch_fd ch \<longrightarrow> ep_synced V q p2 ch2 \<longrightarrow> ep_synced V q' p2 ch2))
      (poller_updateChannel S p ch q)"
proof -
  obtain po k where q: "q = (po, k)" by fastforce
  show ?thesis
    unfolding q
    by (rule holdsE_mono [OF updateChannel_ok [OF assms(1) assms(2) [unfolded q]]])
      (auto simp: in_sync_ep_synced set_index_def intro: same_but_synced)
qed

lemma removeChannel_synced:
  assumes "epoll_ctl_doc S V" and "known V q p ch"
  shows "holdsE (\<lambda>e. e = FatalExit)
      (\<lambda>(ch', q'). ep_synced V q' p ch' \<and> ch_fd ch' = ch_fd ch \<and>
         (\<forall>p2 ch2. ch_fd ch2 \<noteq> ch_fd ch \<longrightarrow> ep_synced V q p2 ch2 \<longrightarrow> ep_synced V q' p2 ch2))
      (poller_removeChannel S p ch q)"
proof -
  obtain po k where q: "q = (po, k)" by fastforce
  obtain q' where "poller_removeChannel S p ch (po, k) = Inr (set_index kNew ch, q')"
    "known V q' p (set_index kNew ch)" "same_but V (ch_fd ch) (po, k) q'"
    using removeChannel_ok [OF assms(1) assms(2) [unfolded q]] by blast
  then show ?thesis
    by (auto simp: q ep_synced_def set_index_def index_defs dest: same_but_synced
        intro: same_but_synced [unfolded ep_synced_def])
qed

interpretation epoll: poller "poller_updateChannel S" "poller_removeChannel S"
  "\<lambda>q p ch. epoll_ctl_doc S V \<and> known V q p ch" "\<lambda>q p ch. epoll_ctl_doc S V \<and> ep_synced V q p ch"
  for S :: "'k sys" and V :: "'k view"
proof unfold_locales
  fix q p ch e
  assume "epoll_ctl_doc S V \<and> ep_synced V q p ch"
  then show "epoll_ctl_doc S V \<and> known V q p (ch\<lparr>ch_events := e\<rparr>)" by (simp add: ep_synced_def)
next
  fix q p ch
  assume "epoll_ctl_doc S V \<and> known V q p ch"
  then have a: "epoll_ctl_doc S V" "known V q p ch" by auto
  show "holdsE (\<lambda>e. e = FatalExit)
      (\<lambda>(ch', q'). (epoll_ctl_doc S V \<and> ep_synced V q' p ch') \<and> ch_fd ch' = ch_fd ch \<and>
         (\<forall>p2 ch2. ch_fd ch2 \<noteq> ch_fd ch \<longrightarrow> epoll_ctl_doc S V \<and> ep_synced V q p2 ch2 \<longrightarrow>
            epoll_ctl_doc S V \<and> ep_synced V q' p2 ch2)) (poller_updateChannel S p ch q)"
    by (rule holdsE_mono [OF updateChannel_synced [OF a]]) (auto simp: a)
  show "holdsE (\<lambda>e. e = FatalExit)
      (\<lambda>(ch', q'). (epoll_ctl_doc S V \<and> ep_synced V q' p ch') \<and> ch_fd ch' = ch_fd ch \<and>
         (\<forall>p2 ch2. ch_fd ch2 \<noteq> ch_fd ch \<longrightarrow> epoll_ctl_doc S V \<and> ep_synced V q p2 ch2 \<longrightarrow>
            epoll_ctl_doc S V \<and> ep_synced V q' p2 ch2)) (poller_removeChannel S p ch q)"
    by (rule holdsE_mono [OF removeChannel_synced [OF a]]) (auto simp: a)
qed

section \<open>Properties\<close>

text \<open>
  The registration of a channel as an observer of the kernel and of the table sees it.
\<close>

definition registration_matches :: "'k view \<Rightarrow> epoller \<times> 'k \<Rightarrow> chan_ptr \<Rightarrow> channel \<Rightarrow> bool" where
  "registration_matches V q p ch \<longleftrightarrow>
     interest V q (ch_fd ch) = (if ch_index ch = kAdded then Some (ch_events ch, p) else None) \<and>
     (hasChannel p ch (fst q) \<longleftrightarrow> ch_index ch \<noteq> kNew)"

lemma ep_synced_matches: "ep_synced V q p ch \<Longrightarrow> registration_matches V q p ch"
  unfolding registration_matches_def using known_hasChannel [of V q p ch]
  by (auto simp: ep_synced_def known_def index_defs)

lemma fresh_synced:
  assumes "inj_on f P" and "ep_channels po = Map.empty"
    and "\<And>p. p \<in> P \<Longrightarrow> v_reg V k (ep_epollfd po) (f p) = None"
  shows "all_synced (ep_synced V) P (\<lambda>p. Channel_init (f p), po, k)"
  using assms by (auto simp: all_synced_def ep_synced_def known_new interest_def)
    (simp_all add: Channel_init_def index_defs)

text \<open>C17: The registrations in the kernel follow the channels. Start with new channels on distinct
  descriptors and an empty poller, and let the owners set event masks and remove channels in any
  order. If the process does not end with the fatal error of a failed \<open>epoll_ctl\<close>, then for
  every channel afterwards: the kernel watches its descriptor exactly when its index is
  \<open>kAdded\<close>, for exactly its events and with its own address, and \<open>hasChannel\<close> is true exactly
  when its index is not \<open>kNew\<close>.\<close>

theorem registrations_follow_channels:
  assumes "epoll_ctl_doc S V" and "inj_on f P" and "ep_channels po = Map.empty"
    and "\<forall>p\<in>P. v_reg V k (ep_epollfd po) (f p) = None" and "fst ` set script \<subseteq> P"
  shows "holdsE (\<lambda>e. e = FatalExit) (\<lambda>(chs, q). \<forall>p\<in>P. registration_matches V q p (chs p))
     (foldE (channel_step (poller_updateChannel S) (poller_removeChannel S)) script
        (\<lambda>p. Channel_init (f p), po, k))"
proof (rule holdsE_mono [OF epoll.script_synced [where S = S and V = V and P = P]])
  show "all_synced (\<lambda>q p ch. epoll_ctl_doc S V \<and> ep_synced V q p ch) P
      (\<lambda>p. Channel_init (f p), po, k)"
    using fresh_synced [of f P po V k] assms by (simp add: all_synced_def)
qed (use assms(5) in \<open>auto simp: all_synced_def intro: ep_synced_matches\<close>)

definition two_channels :: "chan_ptr \<Rightarrow> fd" where
  "two_channels p = (case p of WakeupChannelOf l \<Rightarrow> 10 | AcceptChannelOf l \<Rightarrow> 11
     | ConnChannelOf c \<Rightarrow> 12 + int c)"

theorem registrations_follow_channels_witness:
  "holdsE (\<lambda>e. e = FatalExit)
     (\<lambda>(chs, q). \<forall>p\<in>{AcceptChannelOf 0, ConnChannelOf 3}. registration_matches sim_view q p (chs p))
     (foldE (channel_step (poller_updateChannel sim_sys) (poller_removeChannel sim_sys))
        [(ConnChannelOf 3, SetEvents 3), (AcceptChannelOf 0, SetEvents 3), (ConnChannelOf 3, SetEvents 7),
         (ConnChannelOf 3, SetEvents 0), (AcceptChannelOf 0, RemoveChannel)]
        (\<lambda>p. Channel_init (two_channels p),
         \<lparr>ep_channels = Map.empty, ep_epollfd = 3, ep_events_size = 16\<rparr>, sim_init))"
  by (rule registrations_follow_channels [OF sim_epoll_ctl_doc])
    (auto simp: two_channels_def sim_init_def inj_on_def)

text \<open>What \<open>poll\<close> returns and how its output vector grows. The number of events never exceeds
  the size of the vector, each event carries the channel pointer of a registration in this poller's
  epoll set, no registration changes, and the vector is doubled exactly when a non-empty result
  filled it; it never shrinks.\<close>

lemma poll_events:
  assumes "epoll_wait_doc S V" and "\<And>k. v_reg V (snd (sys_time S k)) = v_reg V k"
    and "poll S timeoutMs po k = (now, evs, po', k')"
  shows "length evs \<le> ep_events_size po \<and>
     (\<forall>e p. (e, p) \<in> set evs \<longrightarrow> (\<exists>f ev. interest V (po, k) f = Some (ev, p))) \<and>
     v_reg V k' = v_reg V k \<and>
     po' = (if evs \<noteq> [] \<and> length evs = ep_events_size po
            then po\<lparr>ep_events_size := ep_events_size po * 2\<rparr> else po)"
proof -
  obtain r k1 where w: "sys_epoll_wait S (ep_epollfd po) (ep_events_size po) timeoutMs k = (r, k1)"
    by fastforce
  note d = assms(1) [unfolded epoll_wait_doc_def, rule_format, OF w]
  have k': "v_reg V k' = v_reg V k"
    using assms(3) w d assms(2) [of k1]
    by (auto simp: poll_def Timestamp_now_def Let_def split: prod.splits io.splits if_splits)
  show ?thesis
    using assms(3) w d k'
    by (auto simp: poll_def interest_def Let_def split: prod.splits io.splits if_splits)
qed

lemma poll_events_witness:
  "\<exists>now k'. poll sim_sys 10000 \<lparr>ep_channels = Map.empty, ep_epollfd = 3, ep_events_size = 2\<rparr>
     (sim_init\<lparr>sim_reg := (\<lambda>_ _. None)(3 := [7 \<mapsto> (3, ConnChannelOf 0)]),
        sim_ready := [[(7, 1), (7, 4)]]\<rparr>) =
   (now, [(1, ConnChannelOf 0), (4, ConnChannelOf 0)],
    \<lparr>ep_channels = Map.empty, ep_epollfd = 3, ep_events_size = 4\<rparr>, k')"
proof -
  let ?po = "\<lparr>ep_channels = Map.empty, ep_epollfd = 3, ep_events_size = 2\<rparr>"
  let ?k = "sim_init\<lparr>sim_reg := (\<lambda>_ _. None)(3 := [7 \<mapsto> (3, ConnChannelOf 0)]),
        sim_ready := [[(7, 1), (7, 4)]]\<rparr>"
  obtain now evs po' k' where p: "poll sim_sys 10000 ?po ?k = (now, evs, po', k')"
    by (metis prod_cases4)
  have "evs = [(1, ConnChannelOf 0), (4, ConnChannelOf 0)]"
    using p by (auto simp: poll_def sim_epoll_wait_def sim_events_def Let_def split: prod.splits)
  moreover have "po' = (if evs \<noteq> [] \<and> length evs = ep_events_size ?po
      then ?po\<lparr>ep_events_size := ep_events_size ?po * 2\<rparr> else ?po)"
    using poll_events [OF sim_epoll_wait_doc _ p] by simp
  ultimately show ?thesis using p by simp
qed

text \<open>C38: A second \<open>disableAll\<close> undoes the first. When a channel already deleted from the epoll set
  asks for no events once more, \<open>updateChannel\<close> takes the \<open>kDeleted\<close> branch without looking at
  the events and adds the descriptor again with an empty mask; epoll then reports errors and
  hang-ups of a channel that was disabled.\<close>

theorem disableAll_twice_registers:
  assumes "epoll_ctl_doc S V" and "known V q p ch" and "ch_index ch = kDeleted"
    and "poller_updateChannel S p (ch\<lparr>ch_events := kNoneEvent\<rparr>) q = Inr (ch', q')"
  shows "interest V q (ch_fd ch) = None \<and> interest V q' (ch_fd ch) = Some (kNoneEvent, p) \<and>
    ch_index ch' = kAdded"
proof -
  obtain po k where q: "q = (po, k)" by fastforce
  have kn: "known V (po, k) p (ch\<lparr>ch_events := kNoneEvent\<rparr>)" using assms(2) q by simp
  have "ch' = set_index kAdded (ch\<lparr>ch_events := kNoneEvent\<rparr>)" "in_sync V q' p ch'"
    using holdsED [OF updateChannel_ok [OF assms(1) kn] assms(4) [unfolded q]] assms(3)
    by (auto simp: next_index_def index_defs)
  then show ?thesis
    using assms(2,3) by (auto simp: in_sync_def known_def set_index_def index_defs)
qed

theorem disableAll_twice_registers_witness:
  "\<exists>ch' q'. poller_updateChannel sim_sys (ConnChannelOf 0)
       (Channel_init 7\<lparr>ch_index := kDeleted, ch_events := kNoneEvent\<rparr>)
       (\<lparr>ep_channels = [7 \<mapsto> ConnChannelOf 0], ep_epollfd = 3, ep_events_size = 16\<rparr>, sim_init) = Inr (ch', q') \<and>
     interest sim_view q' 7 = Some (kNoneEvent, ConnChannelOf 0)"
proof -
  let ?ch = "Channel_init 7\<lparr>ch_index := kDeleted\<rparr>"
  let ?q = "(\<lparr>ep_channels = [7 \<mapsto> ConnChannelOf 0], ep_epollfd = 3, ep_events_size = 16\<rparr>, sim_init)"
  have kn: "known sim_view ?q (ConnChannelOf 0) ?ch"
    by (simp add: known_def interest_def Channel_init_def index_defs sim_init_def)
  obtain ch' q' where u: "poller_updateChannel sim_sys (ConnChannelOf 0)
       (?ch\<lparr>ch_events := kNoneEvent\<rparr>) ?q = Inr (ch', q')"
    by (simp add: poller_updateChannel_def poller_update_def Channel_init_def index_defs sim_init_def
        set_index_def)
  show ?thesis
    using disableAll_twice_registers [OF sim_epoll_ctl_doc kn _ u] u by (simp add: Channel_init_def)
qed

end
