(* ===== verification/EventLoop.thy ===== *)
theory EventLoop
  imports EPollPoller
begin

text \<open>
  The event loop (include/EventLoop.h, src/EventLoop.cpp) and the operations of a channel that go
  through it (\<open>Channel::update\<close> and the event setters of include/Channel.h).

  \<open>loop_st\<close> is the state a thread works on: which thread runs (\<open>CurrentThread::tid()\<close>), the loop
  and its address, and the kernel. Components that live on a loop extend the record, and every
  operation here is polymorphic in the extension, so it applies to their states as it stands. A
  functor is a value of the type \<open>'f\<close>; what running it does is the argument \<open>run\<close>.

  Each operation runs in one thread. What other threads can do between the steps of the loop is
  the subject of the theory LoopThreads.
\<close>

section \<open>State\<close>

record 'f eventloop =
  el_looping :: bool
  el_quit :: bool
  el_threadId :: tid
  el_pollRetureTime :: timestamp
  el_poller :: epoller
  el_wakeupFd :: fd
  el_wakeupChannel :: channel
  el_activeChannels :: "chan_ptr list"
  el_callingPendingFunctors :: bool
  el_pendingFunctors :: "'f list"

record ('f, 'k) loop_st =
  st_tid :: tid
  st_self :: loop_id
  st_loop :: "'f eventloop"
  st_kern :: 'k

definition kPollTimeMs :: int where "kPollTimeMs = 10000"

definition isInLoopThread :: "('f, 'k, 'z) loop_st_scheme \<Rightarrow> bool" where
  "isInLoopThread s \<longleftrightarrow> el_threadId (st_loop s) = st_tid s"

section \<open>Wakeup and the queue of functors\<close>

text \<open>The eight bytes of \<open>uint64_t one = 1\<close>.\<close>

definition one_bytes :: "byte list" where "one_bytes = [1, 0, 0, 0, 0, 0, 0, 0]"

text \<open>A short or failed read or write of the eventfd is logged and ignored.\<close>

definition wakeup :: "'k sys \<Rightarrow> ('f, 'k, 'z) loop_st_scheme \<Rightarrow> ('f, 'k, 'z) loop_st_scheme" where
  "wakeup S s = s\<lparr>st_kern := snd (sys_write S (el_wakeupFd (st_loop s)) one_bytes (st_kern s))\<rparr>"

definition handleRead :: "'k sys \<Rightarrow> ('f, 'k, 'z) loop_st_scheme \<Rightarrow> ('f, 'k, 'z) loop_st_scheme" where
  "handleRead S s = s\<lparr>st_kern := snd (sys_read S (el_wakeupFd (st_loop s)) 8 (st_kern s))\<rparr>"

text \<open>The locked block of \<open>queueInLoop\<close>.\<close>

definition push_functor :: "'f \<Rightarrow> ('f, 'k, 'z) loop_st_scheme \<Rightarrow> ('f, 'k, 'z) loop_st_scheme" where
  "push_functor cb s =
     s\<lparr>st_loop := (st_loop s)\<lparr>el_pendingFunctors := el_pendingFunctors (st_loop s) @ [cb]\<rparr>\<rparr>"

definition queueInLoop ::
    "'k sys \<Rightarrow> 'f \<Rightarrow> ('f, 'k, 'z) loop_st_scheme \<Rightarrow> ('f, 'k, 'z) loop_st_scheme" where
  "queueInLoop S cb s =
     (let s = push_functor cb s in
      if \<not> isInLoopThread s \<or> el_callingPendingFunctors (st_loop s) then wakeup S s else s)"

definition runInLoop ::
    "'k sys \<Rightarrow> ('f \<Rightarrow> ('f, 'k, 'z) loop_st_scheme \<Rightarrow> error + ('f, 'k, 'z) loop_st_scheme) \<Rightarrow>
     'f \<Rightarrow> ('f, 'k, 'z) loop_st_scheme \<Rightarrow> error + ('f, 'k, 'z) loop_st_scheme" where
  "runInLoop S run cb s = (if isInLoopThread s then run cb s else Inr (queueInLoop S cb s))"

definition quit :: "'k sys \<Rightarrow> ('f, 'k, 'z) loop_st_scheme \<Rightarrow> ('f, 'k, 'z) loop_st_scheme" where
  "quit S s =
     (let s = s\<lparr>st_loop := (st_loop s)\<lparr>el_quit := True\<rparr>\<rparr> in
      if \<not> isInLoopThread s then wakeup S s else s)"

text \<open>
  \<open>doPendingFunctors\<close>: the queue is swapped out before the functors run, so what they queue is
  left for the next round.
\<close>

definition doPendingFunctors ::
    "('f \<Rightarrow> ('f, 'k, 'z) loop_st_scheme \<Rightarrow> error + ('f, 'k, 'z) loop_st_scheme) \<Rightarrow>
     ('f, 'k, 'z) loop_st_scheme \<Rightarrow> error + ('f, 'k, 'z) loop_st_scheme" where
  "doPendingFunctors run s =
     (let s = s\<lparr>st_loop := (st_loop s)\<lparr>el_callingPendingFunctors := True\<rparr>\<rparr>;
          functors = el_pendingFunctors (st_loop s);
          s = s\<lparr>st_loop := (st_loop s)\<lparr>el_pendingFunctors := []\<rparr>\<rparr>
      in bindE (foldE run functors s) (\<lambda>s.
         Inr (s\<lparr>st_loop := (st_loop s)\<lparr>el_callingPendingFunctors := False\<rparr>\<rparr>)))"

section \<open>Channels on the loop\<close>

text \<open>
  \<open>updateChannel\<close>, \<open>removeChannel\<close> and \<open>hasChannel\<close> forward to the poller. The channel
  at the address \<open>p\<close> is passed and returned; its owner stores it.
\<close>

definition updateChannel :: "'k sys \<Rightarrow> chan_ptr \<Rightarrow> channel \<Rightarrow> ('f, 'k, 'z) loop_st_scheme \<Rightarrow>
    error + (channel \<times> ('f, 'k, 'z) loop_st_scheme)" where
  "updateChannel S p ch s =
     bindE (poller_updateChannel S p ch (el_poller (st_loop s), st_kern s)) (\<lambda>(ch, po, k).
       Inr (ch, s\<lparr>st_loop := (st_loop s)\<lparr>el_poller := po\<rparr>, st_kern := k\<rparr>))"

definition removeChannel :: "'k sys \<Rightarrow> chan_ptr \<Rightarrow> channel \<Rightarrow> ('f, 'k, 'z) loop_st_scheme \<Rightarrow>
    error + (channel \<times> ('f, 'k, 'z) loop_st_scheme)" where
  "removeChannel S p ch s =
     bindE (poller_removeChannel S p ch (el_poller (st_loop s), st_kern s)) (\<lambda>(ch, po, k).
       Inr (ch, s\<lparr>st_loop := (st_loop s)\<lparr>el_poller := po\<rparr>, st_kern := k\<rparr>))"

definition loop_hasChannel :: "chan_ptr \<Rightarrow> channel \<Rightarrow> ('f, 'k, 'z) loop_st_scheme \<Rightarrow> bool" where
  "loop_hasChannel p ch s = hasChannel p ch (el_poller (st_loop s))"

definition enableReading :: "'k sys \<Rightarrow> chan_ptr \<Rightarrow> channel \<Rightarrow> ('f, 'k, 'z) loop_st_scheme \<Rightarrow>
    error + (channel \<times> ('f, 'k, 'z) loop_st_scheme)" where
  "enableReading S p ch s = updateChannel S p (ch\<lparr>ch_events := ch_events ch OR kReadEvent\<rparr>) s"

definition disableReading :: "'k sys \<Rightarrow> chan_ptr \<Rightarrow> channel \<Rightarrow> ('f, 'k, 'z) loop_st_scheme \<Rightarrow>
    error + (channel \<times> ('f, 'k, 'z) loop_st_scheme)" where
  "disableReading S p ch s = updateChannel S p (ch\<lparr>ch_events := ch_events ch AND NOT kReadEvent\<rparr>) s"

definition enableWriting :: "'k sys \<Rightarrow> chan_ptr \<Rightarrow> channel \<Rightarrow> ('f, 'k, 'z) loop_st_scheme \<Rightarrow>
    error + (channel \<times> ('f, 'k, 'z) loop_st_scheme)" where
  "enableWriting S p ch s = updateChannel S p (ch\<lparr>ch_events := ch_events ch OR kWriteEvent\<rparr>) s"

definition disableWriting :: "'k sys \<Rightarrow> chan_ptr \<Rightarrow> channel \<Rightarrow> ('f, 'k, 'z) loop_st_scheme \<Rightarrow>
    error + (channel \<times> ('f, 'k, 'z) loop_st_scheme)" where
  "disableWriting S p ch s = updateChannel S p (ch\<lparr>ch_events := ch_events ch AND NOT kWriteEvent\<rparr>) s"

definition disableAll :: "'k sys \<Rightarrow> chan_ptr \<Rightarrow> channel \<Rightarrow> ('f, 'k, 'z) loop_st_scheme \<Rightarrow>
    error + (channel \<times> ('f, 'k, 'z) loop_st_scheme)" where
  "disableAll S p ch s = updateChannel S p (ch\<lparr>ch_events := kNoneEvent\<rparr>) s"

lemmas channel_op_defs = enableReading_def disableReading_def enableWriting_def disableWriting_def
  disableAll_def

section \<open>The loop\<close>

text \<open>
  The address of a channel leads to the channel: \<open>with_channel p f\<close> updates it by \<open>f\<close>, and
  \<open>handle p t\<close> is \<open>handleEvent(t)\<close> of it. Both are arguments, because the channels of
  connections and of the acceptor live outside the loop.
\<close>

definition loop_poll ::
    "'k sys \<Rightarrow> (chan_ptr \<Rightarrow> (channel \<Rightarrow> channel) \<Rightarrow> ('f, 'k, 'z) loop_st_scheme \<Rightarrow> ('f, 'k, 'z) loop_st_scheme) \<Rightarrow>
     ('f, 'k, 'z) loop_st_scheme \<Rightarrow> ('f, 'k, 'z) loop_st_scheme" where
  "loop_poll S with_channel s =
     (let (now, evs, po, k) = poll S kPollTimeMs (el_poller (st_loop s)) (st_kern s);
          s = s\<lparr>st_loop := (st_loop s)\<lparr>el_poller := po\<rparr>, st_kern := k\<rparr>;
          (ps, s) = fillActiveChannels with_channel evs s
      in s\<lparr>st_loop := (st_loop s)\<lparr>el_activeChannels := ps, el_pollRetureTime := now\<rparr>\<rparr>)"

definition loop_round ::
    "'k sys \<Rightarrow> (chan_ptr \<Rightarrow> (channel \<Rightarrow> channel) \<Rightarrow> ('f, 'k, 'z) loop_st_scheme \<Rightarrow> ('f, 'k, 'z) loop_st_scheme) \<Rightarrow>
     (chan_ptr \<Rightarrow> timestamp \<Rightarrow> ('f, 'k, 'z) loop_st_scheme \<Rightarrow> error + ('f, 'k, 'z) loop_st_scheme) \<Rightarrow>
     ('f \<Rightarrow> ('f, 'k, 'z) loop_st_scheme \<Rightarrow> error + ('f, 'k, 'z) loop_st_scheme) \<Rightarrow>
     ('f, 'k, 'z) loop_st_scheme \<Rightarrow> error + ('f, 'k, 'z) loop_st_scheme" where
  "loop_round S with_channel handle run s =
     (let s = loop_poll S with_channel s in
      bindE (foldE (\<lambda>p s. handle p (el_pollRetureTime (st_loop s)) s) (el_activeChannels (st_loop s)) s)
        (doPendingFunctors run))"

text \<open>\<open>None\<close>: the loop runs for ever.\<close>

partial_function (option) loop_while ::
    "(('f, 'k, 'z) loop_st_scheme \<Rightarrow> error + ('f, 'k, 'z) loop_st_scheme) \<Rightarrow>
     ('f, 'k, 'z) loop_st_scheme \<Rightarrow> (error + ('f, 'k, 'z) loop_st_scheme) option" where
  "loop_while round s =
     (if el_quit (st_loop s) then Some (Inr s)
      else case round s of Inl e \<Rightarrow> Some (Inl e) | Inr s' \<Rightarrow> loop_while round s')"

definition loop ::
    "(('f, 'k, 'z) loop_st_scheme \<Rightarrow> error + ('f, 'k, 'z) loop_st_scheme) \<Rightarrow>
     ('f, 'k, 'z) loop_st_scheme \<Rightarrow> (error + ('f, 'k, 'z) loop_st_scheme) option" where
  "loop round s =
     (let s = s\<lparr>st_loop := (st_loop s)\<lparr>el_looping := True, el_quit := False\<rparr>\<rparr> in
      map_option (\<lambda>r. bindE r (\<lambda>s. Inr (s\<lparr>st_loop := (st_loop s)\<lparr>el_looping := False\<rparr>\<rparr>)))
        (loop_while round s))"

section \<open>Construction and destruction\<close>

text \<open>
  \<open>slot\<close> is the thread-local \<open>t_loopInThisThread\<close>; \<open>use_poll\<close> says whether \<open>MUDUO_USE_POLL\<close> is
  set, in which case the poller is a null pointer.
\<close>

definition createEventfd :: "'k sys \<Rightarrow> 'k \<Rightarrow> error + (fd \<times> 'k)" where
  "createEventfd S k = (case sys_eventfd S k of (Done f, k) \<Rightarrow> Inr (f, k) | (Fail e, k) \<Rightarrow> Inl FatalExit)"

definition EventLoop_members :: "loop_id \<Rightarrow> tid \<Rightarrow> epoller \<Rightarrow> fd \<Rightarrow> 'k \<Rightarrow> ('f, 'k) loop_st" where
  "EventLoop_members self tid po wakeupFd k = \<lparr>st_tid = tid, st_self = self,
     st_loop = \<lparr>el_looping = False, el_quit = False, el_threadId = tid,
       el_pollRetureTime = Timestamp_default, el_poller = po, el_wakeupFd = wakeupFd,
       el_wakeupChannel = Channel_init wakeupFd, el_activeChannels = [],
       el_callingPendingFunctors = False, el_pendingFunctors = []\<rparr>,
     st_kern = k\<rparr>"

definition EventLoop_init :: "'k sys \<Rightarrow> loop_id \<Rightarrow> tid \<Rightarrow> bool \<Rightarrow> loop_id option \<Rightarrow> 'k \<Rightarrow>
    error + (('f, 'k) loop_st \<times> loop_id option)" where
  "EventLoop_init S self tid use_poll slot k =
     bindE (newDefaultPoller S use_poll k) (\<lambda>(new, k).
     bindE (createEventfd S k) (\<lambda>(wakeupFd, k).
     if slot \<noteq> None then Inl FatalExit
     else case new of None \<Rightarrow> Inl NullPointer | Some po \<Rightarrow>
       bindE (enableReading S (WakeupChannelOf self) (Channel_init wakeupFd)
                (EventLoop_members self tid po wakeupFd k)) (\<lambda>(ch, s).
       Inr (s\<lparr>st_loop := (st_loop s)\<lparr>el_wakeupChannel := ch\<rparr>\<rparr>, Some self))))"

definition EventLoop_destroy :: "'k sys \<Rightarrow> ('f, 'k, 'z) loop_st_scheme \<Rightarrow>
    error + (loop_id option \<times> 'k)" where
  "EventLoop_destroy S s =
     bindE (disableAll S (WakeupChannelOf (st_self s)) (el_wakeupChannel (st_loop s)) s) (\<lambda>(ch, s).
     bindE (removeChannel S (WakeupChannelOf (st_self s)) ch s) (\<lambda>(ch, s).
     Inr (None, EPollPoller_destroy S (el_poller (st_loop s))
       (snd (sys_close S (el_wakeupFd (st_loop s)) (st_kern s))))))"

text \<open>The wakeup channel: its only callback reads the eventfd.\<close>

definition wakeup_callbacks :: "'k sys \<Rightarrow> ('f, 'k, 'z) loop_st_scheme channel_callbacks" where
  "wakeup_callbacks S = \<lparr>readCallback = Some (\<lambda>t s. Inr (handleRead S s)), writeCallback = None,
     closeCallback = None, errorCallback = None\<rparr>"

definition handle_wakeup :: "'k sys \<Rightarrow> timestamp \<Rightarrow> ('f, 'k, 'z) loop_st_scheme \<Rightarrow>
    error + ('f, 'k, 'z) loop_st_scheme" where
  "handle_wakeup S = handleEvent (\<lambda>_ _. True) (\<lambda>s. el_wakeupChannel (st_loop s)) (wakeup_callbacks S)"

section \<open>Lemmas: what the operations leave alone\<close>

lemma wakeup_simps [simp]:
  "st_tid (wakeup S s) = st_tid s" "st_self (wakeup S s) = st_self s"
  "st_loop (wakeup S s) = st_loop s" "loop_st.more (wakeup S s) = loop_st.more s"
  by (simp_all add: wakeup_def)

lemma push_functor_simps [simp]:
  "st_tid (push_functor cb s) = st_tid s" "st_self (push_functor cb s) = st_self s"
  "st_kern (push_functor cb s) = st_kern s" "loop_st.more (push_functor cb s) = loop_st.more s"
  "el_pendingFunctors (st_loop (push_functor cb s)) = el_pendingFunctors (st_loop s) @ [cb]"
  "el_callingPendingFunctors (st_loop (push_functor cb s)) = el_callingPendingFunctors (st_loop s)"
  "el_threadId (st_loop (push_functor cb s)) = el_threadId (st_loop s)"
  "el_poller (st_loop (push_functor cb s)) = el_poller (st_loop s)"
  "el_wakeupFd (st_loop (push_functor cb s)) = el_wakeupFd (st_loop s)"
  "el_wakeupChannel (st_loop (push_functor cb s)) = el_wakeupChannel (st_loop s)"
  "el_quit (st_loop (push_functor cb s)) = el_quit (st_loop s)"
  "el_looping (st_loop (push_functor cb s)) = el_looping (st_loop s)"
  by (simp_all add: push_functor_def)

lemma isInLoopThread_push [simp]: "isInLoopThread (push_functor cb s) = isInLoopThread s"
  by (simp add: isInLoopThread_def)

lemma isInLoopThread_wakeup [simp]: "isInLoopThread (wakeup S s) = isInLoopThread s"
  by (simp add: isInLoopThread_def)

lemma queueInLoop_loop: "st_loop (queueInLoop S cb s) = st_loop (push_functor cb s)"
  by (simp add: queueInLoop_def Let_def)

lemma queueInLoop_simps [simp]:
  "st_tid (queueInLoop S cb s) = st_tid s" "st_self (queueInLoop S cb s) = st_self s"
  "loop_st.more (queueInLoop S cb s) = loop_st.more s"
  "el_pendingFunctors (st_loop (queueInLoop S cb s)) = el_pendingFunctors (st_loop s) @ [cb]"
  "el_callingPendingFunctors (st_loop (queueInLoop S cb s)) = el_callingPendingFunctors (st_loop s)"
  "el_threadId (st_loop (queueInLoop S cb s)) = el_threadId (st_loop s)"
  "el_poller (st_loop (queueInLoop S cb s)) = el_poller (st_loop s)"
  "el_wakeupFd (st_loop (queueInLoop S cb s)) = el_wakeupFd (st_loop s)"
  "el_wakeupChannel (st_loop (queueInLoop S cb s)) = el_wakeupChannel (st_loop s)"
  "el_quit (st_loop (queueInLoop S cb s)) = el_quit (st_loop s)"
  "el_looping (st_loop (queueInLoop S cb s)) = el_looping (st_loop s)"
  by (simp_all add: queueInLoop_def Let_def)

lemma isInLoopThread_queue [simp]: "isInLoopThread (queueInLoop S cb s) = isInLoopThread s"
  by (simp add: isInLoopThread_def)

lemma queueInLoop_kern: "st_kern (queueInLoop S cb s) =
    (if \<not> isInLoopThread s \<or> el_callingPendingFunctors (st_loop s)
     then snd (sys_write S (el_wakeupFd (st_loop s)) one_bytes (st_kern s)) else st_kern s)"
  by (simp add: queueInLoop_def Let_def wakeup_def)

section \<open>The queue as an interface\<close>

text \<open>
  What the users of a loop rely on: \<open>enq\<close> appends, and \<open>drain\<close> runs what was queued when it began.
  \<open>log\<close> is the part of the state in which the functors leave their marks.
\<close>

locale work_queue =
  fixes enq :: "'f \<Rightarrow> 's \<Rightarrow> 's"
    and drain :: "('f \<Rightarrow> 's \<Rightarrow> error + 's) \<Rightarrow> 's \<Rightarrow> error + 's"
    and pending :: "'s \<Rightarrow> 'f list"
    and start :: "'s \<Rightarrow> 's" and finish :: "'s \<Rightarrow> 's"
    and log :: "'s \<Rightarrow> 'z"
  assumes enq: "pending (enq f s) = pending s @ [f]" "log (enq f s) = log s"
    and start: "pending (start s) = []" "log (start s) = log s"
    and finish: "pending (finish s) = pending s" "log (finish s) = log s"
    and drain: "drain run s = bindE (foldE run (pending s) (start s)) (\<lambda>s. Inr (finish s))"

text \<open>\<open>marks run kids mark\<close>: running \<open>f\<close> leaves the mark of \<open>f\<close> and queues \<open>kids f\<close>.\<close>

definition marks :: "('s \<Rightarrow> 'f list) \<Rightarrow> ('s \<Rightarrow> 'z) \<Rightarrow> ('f \<Rightarrow> 's \<Rightarrow> error + 's) \<Rightarrow>
    ('f \<Rightarrow> 'f list) \<Rightarrow> ('f \<Rightarrow> 'z \<Rightarrow> 'z) \<Rightarrow> bool" where
  "marks pending log run kids mark \<longleftrightarrow> (\<forall>f s. \<exists>s'. run f s = Inr s' \<and>
     pending s' = pending s @ kids f \<and> log s' = mark f (log s))"

fun rounds :: "('s \<Rightarrow> error + 's) \<Rightarrow> nat \<Rightarrow> 's \<Rightarrow> error + 's" where
  "rounds round 0 s = Inr s"
| "rounds round (Suc n) s = bindE (round s) (rounds round n)"

text \<open>The generations of functors: \<open>gen kids i fs\<close> is what the \<open>i\<close>-th round runs.\<close>

fun gen :: "('f \<Rightarrow> 'f list) \<Rightarrow> nat \<Rightarrow> 'f list \<Rightarrow> 'f list" where
  "gen kids 0 fs = fs"
| "gen kids (Suc i) fs = gen kids i (concat (map kids fs))"

fun generations :: "('f \<Rightarrow> 'f list) \<Rightarrow> nat \<Rightarrow> 'f list \<Rightarrow> 'f list" where
  "generations kids 0 fs = []"
| "generations kids (Suc n) fs = fs @ generations kids n (concat (map kids fs))"

context work_queue
begin

lemma fold_marks:
  assumes "marks pending log run kids mark"
  shows "\<exists>s'. foldE run fs s = Inr s' \<and> pending s' = pending s @ concat (map kids fs) \<and>
    log s' = fold mark fs (log s)"
proof (induction fs arbitrary: s)
  case (Cons f fs)
  obtain s1 where 1: "run f s = Inr s1" "pending s1 = pending s @ kids f" "log s1 = mark f (log s)"
    using assms unfolding marks_def by blast
  with Cons [of s1] show ?case by auto
qed simp

lemma drain_marks:
  assumes "marks pending log run kids mark"
  shows "\<exists>s'. drain run s = Inr s' \<and> pending s' = concat (map kids (pending s)) \<and>
    log s' = fold mark (pending s) (log s)"
proof -
  obtain s' where "foldE run (pending s) (start s) = Inr s'"
      "pending s' = pending (start s) @ concat (map kids (pending s))"
      "log s' = fold mark (pending s) (log (start s))"
    using fold_marks [OF assms, of "pending s" "start s"] by blast
  then show ?thesis
    by (simp add: drain start finish)
qed

lemma rounds_marks:
  assumes "marks pending log run kids mark"
  shows "\<exists>s'. rounds (drain run) n s = Inr s' \<and> pending s' = gen kids n (pending s) \<and>
    log s' = fold mark (generations kids n (pending s)) (log s)"
proof (induction n arbitrary: s)
  case (Suc n)
  obtain s1 where 1: "drain run s = Inr s1" "pending s1 = concat (map kids (pending s))"
      "log s1 = fold mark (pending s) (log s)"
    using drain_marks [OF assms, of s] by blast
  with Suc [of s1] show ?case by simp
qed simp

end

text \<open>The loop's queue is one.\<close>

definition swap_begin :: "('f, 'k, 'z) loop_st_scheme \<Rightarrow> ('f, 'k, 'z) loop_st_scheme" where
  "swap_begin s = s\<lparr>st_loop := (st_loop s)\<lparr>el_callingPendingFunctors := True, el_pendingFunctors := []\<rparr>\<rparr>"

definition drain_end :: "('f, 'k, 'z) loop_st_scheme \<Rightarrow> ('f, 'k, 'z) loop_st_scheme" where
  "drain_end s = s\<lparr>st_loop := (st_loop s)\<lparr>el_callingPendingFunctors := False\<rparr>\<rparr>"

lemma doPendingFunctors_eq: "doPendingFunctors run s =
    bindE (foldE run (el_pendingFunctors (st_loop s)) (swap_begin s)) (\<lambda>s. Inr (drain_end s))"
  by (simp add: doPendingFunctors_def swap_begin_def drain_end_def Let_def)

interpretation loop_queue: work_queue "queueInLoop S" doPendingFunctors
  "\<lambda>s. el_pendingFunctors (st_loop s)" swap_begin drain_end loop_st.more
  for S :: "'k sys"
  by unfold_locales (simp_all add: doPendingFunctors_eq swap_begin_def drain_end_def)

section \<open>Lemmas: channels and the loop's poller\<close>

abbreviation st_poller :: "('f, 'k, 'z) loop_st_scheme \<Rightarrow> epoller \<times> 'k" where
  "st_poller s \<equiv> (el_poller (st_loop s), st_kern s)"

text \<open>The state with the poller and the kernel replaced: what a channel operation changes.\<close>

definition with_poller :: "epoller \<times> 'k \<Rightarrow> ('f, 'k, 'z) loop_st_scheme \<Rightarrow> ('f, 'k, 'z) loop_st_scheme" where
  "with_poller q s = s\<lparr>st_loop := (st_loop s)\<lparr>el_poller := fst q\<rparr>, st_kern := snd q\<rparr>"

lemma with_poller_simps [simp]:
  "st_poller (with_poller q s) = q"
  "el_poller (st_loop (with_poller q s)) = fst q" "st_kern (with_poller q s) = snd q"
  "st_tid (with_poller q s) = st_tid s" "st_self (with_poller q s) = st_self s"
  "loop_st.more (with_poller q s) = loop_st.more s"
  "el_pendingFunctors (st_loop (with_poller q s)) = el_pendingFunctors (st_loop s)"
  "el_callingPendingFunctors (st_loop (with_poller q s)) = el_callingPendingFunctors (st_loop s)"
  "el_threadId (st_loop (with_poller q s)) = el_threadId (st_loop s)"
  "el_wakeupFd (st_loop (with_poller q s)) = el_wakeupFd (st_loop s)"
  "el_wakeupChannel (st_loop (with_poller q s)) = el_wakeupChannel (st_loop s)"
  "el_quit (st_loop (with_poller q s)) = el_quit (st_loop s)"
  "el_looping (st_loop (with_poller q s)) = el_looping (st_loop s)"
  by (simp_all add: with_poller_def)

lemma isInLoopThread_with_poller [simp]: "isInLoopThread (with_poller q s) = isInLoopThread s"
  by (simp add: isInLoopThread_def)

lemma updateChannel_eq: "updateChannel S p ch s =
    bindE (poller_updateChannel S p ch (st_poller s)) (\<lambda>(ch, q). Inr (ch, with_poller q s))"
  by (simp add: updateChannel_def with_poller_def case_prod_unfold)

lemma removeChannel_eq: "removeChannel S p ch s =
    bindE (poller_removeChannel S p ch (st_poller s)) (\<lambda>(ch, q). Inr (ch, with_poller q s))"
  by (simp add: removeChannel_def with_poller_def case_prod_unfold)

lemma updateChannel_st:
  assumes "epoll_ctl_doc S V" and "known V (st_poller s) p ch"
  shows "holdsE (\<lambda>e. e = FatalExit)
     (\<lambda>(ch', s'). \<exists>q. s' = with_poller q s \<and> ch' = set_index (next_index ch) ch \<and>
        in_sync V q p ch' \<and> same_but V (ch_fd ch) (st_poller s) q)
     (updateChannel S p ch s)"
  unfolding updateChannel_eq
  by (rule holdsE_bind [OF updateChannel_ok [OF assms]]) (clarsimp, blast)

lemma removeChannel_st:
  assumes "epoll_ctl_doc S V" and "known V (st_poller s) p ch"
  shows "\<exists>q. removeChannel S p ch s = Inr (set_index kNew ch, with_poller q s) \<and>
     known V q p (set_index kNew ch) \<and> interest V q (ch_fd ch) = None \<and>
     same_but V (ch_fd ch) (st_poller s) q"
  using removeChannel_ok [OF assms] by (clarsimp simp: removeChannel_eq) blast

section \<open>Lemmas: the loop ends when a round sets quit\<close>

lemma loop_while_Some:
  "(case rounds round n s of Inl e \<Rightarrow> True | Inr s' \<Rightarrow> el_quit (st_loop s')) \<Longrightarrow>
   loop_while round s \<noteq> None"
proof (induction n arbitrary: s)
  case 0
  then show ?case by (simp add: loop_while.simps)
next
  case (Suc n)
  show ?case
  proof (cases "el_quit (st_loop s)")
    case False
    show ?thesis
    proof (cases "round s")
      case (Inr s1)
      then have "loop_while round s1 \<noteq> None" using Suc by simp
      then show ?thesis using False Inr by (simp add: loop_while.simps [of round s])
    qed (use False in \<open>simp add: loop_while.simps [of round s]\<close>)
  qed (simp add: loop_while.simps)
qed

lemma loop_while_result:
  "loop_while round s = Some r \<Longrightarrow>
   \<exists>n. r = rounds round n s \<and> (\<forall>s'. r = Inr s' \<longrightarrow> el_quit (st_loop s')) \<and>
     (\<forall>m<n. \<exists>sm. rounds round m s = Inr sm \<and> \<not> el_quit (st_loop sm))"
proof (induction round s r rule: loop_while.raw_induct [rotated, consumes 1, case_names step])
  case (step loop_while' round s r)
  show ?case
  proof (cases "el_quit (st_loop s)")
    case True
    with step(2) show ?thesis by (intro exI [of _ 0]) auto
  next
    case False
    show ?thesis
    proof (cases "round s")
      case (Inl e)
      with step(2) False show ?thesis by (intro exI [of _ "Suc 0"]) auto
    next
      case (Inr s1)
      with step(2) False have "loop_while' round s1 = Some r" by simp
      from step(1) [OF this] obtain n where n: "r = rounds round n s1"
          "\<forall>s'. r = Inr s' \<longrightarrow> el_quit (st_loop s')"
          "\<forall>m<n. \<exists>sm. rounds round m s1 = Inr sm \<and> \<not> el_quit (st_loop sm)"
        by blast
      have "\<exists>sm. rounds round m s = Inr sm \<and> \<not> el_quit (st_loop sm)" if "m < Suc n" for m
        using that n(3) Inr False by (cases m) auto
      with n Inr show ?thesis by (intro exI [of _ "Suc n"]) auto
    qed
  qed
qed

section \<open>Properties\<close>

text \<open>C19: Every queued functor runs exactly once, in the order of queueing, and what a running
  functor queues waits for the next round. For functors that leave a mark and queue others
  (\<open>kids\<close>), \<open>n\<close> rounds of \<open>doPendingFunctors\<close> leave the marks of the first \<open>n\<close>
  generations, in order, and the next generation is what is queued then.\<close>

theorem functors_run_once_in_order:
  assumes "marks (\<lambda>s. el_pendingFunctors (st_loop s)) loop_st.more run kids mark"
  shows "\<exists>s'. rounds (doPendingFunctors run) n s = Inr s' \<and>
    el_pendingFunctors (st_loop s') = gen kids n (el_pendingFunctors (st_loop s)) \<and>
    loop_st.more s' = fold mark (generations kids n (el_pendingFunctors (st_loop s))) (loop_st.more s)"
  using assms by (rule loop_queue.rounds_marks)

text \<open>The loop object used by the witnesses, and a functor that is a number and queues its
  predecessor.\<close>

definition sample_loop :: "'f list \<Rightarrow> 'f eventloop" where
  "sample_loop fs = \<lparr>el_looping = False, el_quit = False, el_threadId = 100,
     el_pollRetureTime = Timestamp_default,
     el_poller = \<lparr>ep_channels = Map.empty, ep_epollfd = 3, ep_events_size = 16\<rparr>, el_wakeupFd = 4,
     el_wakeupChannel = Channel_init 4, el_activeChannels = [], el_callingPendingFunctors = False,
     el_pendingFunctors = fs\<rparr>"

definition sample_kids :: "nat \<Rightarrow> nat list" where
  "sample_kids n = (if n = 0 then [] else [n - 1])"

definition sample_run :: "nat \<Rightarrow> (nat, sim, nat list) loop_st_scheme \<Rightarrow>
    error + (nat, sim, nat list) loop_st_scheme" where
  "sample_run f s = Inr (fold (queueInLoop sim_sys) (sample_kids f)
     (loop_st.extend (loop_st.truncate s) (loop_st.more s @ [f])))"

theorem functors_run_once_in_order_witness:
  "\<exists>s'. rounds (doPendingFunctors sample_run) 2
      \<lparr>st_tid = 100, st_self = 0, st_loop = sample_loop [2, 1], st_kern = sim_init, \<dots> = []\<rparr> = Inr s' \<and>
    el_pendingFunctors (st_loop s') = [0] \<and> loop_st.more s' = [2, 1, 1, 0]"
proof -
  have "marks (\<lambda>s. el_pendingFunctors (st_loop s)) loop_st.more sample_run sample_kids
      (\<lambda>f l. l @ [f])"
    by (auto simp: marks_def sample_run_def sample_kids_def loop_st.defs)
  from functors_run_once_in_order [OF this, of 2
      "\<lparr>st_tid = 100, st_self = 0, st_loop = sample_loop [2, 1], st_kern = sim_init, \<dots> = []\<rparr>"]
  show ?thesis
    by (simp add: sample_loop_def sample_kids_def numeral_2_eq_2)
qed

text \<open>C23: When \<open>loop()\<close> returns, and with what. It returns exactly when some round sets \<open>quit_\<close> or
  fails; then it has run the rounds up to that one and no more, and \<open>looping_\<close> is false again.\<close>

theorem loop_returns:
  "(loop round s \<noteq> None \<longleftrightarrow> (\<exists>n. case rounds round n
        (s\<lparr>st_loop := (st_loop s)\<lparr>el_looping := True, el_quit := False\<rparr>\<rparr>) of
      Inl e \<Rightarrow> True | Inr s' \<Rightarrow> el_quit (st_loop s'))) \<and>
   (\<forall>s'. loop round s = Some (Inr s') \<longrightarrow> (\<exists>n s1. rounds round n
        (s\<lparr>st_loop := (st_loop s)\<lparr>el_looping := True, el_quit := False\<rparr>\<rparr>) = Inr s1 \<and>
      el_quit (st_loop s1) \<and> s' = s1\<lparr>st_loop := (st_loop s1)\<lparr>el_looping := False\<rparr>\<rparr> \<and>
      (\<forall>m<n. \<exists>sm. rounds round m
          (s\<lparr>st_loop := (st_loop s)\<lparr>el_looping := True, el_quit := False\<rparr>\<rparr>) = Inr sm \<and>
        \<not> el_quit (st_loop sm))))"
proof -
  let ?s = "s\<lparr>st_loop := (st_loop s)\<lparr>el_looping := True, el_quit := False\<rparr>\<rparr>"
  have 1: "\<exists>n. case rounds round n ?s of Inl e \<Rightarrow> True | Inr s' \<Rightarrow> el_quit (st_loop s')"
    if r: "loop_while round ?s = Some r" for r
  proof -
    obtain n where "r = rounds round n ?s" "\<forall>s'. r = Inr s' \<longrightarrow> el_quit (st_loop s')"
      using loop_while_result [OF r] by blast
    then show ?thesis by (intro exI [of _ n]) (auto split: sum.splits)
  qed
  have 2: "loop round s = map_option (\<lambda>r. bindE r (\<lambda>s. Inr (s\<lparr>st_loop := (st_loop s)\<lparr>el_looping := False\<rparr>\<rparr>)))
      (loop_while round ?s)"
    by (simp add: loop_def Let_def)
  have 3: "\<exists>n s1. rounds round n ?s = Inr s1 \<and> el_quit (st_loop s1) \<and>
      s' = s1\<lparr>st_loop := (st_loop s1)\<lparr>el_looping := False\<rparr>\<rparr> \<and>
      (\<forall>m<n. \<exists>sm. rounds round m ?s = Inr sm \<and> \<not> el_quit (st_loop sm))"
    if l: "loop round s = Some (Inr s')" for s'
  proof -
    obtain s1 where s1: "loop_while round ?s = Some (Inr s1)"
        "s' = s1\<lparr>st_loop := (st_loop s1)\<lparr>el_looping := False\<rparr>\<rparr>"
      using l by (auto simp: 2)
    from loop_while_result [OF s1(1)] s1(2) show ?thesis by metis
  qed
  show ?thesis
  proof (intro conjI iffI allI impI)
    assume "loop round s \<noteq> None"
    then obtain r where "loop_while round ?s = Some r" by (auto simp: 2)
    then show "\<exists>n. case rounds round n ?s of Inl e \<Rightarrow> True | Inr s' \<Rightarrow> el_quit (st_loop s')"
      by (rule 1)
  next
    assume "\<exists>n. case rounds round n ?s of Inl e \<Rightarrow> True | Inr s' \<Rightarrow> el_quit (st_loop s')"
    then obtain n where "case rounds round n ?s of Inl e \<Rightarrow> True | Inr s' \<Rightarrow> el_quit (st_loop s')"
      by blast
    then show "loop round s \<noteq> None" using loop_while_Some [of round n ?s] by (simp add: 2)
  qed (rule 3)
qed

theorem loop_returns_witness:
  "loop (\<lambda>s. Inr (quit sim_sys s))
     \<lparr>st_tid = 100, st_self = 0, st_loop = sample_loop ([] :: nat list), st_kern = sim_init\<rparr> \<noteq> None"
  unfolding loop_returns [THEN conjunct1]
  by (rule exI [of _ 1]) (simp add: quit_def Let_def sample_loop_def isInLoopThread_def)

section \<open>Lemmas: construction and destruction\<close>

lemma EPollPoller_init_ok:
  assumes "epoll_create_doc S V"
  shows "holdsE (\<lambda>e. e = FatalExit)
     (\<lambda>(po, k). ep_channels po = Map.empty \<and> v_reg V k (ep_epollfd po) = Map.empty)
     (EPollPoller_init S k)"
proof -
  obtain r k1 where c: "sys_epoll_create S k = (r, k1)" by fastforce
  show ?thesis
    using assms [unfolded epoll_create_doc_def, rule_format, OF c] c
    by (auto simp: EPollPoller_init_def split: io.splits)
qed

text \<open>The state the constructor has built before it registers the wakeup channel.\<close>

definition fresh_loop :: "'k view \<Rightarrow> loop_id \<Rightarrow> fd \<Rightarrow> ('f, 'k) loop_st \<Rightarrow> bool" where
  "fresh_loop V self f s \<longleftrightarrow> st_self s = self \<and> isInLoopThread s \<and>
     el_pendingFunctors (st_loop s) = [] \<and> \<not> el_looping (st_loop s) \<and> \<not> el_quit (st_loop s) \<and>
     el_wakeupFd (st_loop s) = f"

lemma enable_wakeup_ok:
  assumes "epoll_ctl_doc S V" and s: "fresh_loop V self f s"
    and fresh: "ep_channels (el_poller (st_loop s)) = Map.empty"
      "v_reg V (st_kern s) (ep_epollfd (el_poller (st_loop s))) = Map.empty"
  shows "holdsE (\<lambda>e. e = FatalExit)
     (\<lambda>(ch, s). fresh_loop V self f s \<and> ch_fd ch = f \<and> ch_index ch = kAdded \<and>
        known V (st_poller s) (WakeupChannelOf self) ch \<and>
        interest V (st_poller s) f = Some (kReadEvent, WakeupChannelOf self))
     (enableReading S (WakeupChannelOf self) (Channel_init f) s)"
proof -
  let ?ch = "Channel_init f\<lparr>ch_events := ch_events (Channel_init f) OR kReadEvent\<rparr>"
  have kn: "known V (st_poller s) (WakeupChannelOf self) ?ch"
    using fresh by (simp only: known_events known_new) (simp add: interest_def)
  show ?thesis
    unfolding enableReading_def
    by (rule holdsE_mono [OF updateChannel_st [OF assms(1) kn]])
      (use s in \<open>auto simp: fresh_loop_def in_sync_def known_def next_index_def set_index_def
        Channel_init_def index_defs split: option.splits\<close>)
qed

text \<open>The state after it.\<close>

definition idle_loop :: "'k view \<Rightarrow> loop_id \<Rightarrow> ('f, 'k) loop_st \<Rightarrow> bool" where
  "idle_loop V self s \<longleftrightarrow> fresh_loop V self (el_wakeupFd (st_loop s)) s \<and>
     ch_fd (el_wakeupChannel (st_loop s)) = el_wakeupFd (st_loop s) \<and>
     ch_index (el_wakeupChannel (st_loop s)) = kAdded \<and>
     known V (st_poller s) (WakeupChannelOf self) (el_wakeupChannel (st_loop s)) \<and>
     interest V (st_poller s) (el_wakeupFd (st_loop s)) = Some (kReadEvent, WakeupChannelOf self)"

lemma EventLoop_init_ok:
  fixes S :: "'k sys"
  assumes docs: "epoll_ctl_doc S V" "epoll_create_doc S V" "passive_doc S V"
  shows "holdsE (\<lambda>e. e = FatalExit \<or> e = NullPointer)
     (\<lambda>(s :: ('f, 'k) loop_st, slot'). slot = None \<and> slot' = Some self \<and> idle_loop V self s)
     (EventLoop_init S self tid use_poll slot k)"
  unfolding EventLoop_init_def
proof (rule holdsE_bind)
  show "holdsE (\<lambda>e. e = FatalExit \<or> e = NullPointer)
      (\<lambda>(p, k). \<forall>po. p = Some po \<longrightarrow> ep_channels po = Map.empty \<and> v_reg V k (ep_epollfd po) = Map.empty)
      (newDefaultPoller S use_poll k)"
  proof (cases use_poll)
    case False
    have "holdsE (\<lambda>e. e = FatalExit \<or> e = NullPointer)
        (\<lambda>(po, k). ep_channels po = Map.empty \<and> v_reg V k (ep_epollfd po) = Map.empty)
        (EPollPoller_init S k)"
      by (rule holdsE_mono [OF EPollPoller_init_ok [OF docs(2)]]) auto
    then show ?thesis using False
      by (auto simp: newDefaultPoller_def intro: holdsE_bind)
  qed (simp add: newDefaultPoller_def)
next
  fix x :: "epoller option \<times> 'k"
  assume x: "case x of (p, k) \<Rightarrow> \<forall>po. p = Some po \<longrightarrow> ep_channels po = Map.empty \<and>
      v_reg V k (ep_epollfd po) = Map.empty"
  obtain p k1 r k2 where p: "x = (p, k1)" "sys_eventfd S k1 = (r, k2)" by fastforce
  have "same_view V k1 k2" using docs(3) p(2) unfolding passive_doc_def by (metis snd_conv)
  then have reg: "v_reg V k2 = v_reg V k1" by (simp add: same_view_def)
  show "holdsE (\<lambda>e. e = FatalExit \<or> e = NullPointer)
      (\<lambda>(s :: ('f, 'k) loop_st, slot'). slot = None \<and> slot' = Some self \<and> idle_loop V self s)
      (case x of (new, k) \<Rightarrow> bindE (createEventfd S k) (\<lambda>(wakeupFd, k).
         if slot \<noteq> None then Inl FatalExit
         else case new of None \<Rightarrow> Inl NullPointer | Some po \<Rightarrow>
           bindE (enableReading S (WakeupChannelOf self) (Channel_init wakeupFd)
                    (EventLoop_members self tid po wakeupFd k)) (\<lambda>(ch, s).
           Inr (s\<lparr>st_loop := (st_loop s)\<lparr>el_wakeupChannel := ch\<rparr>\<rparr>, Some self))))"
  proof (cases r)
    case (Done f)
    show ?thesis
    proof (cases "slot = None \<and> p \<noteq> None")
      case True
      then obtain po where po: "p = Some po" by blast
      let ?s = "EventLoop_members self tid po f k2 :: ('f, 'k) loop_st"
      have "fresh_loop V self f ?s"
        by (simp add: fresh_loop_def EventLoop_members_def isInLoopThread_def)
      moreover have "ep_channels (el_poller (st_loop ?s)) = Map.empty"
        "v_reg V (st_kern ?s) (ep_epollfd (el_poller (st_loop ?s))) = Map.empty"
        using x p(1) po reg by (simp_all add: EventLoop_members_def)
      ultimately have "holdsE (\<lambda>e. e = FatalExit)
          (\<lambda>(ch, s). fresh_loop V self f s \<and> ch_fd ch = f \<and> ch_index ch = kAdded \<and>
             known V (st_poller s) (WakeupChannelOf self) ch \<and>
             interest V (st_poller s) f = Some (kReadEvent, WakeupChannelOf self))
          (enableReading S (WakeupChannelOf self) (Channel_init f) ?s)"
        by (rule enable_wakeup_ok [OF docs(1)])
      then have "holdsE (\<lambda>e. e = FatalExit \<or> e = NullPointer)
          (\<lambda>(s, slot'). slot = None \<and> slot' = Some self \<and> idle_loop V self s)
          (bindE (enableReading S (WakeupChannelOf self) (Channel_init f) ?s) (\<lambda>(ch, s).
             Inr (s\<lparr>st_loop := (st_loop s)\<lparr>el_wakeupChannel := ch\<rparr>\<rparr>, Some self)))"
        using True by (cases "enableReading S (WakeupChannelOf self) (Channel_init f) ?s")
          (auto simp: idle_loop_def fresh_loop_def isInLoopThread_def)
      then show ?thesis using True by (simp add: p Done po createEventfd_def)
    qed (auto simp: p Done createEventfd_def)
  qed (simp add: p createEventfd_def)
qed

lemma close_gone:
  assumes "close_doc S V" and "v_reg V k ep g = None"
  shows "v_reg V (snd (sys_close S f k)) ep g = None"
proof -
  have "v_reg V (snd (sys_close S f k)) ep g \<in> {v_reg V k ep g, None}"
    using assms(1) unfolding close_doc_def by blast
  with assms(2) show ?thesis by simp
qed

text \<open>\<open>disableAll\<close> and then \<open>remove\<close>, as the destructors do, always succeeds.\<close>

lemma unwatch_ok:
  assumes doc: "epoll_ctl_doc S V" and kn: "known V (st_poller s) p ch" and added: "ch_index ch = kAdded"
  shows "\<exists>ch1 q1 ch2 q. disableAll S p ch s = Inr (ch1, with_poller q1 s) \<and>
    removeChannel S p ch1 (with_poller q1 s) = Inr (ch2, with_poller q s) \<and>
    interest V q (ch_fd ch) = None \<and> ep_channels (fst q) (ch_fd ch) = None \<and>
    ep_epollfd (fst q) = ep_epollfd (el_poller (st_loop s))"
proof -
  let ?ch = "ch\<lparr>ch_events := kNoneEvent\<rparr>"
  have kn': "known V (st_poller s) p ?ch" using kn by simp
  obtain ch1 s1 where u: "updateChannel S p ?ch s = Inr (ch1, s1)"
    using added poller_update_del [of S p ?ch "el_poller (st_loop s)" "st_kern s"]
    by (auto simp: updateChannel_eq poller_updateChannel_def index_defs isNoneEvent_def)
  obtain q where q: "s1 = with_poller q s" "ch1 = set_index (next_index ?ch) ?ch"
      "known V q p ch1" "same_but V (ch_fd ?ch) (st_poller s) q"
    using holdsED [OF updateChannel_st [OF doc kn'] u] by (auto simp: in_sync_def)
  have "known V (st_poller s1) p ch1" using q by simp
  from removeChannel_st [OF doc this] obtain q2 where q2:
      "removeChannel S p ch1 s1 = Inr (set_index kNew ch1, with_poller q2 s1)"
      "known V q2 p (set_index kNew ch1)"
      "interest V q2 (ch_fd ch1) = None" "same_but V (ch_fd ch1) (st_poller s1) q2"
    by blast
  have "with_poller q2 s1 = with_poller q2 s" by (simp add: q(1) with_poller_def)
  with u q q2 show ?thesis
    by (intro exI [of _ ch1] exI [of _ q] exI [of _ "set_index kNew ch1"] exI [of _ q2])
      (auto simp: disableAll_def same_but_def known_def index_defs)
qed

lemma EventLoop_destroy_ok:
  fixes s :: "('f, 'k) loop_st"
  assumes docs: "epoll_ctl_doc S V" "close_doc S V"
    and kn: "known V (st_poller s) (WakeupChannelOf (st_self s)) (el_wakeupChannel (st_loop s))"
    and added: "ch_index (el_wakeupChannel (st_loop s)) = kAdded"
  shows "\<exists>k'. EventLoop_destroy S s = Inr (None, k') \<and>
    v_reg V k' (ep_epollfd (el_poller (st_loop s))) (ch_fd (el_wakeupChannel (st_loop s))) = None"
proof -
  obtain ch1 q1 ch2 q where q:
      "disableAll S (WakeupChannelOf (st_self s)) (el_wakeupChannel (st_loop s)) s = Inr (ch1, with_poller q1 s)"
      "removeChannel S (WakeupChannelOf (st_self s)) ch1 (with_poller q1 s) = Inr (ch2, with_poller q s)"
      "interest V q (ch_fd (el_wakeupChannel (st_loop s))) = None"
      "ep_epollfd (fst q) = ep_epollfd (el_poller (st_loop s))"
    using unwatch_ok [OF docs(1) kn added] by blast
  let ?k = "snd (sys_close S (el_wakeupFd (st_loop s)) (snd q))"
  have "EventLoop_destroy S s = Inr (None, EPollPoller_destroy S (fst q) ?k)"
    using q by (simp add: EventLoop_destroy_def)
  moreover have "v_reg V (EPollPoller_destroy S (fst q) ?k) (ep_epollfd (el_poller (st_loop s)))
      (ch_fd (el_wakeupChannel (st_loop s))) = None"
    using q(3) unfolding EPollPoller_destroy_def interest_def q(4)
    by (intro close_gone [OF docs(2)])
  ultimately show ?thesis by simp
qed

text \<open>C24: The life of a loop. The constructor succeeds only in a thread that has no loop yet and
  then owns the thread's slot; the new loop is idle, belongs to the calling thread, and its
  eventfd is watched for reading through the wakeup channel. The destructor of such a loop always
  succeeds, clears the slot and leaves the eventfd unwatched.\<close>

theorem EventLoop_lifecycle:
  assumes "epoll_ctl_doc S V" and "epoll_create_doc S V" and "passive_doc S V" and "close_doc S V"
  shows "holdsE (\<lambda>e. e = FatalExit \<or> e = NullPointer)
     (\<lambda>(s, slot'). slot = None \<and> slot' = Some self \<and> idle_loop V self s \<and>
        (\<exists>k'. EventLoop_destroy S s = Inr (None, k') \<and>
           v_reg V k' (ep_epollfd (el_poller (st_loop s))) (el_wakeupFd (st_loop s)) = None))
     (EventLoop_init S self tid use_poll slot k)"
proof (rule holdsE_mono [OF EventLoop_init_ok [OF assms(1-3)]], simp, clarsimp)
  fix s
  assume s: "idle_loop V self s"
  then show "\<exists>k'. EventLoop_destroy S s = Inr (None, k') \<and>
      v_reg V k' (ep_epollfd (el_poller (st_loop s))) (el_wakeupFd (st_loop s)) = None"
    using EventLoop_destroy_ok [OF assms(1,4), of s] by (auto simp: idle_loop_def fresh_loop_def)
qed

theorem EventLoop_lifecycle_witness:
  "\<exists>(s :: (nat, sim) loop_st) k'. EventLoop_init sim_sys 0 100 False None sim_init = Inr (s, Some 0) \<and>
     EventLoop_destroy sim_sys s = Inr (None, k')"
proof -
  have "EventLoop_init sim_sys 0 100 False None sim_init \<noteq> (Inl e :: error + ((nat, sim) loop_st \<times> loop_id option))" for e
    by (simp add: EventLoop_init_def newDefaultPoller_def EPollPoller_init_def createEventfd_def
        sim_epoll_create_def sim_fresh_def enableReading_def updateChannel_def poller_updateChannel_def
        poller_update_def Channel_init_def index_defs EventLoop_members_def set_index_def)
  then obtain s :: "(nat, sim) loop_st" and slot' where
      "EventLoop_init sim_sys 0 100 False None sim_init = Inr (s, slot')"
    by (metis old.sum.exhaust surj_pair)
  with EventLoop_lifecycle [OF sim_epoll_ctl_doc sim_epoll_create_doc sim_passive_doc sim_close_doc,
      of None 0 100 False sim_init, where 'b = nat] show ?thesis by auto
qed

end
