(* ===== verification/LoopThreads.thy ===== *)
theory LoopThreads
  imports EventLoop
begin

text \<open>
  One event loop and the other threads of the process (src/EventLoop.cpp: \<open>loop\<close>, \<open>quit\<close>,
  \<open>queueInLoop\<close>, \<open>wakeup\<close>, \<open>handleRead\<close>, \<open>doPendingFunctors\<close>). A configuration is the state of the
  loop, where the loop's thread is in \<open>loop()\<close>, how many other threads have changed the queue
  or \<open>quit_\<close> and not yet written the eventfd, and how many of the waiting functors the loop's own
  thread queued before it called \<open>loop()\<close> (an observation: the code keeps no such number). The step relation interleaves the atomic pieces of
  the code: the locked block of \<open>queueInLoop\<close>, the store to \<open>quit_\<close>, the write of the eventfd, the
  swap of the queue. The pieces are the definitions of the theory EventLoop;
  \<open>queueInLoop_pieces\<close> and \<open>quit_pieces\<close> put them together again.

  \<open>cnt\<close> is the counter of the loop's eventfd in the kernel's state. The loop cannot stay blocked in
  \<open>epoll_wait\<close> while it is positive, because the constructor registered the eventfd for reading.
\<close>

section \<open>Configurations and steps\<close>

datatype 'f loop_pc =
    Outside
  | AtTop
  | InPoll
  | Dispatching "chan_ptr list"
  | Draining "'f list"
  | Finished

record ('f, 'k) conf =
  cf_st :: "('f, 'k) loop_st"
  cf_pc :: "'f loop_pc"
  cf_flight :: nat
  cf_early :: nat

datatype label = QuitLabel | EnterLabel | OtherLabel

text \<open>The wakeup channel is the only channel in this state; others are elsewhere.\<close>

definition with_wakeup :: "chan_ptr \<Rightarrow> (channel \<Rightarrow> channel) \<Rightarrow> ('f, 'k) loop_st \<Rightarrow> ('f, 'k) loop_st" where
  "with_wakeup p f s =
     (if p = WakeupChannelOf (st_self s)
      then s\<lparr>st_loop := (st_loop s)\<lparr>el_wakeupChannel := f (el_wakeupChannel (st_loop s))\<rparr>\<rparr> else s)"

definition set_quit :: "bool \<Rightarrow> ('f, 'k) loop_st \<Rightarrow> ('f, 'k) loop_st" where
  "set_quit b s = s\<lparr>st_loop := (st_loop s)\<lparr>el_quit := b\<rparr>\<rparr>"

definition set_looping :: "bool \<Rightarrow> ('f, 'k) loop_st \<Rightarrow> ('f, 'k) loop_st" where
  "set_looping b s = s\<lparr>st_loop := (st_loop s)\<lparr>el_looping := b\<rparr>\<rparr>"

text \<open>Where the loop's own thread runs other code than the loop's: between the construction and
  \<open>loop()\<close> (the init callback of a loop thread, the main function), in a handler, in a functor.\<close>

definition in_user_code :: "'f loop_pc \<Rightarrow> bool" where
  "in_user_code pc \<longleftrightarrow> pc = Outside \<or> (\<exists>ps. pc = Dispatching ps) \<or> (\<exists>fs. pc = Draining fs)"

text \<open>What that code does to the loop and to the kernel.\<close>

inductive own_step :: "'k sys \<Rightarrow> ('k \<Rightarrow> nat) \<Rightarrow> label \<Rightarrow> ('f, 'k) conf \<Rightarrow> ('f, 'k) conf \<Rightarrow> bool"
  for S cnt where
  own_queue: "own_step S cnt OtherLabel c (c\<lparr>cf_st := queueInLoop S f (cf_st c),
     cf_early := (if cf_pc c = Outside then cf_early c + 1 else cf_early c)\<rparr>)"
| own_quit: "own_step S cnt QuitLabel c (c\<lparr>cf_st := quit S (cf_st c)\<rparr>)"
| own_kernel: "cnt k' = cnt (st_kern (cf_st c)) \<Longrightarrow>
     own_step S cnt OtherLabel c (c\<lparr>cf_st := (cf_st c)\<lparr>st_kern := k'\<rparr>\<rparr>)"

text \<open>The \<open>other_\<close> steps belong to other threads, the rest to the loop's thread.\<close>

inductive step :: "'k sys \<Rightarrow> ('k \<Rightarrow> nat) \<Rightarrow> label \<Rightarrow> ('f, 'k) conf \<Rightarrow> ('f, 'k) conf \<Rightarrow> bool"
  for S cnt where
  other_push: "step S cnt OtherLabel c
     (c\<lparr>cf_st := push_functor f (cf_st c), cf_flight := cf_flight c + 1\<rparr>)"
| other_quit: "step S cnt QuitLabel c
     (c\<lparr>cf_st := set_quit True (cf_st c), cf_flight := cf_flight c + 1\<rparr>)"
| other_wake: "cf_flight c = Suc n \<Longrightarrow>
     step S cnt OtherLabel c (c\<lparr>cf_st := wakeup S (cf_st c), cf_flight := n\<rparr>)"
| enter: "cf_pc c = Outside \<Longrightarrow> step S cnt EnterLabel c
     (c\<lparr>cf_st := set_quit False (set_looping True (cf_st c)), cf_pc := AtTop\<rparr>)"
| leave: "cf_pc c = AtTop \<Longrightarrow> el_quit (st_loop (cf_st c)) \<Longrightarrow>
     step S cnt OtherLabel c (c\<lparr>cf_st := set_looping False (cf_st c), cf_pc := Finished\<rparr>)"
| go_on: "cf_pc c = AtTop \<Longrightarrow> \<not> el_quit (st_loop (cf_st c)) \<Longrightarrow>
     step S cnt OtherLabel c (c\<lparr>cf_pc := InPoll\<rparr>)"
| poll_return: "cf_pc c = InPoll \<Longrightarrow> s' = loop_poll S with_wakeup (cf_st c) \<Longrightarrow>
     step S cnt OtherLabel c (c\<lparr>cf_st := s', cf_pc := Dispatching (el_activeChannels (st_loop s'))\<rparr>)"
| dispatch_wakeup: "cf_pc c = Dispatching (WakeupChannelOf (st_self (cf_st c)) # ps) \<Longrightarrow>
     handle_wakeup S (el_pollRetureTime (st_loop (cf_st c))) (cf_st c) = Inr s' \<Longrightarrow>
     step S cnt OtherLabel c (c\<lparr>cf_st := s', cf_pc := Dispatching ps\<rparr>)"
| dispatch_other: "cf_pc c = Dispatching (p # ps) \<Longrightarrow> p \<noteq> WakeupChannelOf (st_self (cf_st c)) \<Longrightarrow>
     step S cnt OtherLabel c (c\<lparr>cf_pc := Dispatching ps\<rparr>)"
| drain_swap: "cf_pc c = Dispatching [] \<Longrightarrow> step S cnt OtherLabel c
     (c\<lparr>cf_st := swap_begin (cf_st c), cf_pc := Draining (el_pendingFunctors (st_loop (cf_st c))), cf_early := 0\<rparr>)"
| drain_next: "cf_pc c = Draining (f # fs) \<Longrightarrow> step S cnt OtherLabel c (c\<lparr>cf_pc := Draining fs\<rparr>)"
| drain_done: "cf_pc c = Draining [] \<Longrightarrow>
     step S cnt OtherLabel c (c\<lparr>cf_st := drain_end (cf_st c), cf_pc := AtTop\<rparr>)"
| own: "in_user_code (cf_pc c) \<Longrightarrow> own_step S cnt l c c' \<Longrightarrow> step S cnt l c c'"

inductive steps :: "'k sys \<Rightarrow> ('k \<Rightarrow> nat) \<Rightarrow> ('f, 'k) conf \<Rightarrow> label list \<Rightarrow> ('f, 'k) conf \<Rightarrow> bool"
  for S cnt where
  steps_refl: "steps S cnt c [] c"
| steps_step: "steps S cnt c ls c' \<Longrightarrow> step S cnt l c' c'' \<Longrightarrow> steps S cnt c (ls @ [l]) c''"

inductive_cases enter_stepE: "step S cnt EnterLabel c c'"

text \<open>
  eventfd(2): after a write of the integer 1 the counter is positive, whether the write added to
  it or failed because it was at its maximum; waiting and reading the clock do not touch it.
\<close>

definition eventfd_doc :: "'k sys \<Rightarrow> ('k \<Rightarrow> nat) \<Rightarrow> fd \<Rightarrow> bool" where
  "eventfd_doc S cnt w \<longleftrightarrow> (\<forall>k. 0 < cnt (snd (sys_write S w one_bytes k))) \<and>
     (\<forall>ep n t k. cnt (snd (sys_epoll_wait S ep n t k)) = cnt k) \<and>
     (\<forall>k. cnt (snd (sys_time S k)) = cnt k)"

section \<open>The pieces make up the operations\<close>

lemma queueInLoop_pieces:
  "\<not> isInLoopThread s \<Longrightarrow> queueInLoop S f s = wakeup S (push_functor f s)"
  by (simp add: queueInLoop_def Let_def)

lemma quit_pieces: "\<not> isInLoopThread s \<Longrightarrow> quit S s = wakeup S (set_quit True s)"
  by (simp add: quit_def set_quit_def Let_def isInLoopThread_def)

section \<open>What poll leaves alone\<close>

definition same_queue :: "('f, 'k) loop_st \<Rightarrow> ('f, 'k) loop_st \<Rightarrow> bool" where
  "same_queue s s' \<longleftrightarrow> st_tid s' = st_tid s \<and> st_self s' = st_self s \<and>
     el_threadId (st_loop s') = el_threadId (st_loop s) \<and>
     el_wakeupFd (st_loop s') = el_wakeupFd (st_loop s) \<and> el_quit (st_loop s') = el_quit (st_loop s) \<and>
     el_callingPendingFunctors (st_loop s') = el_callingPendingFunctors (st_loop s) \<and>
     el_pendingFunctors (st_loop s') = el_pendingFunctors (st_loop s)"

lemma same_queue_trans: "same_queue s s1 \<Longrightarrow> same_queue s1 s2 \<Longrightarrow> same_queue s s2"
  by (simp add: same_queue_def)

lemma fill_same:
  "fillActiveChannels with_wakeup evs s = (ps, s') \<Longrightarrow> same_queue s s' \<and> st_kern s' = st_kern s"
proof (induction evs arbitrary: s ps)
  case (Cons ep evs)
  obtain e p where ep: "ep = (e, p)" by fastforce
  let ?s = "with_wakeup p (set_revents e) s"
  have 1: "same_queue s ?s \<and> st_kern ?s = st_kern s" by (simp add: with_wakeup_def same_queue_def)
  obtain ps1 s1 where f: "fillActiveChannels with_wakeup evs ?s = (ps1, s1)" by fastforce
  then have "s1 = s'" using Cons.prems by (simp add: ep)
  with Cons.IH [of ?s ps1] f 1 show ?case by (auto intro: same_queue_trans)
qed (simp add: same_queue_def)

lemma loop_poll_same:
  assumes "eventfd_doc S cnt w"
  shows "same_queue s (loop_poll S with_wakeup s) \<and>
    cnt (st_kern (loop_poll S with_wakeup s)) = cnt (st_kern s)"
proof -
  obtain now evs po k where p: "poll S kPollTimeMs (el_poller (st_loop s)) (st_kern s) = (now, evs, po, k)"
    by (metis prod_cases4)
  let ?s1 = "s\<lparr>st_loop := (st_loop s)\<lparr>el_poller := po\<rparr>, st_kern := k\<rparr>"
  obtain ps s2 where f: "fillActiveChannels with_wakeup evs ?s1 = (ps, s2)" by fastforce
  obtain r k1 where w: "sys_epoll_wait S (ep_epollfd (el_poller (st_loop s)))
      (ep_events_size (el_poller (st_loop s))) kPollTimeMs (st_kern s) = (r, k1)" by fastforce
  have k: "k = snd (sys_time S k1)"
    using p w by (auto simp: poll_def Timestamp_now_def Let_def split: prod.splits io.splits if_splits)
  have "cnt k1 = cnt (st_kern s)" "cnt k = cnt k1"
    using assms w k unfolding eventfd_doc_def by (metis snd_conv, simp)
  with fill_same [OF f] show ?thesis
    by (simp add: loop_poll_def p f same_queue_def)
qed

section \<open>No wakeup is lost\<close>

definition signalled :: "('k \<Rightarrow> nat) \<Rightarrow> ('f, 'k) conf \<Rightarrow> bool" where
  "signalled cnt c \<longleftrightarrow> 0 < cnt (st_kern (cf_st c)) \<or> 0 < cf_flight c"

definition loop_inv :: "('k \<Rightarrow> nat) \<Rightarrow> fd \<Rightarrow> ('f, 'k) conf \<Rightarrow> bool" where
  "loop_inv cnt w c \<longleftrightarrow>
     isInLoopThread (cf_st c) \<and> el_wakeupFd (st_loop (cf_st c)) = w \<and>
     (el_callingPendingFunctors (st_loop (cf_st c)) \<longleftrightarrow> (\<exists>fs. cf_pc c = Draining fs)) \<and>
     ((\<nexists>ps. cf_pc c = Dispatching ps) \<longrightarrow> cf_early c < length (el_pendingFunctors (st_loop (cf_st c))) \<longrightarrow> signalled cnt c) \<and>
     (cf_pc c = InPoll \<longrightarrow> el_quit (st_loop (cf_st c)) \<longrightarrow> signalled cnt c)"

lemma loop_inv_own:
  assumes doc: "eventfd_doc S cnt w" and st: "own_step S cnt l c c'" and uc: "in_user_code (cf_pc c)" and inv: "loop_inv cnt w c"
  shows "loop_inv cnt w c'"
  using st
proof cases
  case (own_queue f)
  have "0 < cnt (st_kern (queueInLoop S f (cf_st c)))" if "cf_pc c = Draining fs" for fs
    using doc inv that by (simp add: queueInLoop_kern eventfd_doc_def loop_inv_def)
  moreover have "st_kern (queueInLoop S f (cf_st c)) = st_kern (cf_st c)" if "cf_pc c = Outside"
    using inv that by (simp add: queueInLoop_kern loop_inv_def)
  ultimately show ?thesis using inv own_queue uc
    by (auto simp: loop_inv_def signalled_def in_user_code_def)
next
  case own_quit
  then show ?thesis using inv uc
    by (auto simp: loop_inv_def signalled_def in_user_code_def quit_def Let_def isInLoopThread_def)
next
  case (own_kernel k')
  then show ?thesis using inv by (simp add: loop_inv_def signalled_def isInLoopThread_def)
qed

lemma loop_inv_step:
  assumes doc: "eventfd_doc S cnt w" and st: "step S cnt l c c'" and inv: "loop_inv cnt w c"
  shows "loop_inv cnt w c'"
  using st inv
proof cases
  case (other_wake n)
  have "0 < cnt (st_kern (wakeup S (cf_st c)))"
    using doc inv by (simp add: wakeup_def eventfd_doc_def loop_inv_def)
  then show ?thesis using inv other_wake by (auto simp: loop_inv_def signalled_def)
next
  case (poll_return s')
  with loop_poll_same [OF doc, of "cf_st c"] inv show ?thesis
    by (auto simp: loop_inv_def same_queue_def isInLoopThread_def)
next
  case (dispatch_wakeup ps s')
  then have "s' = handleRead S (cf_st c) \<or> s' = cf_st c"
    by (auto simp: handle_wakeup_def handleEvent_def handleEventWithGuard_def wakeup_callbacks_def
        call_def split: if_splits option.splits)
  with inv dispatch_wakeup show ?thesis
    by (auto simp: loop_inv_def handleRead_def isInLoopThread_def)
next
  case own
  then show ?thesis using loop_inv_own [OF doc] inv by blast
qed (auto simp: loop_inv_def signalled_def set_quit_def set_looping_def swap_begin_def drain_end_def
    isInLoopThread_def)

lemma loop_inv_steps:
  assumes "eventfd_doc S cnt w"
  shows "steps S cnt c ls c' \<Longrightarrow> loop_inv cnt w c \<Longrightarrow> loop_inv cnt w c'"
  by (induction rule: steps.induct) (auto intro: loop_inv_step [OF assms])

text \<open>A loop as its constructor leaves it.\<close>

definition conf_init :: "('f, 'k) loop_st \<Rightarrow> ('f, 'k) conf" where
  "conf_init s = \<lparr>cf_st = s, cf_pc = Outside, cf_flight = 0, cf_early = 0\<rparr>"

definition new_loop :: "('f, 'k) loop_st \<Rightarrow> bool" where
  "new_loop s \<longleftrightarrow> isInLoopThread s \<and> el_pendingFunctors (st_loop s) = [] \<and>
     \<not> el_callingPendingFunctors (st_loop s)"

lemma loop_inv_init: "new_loop s \<Longrightarrow> loop_inv cnt (el_wakeupFd (st_loop s)) (conf_init s)"
  by (simp add: loop_inv_def conf_init_def new_loop_def)

section \<open>A quit before the loop\<close>

definition running :: "('f, 'k) conf \<Rightarrow> bool" where
  "running c \<longleftrightarrow> \<not> el_quit (st_loop (cf_st c)) \<and> cf_pc c \<noteq> Finished"

lemma running_own: "own_step S cnt l c c' \<Longrightarrow> l \<noteq> QuitLabel \<Longrightarrow> running c \<Longrightarrow> running c'"
  by (erule own_step.cases) (simp_all add: running_def)

lemma running_step:
  assumes doc: "eventfd_doc S cnt w" and "step S cnt l c c'" "l \<noteq> QuitLabel" "running c"
  shows "running c'"
  using assms(2-4)
proof cases
  case (poll_return s')
  with loop_poll_same [OF doc, of "cf_st c"] assms(4) show ?thesis
    by (simp add: running_def same_queue_def)
next
  case (dispatch_wakeup ps s')
  then have "s' = handleRead S (cf_st c) \<or> s' = cf_st c"
    by (auto simp: handle_wakeup_def handleEvent_def handleEventWithGuard_def wakeup_callbacks_def
        call_def split: if_splits option.splits)
  with assms(4) dispatch_wakeup show ?thesis by (auto simp: running_def handleRead_def)
next
  case own
  then show ?thesis using running_own assms(3,4) by blast
qed (simp_all add: running_def set_quit_def set_looping_def swap_begin_def drain_end_def)

lemma running_steps:
  assumes "eventfd_doc S cnt w"
  shows "steps S cnt c ls c' \<Longrightarrow> QuitLabel \<notin> set ls \<Longrightarrow> running c \<Longrightarrow> running c'"
  by (induction rule: steps.induct) (auto intro: running_step [OF assms])

text \<open>Once the loop is entered, nothing clears the flag.\<close>

lemma own_step_quit: "own_step S cnt l c c' \<Longrightarrow> cf_pc c' = cf_pc c \<and> (el_quit (st_loop (cf_st c)) \<longrightarrow> el_quit (st_loop (cf_st c')))"
  by (erule own_step.cases) (simp_all add: quit_def Let_def)

lemma quit_stays_step:
  assumes doc: "eventfd_doc S cnt w" and "step S cnt l c c'" and "cf_pc c \<noteq> Outside" and "el_quit (st_loop (cf_st c))"
  shows "cf_pc c' \<noteq> Outside \<and> el_quit (st_loop (cf_st c'))"
  using assms(2-4)
proof cases
  case (poll_return s')
  with loop_poll_same [OF doc, of "cf_st c"] assms(4) show ?thesis by (simp add: same_queue_def)
next
  case (dispatch_wakeup ps s')
  then have "s' = handleRead S (cf_st c) \<or> s' = cf_st c"
    by (auto simp: handle_wakeup_def handleEvent_def handleEventWithGuard_def wakeup_callbacks_def
        call_def split: if_splits option.splits)
  with assms(4) dispatch_wakeup show ?thesis by (auto simp: handleRead_def)
next
  case own
  then show ?thesis using own_step_quit assms(3,4) by metis
qed (simp_all add: set_quit_def set_looping_def swap_begin_def drain_end_def)

lemma quit_stays:
  assumes "eventfd_doc S cnt w"
  shows "steps S cnt c ls c' \<Longrightarrow> cf_pc c \<noteq> Outside \<Longrightarrow> el_quit (st_loop (cf_st c)) \<Longrightarrow>
    cf_pc c' \<noteq> Outside \<and> el_quit (st_loop (cf_st c'))"
  by (induction rule: steps.induct) (auto dest: quit_stays_step [OF assms])

lemma steps_append:
  "steps S cnt c1 ls' c2 \<Longrightarrow> steps S cnt c ls c1 \<Longrightarrow> steps S cnt c (ls @ ls') c2"
  by (induction rule: steps.induct) (auto simp flip: append_assoc intro: steps.steps_step)

section \<open>Properties\<close>

text \<open>C5: No wakeup is lost. Whatever the other threads, the handlers and the functors do and however
  their steps interleave: whenever the loop's thread is in \<open>epoll_wait\<close> while \<open>quit_\<close> is set, or while a
  functor is queued that is not one of those the loop's own thread queued before it called
  \<open>loop()\<close>, the eventfd is readable, or a thread that changed the queue or \<open>quit_\<close> has yet
  to write it. (The functors queued before \<open>loop()\<close> are the subject of \<open>early_functors_sleep\<close>.)\<close>

theorem no_lost_wakeup:
  assumes "eventfd_doc S cnt (el_wakeupFd (st_loop s))" and "new_loop s"
    and "steps S cnt (conf_init s) ls c" and "cf_pc c = InPoll"
    and "cf_early c < length (el_pendingFunctors (st_loop (cf_st c))) \<or> el_quit (st_loop (cf_st c))"
  shows "0 < cnt (st_kern (cf_st c)) \<or> 0 < cf_flight c"
  using loop_inv_steps [OF assms(1,3) loop_inv_init [OF assms(2)]] assms(4,5)
  by (auto simp: loop_inv_def signalled_def)

text \<open>C31: A quit that comes before \<open>loop()\<close> is lost. \<open>loop()\<close> starts by storing false to \<open>quit_\<close>, so
  after it a request made earlier has no effect: without another call of \<open>quit\<close> the loop never
  leaves, whatever else happens, even though the eventfd was written.\<close>

theorem quit_before_loop_is_lost:
  assumes "eventfd_doc S cnt w" and "step S cnt EnterLabel c c1" and "steps S cnt c1 ls c2"
    and "QuitLabel \<notin> set ls"
  shows "cf_pc c2 \<noteq> Finished \<and> \<not> el_quit (st_loop (cf_st c2))"
proof -
  have "running c1"
    using assms(2) by (rule enter_stepE) (auto simp: running_def set_quit_def elim: own_step.cases)
  with running_steps [OF assms(1,3,4)] show ?thesis by (simp add: running_def)
qed

text \<open>A kernel whose state is the counter, for the witnesses.\<close>

definition counter_sys :: "nat sys" where
  "counter_sys = \<lparr>
     sys_readv = (\<lambda>f lens k. (Fail EAGAIN, k)), sys_read = (\<lambda>f n k. (Done (replicate n 0), 0)),
     sys_write = (\<lambda>f d k. (Done (length d), k + 1)), sys_sendfile = (\<lambda>f g off n k. (Fail EAGAIN, off, k)),
     sys_shutdown_wr = (\<lambda>f k. (Done (), k)), sys_so_error = (\<lambda>f k. (Done 0, k)),
     sys_setsockopt = (\<lambda>f l n v k. (Done (), k)), sys_socket = (\<lambda>k. (Done 3, k)),
     sys_bind = (\<lambda>f a k. (Done (), k)), sys_listen = (\<lambda>f n k. (Done (), k)),
     sys_accept4 = (\<lambda>f k. (Fail EAGAIN, k)), sys_getsockname = (\<lambda>f k. (Fail 9, k)),
     sys_close = (\<lambda>f k. (Done (), k)), sys_eventfd = (\<lambda>k. (Done 4, k)), sys_epoll_create = (\<lambda>k. (Done 3, k)),
     sys_epoll_ctl = (\<lambda>ep oper f ev k. (Done (), k)),
     sys_epoll_wait = (\<lambda>ep n t k. (Done (if 0 < k then [(1, WakeupChannelOf 0)] else []), k)),
     sys_time = (\<lambda>k. (0, k))\<rparr>"

lemma counter_eventfd_doc: "eventfd_doc counter_sys id w"
  by (simp add: eventfd_doc_def counter_sys_def)

definition sample_st :: "('f, nat) loop_st" where
  "sample_st = \<lparr>st_tid = 100, st_self = 0, st_loop = sample_loop [], st_kern = 0\<rparr>"

lemma sample_new_loop: "new_loop sample_st"
  by (simp add: new_loop_def sample_st_def sample_loop_def isInLoopThread_def)

text \<open>The loop starts, blocks, and another thread queues a functor and writes the eventfd.\<close>

theorem no_lost_wakeup_witness:
  "\<exists>ls c :: (nat, nat) conf. steps counter_sys id (conf_init sample_st) ls c \<and> cf_pc c = InPoll \<and>
     el_pendingFunctors (st_loop (cf_st c)) = [7] \<and> 0 < st_kern (cf_st c)"
proof -
  let ?c0 = "conf_init sample_st :: (nat, nat) conf"
  let ?c1 = "?c0\<lparr>cf_st := set_quit False (set_looping True (cf_st ?c0)), cf_pc := AtTop\<rparr>"
  let ?c2 = "?c1\<lparr>cf_pc := InPoll\<rparr>"
  let ?c3 = "?c2\<lparr>cf_st := push_functor 7 (cf_st ?c2), cf_flight := cf_flight ?c2 + 1\<rparr>"
  let ?c4 = "?c3\<lparr>cf_st := wakeup counter_sys (cf_st ?c3), cf_flight := 0\<rparr>"
  have 1: "step counter_sys id EnterLabel ?c0 ?c1"
    by (rule enter) (simp add: conf_init_def)
  have 2: "step counter_sys id OtherLabel ?c1 ?c2"
    by (rule go_on) (simp_all add: set_quit_def)
  have 3: "step counter_sys id OtherLabel ?c2 ?c3" by (rule other_push)
  have 4: "step counter_sys id OtherLabel ?c3 ?c4"
    by (rule other_wake) (simp add: conf_init_def)
  have run: "steps counter_sys id ?c0 ([] @ [EnterLabel] @ [OtherLabel] @ [OtherLabel] @ [OtherLabel]) ?c4"
    unfolding append_assoc [symmetric]
    by (rule steps_step [OF steps_step [OF steps_step [OF steps_step [OF steps_refl 1] 2] 3] 4])
  have q: "el_pendingFunctors (st_loop (cf_st ?c4)) = [7]"
    by (simp add: conf_init_def set_quit_def set_looping_def sample_st_def sample_loop_def)
  have pc: "cf_pc ?c4 = InPoll" and fl: "cf_flight ?c4 = 0" and e: "cf_early ?c4 = 0" by (simp_all add: conf_init_def)
  have "0 < id (st_kern (cf_st ?c4)) \<or> 0 < cf_flight ?c4"
    by (rule no_lost_wakeup [OF counter_eventfd_doc sample_new_loop run pc]) (simp only: q e list.size, simp)
  then have "0 < st_kern (cf_st ?c4)" using fl by simp
  with run pc q show ?thesis by blast
qed

text \<open>Functors the loop's own thread queues before \<open>loop()\<close>, as an init callback may.\<close>

lemma queue_early:
  assumes "isInLoopThread s" and "\<not> el_callingPendingFunctors (st_loop s)"
  shows "queueInLoop S f s = push_functor f s"
  using assms by (simp add: queueInLoop_def Let_def)

lemma early_steps:
  assumes "cf_pc c = Outside" and "isInLoopThread (cf_st c)" and "\<not> el_callingPendingFunctors (st_loop (cf_st c))"
  shows "\<exists>c'. steps S cnt c (replicate (length fs) OtherLabel) c' \<and> cf_pc c' = Outside \<and>
    isInLoopThread (cf_st c') \<and> \<not> el_callingPendingFunctors (st_loop (cf_st c')) \<and>
    el_pendingFunctors (st_loop (cf_st c')) = el_pendingFunctors (st_loop (cf_st c)) @ fs \<and>
    st_kern (cf_st c') = st_kern (cf_st c) \<and> cf_flight c' = cf_flight c"
proof (induction fs rule: rev_induct)
  case Nil
  then show ?case using assms by (auto intro: steps_refl)
next
  case (snoc f fs)
  then obtain c1 where c1: "steps S cnt c (replicate (length fs) OtherLabel) c1" "cf_pc c1 = Outside"
      "isInLoopThread (cf_st c1)" "\<not> el_callingPendingFunctors (st_loop (cf_st c1))"
      "el_pendingFunctors (st_loop (cf_st c1)) = el_pendingFunctors (st_loop (cf_st c)) @ fs"
      "st_kern (cf_st c1) = st_kern (cf_st c)" "cf_flight c1 = cf_flight c"
    by blast
  let ?c2 = "c1\<lparr>cf_st := queueInLoop S f (cf_st c1), cf_early := (if cf_pc c1 = Outside then cf_early c1 + 1 else cf_early c1)\<rparr>"
  have "step S cnt OtherLabel c1 ?c2" by (rule own [OF _ own_queue]) (simp add: in_user_code_def c1(2))
  from steps_step [OF c1(1) this]
  have "steps S cnt c (replicate (length (fs @ [f])) OtherLabel) ?c2" by (simp add: replicate_append_same)
  then show ?case using c1(2-) by (intro exI [of _ ?c2]) (simp add: queue_early push_functor_def isInLoopThread_def)
qed

text \<open>What is queued before \<open>loop()\<close> sleeps. Functors that the loop's own thread queues between the
  construction and \<open>loop()\<close>, as the init callback of a loop thread may, do not write the eventfd, since
  the caller is the loop's thread and runs no functors: the thread goes into \<open>epoll_wait\<close> with all of them in the
  queue, the eventfd not readable and no thread about to write it, so that nothing but
  another event or the timeout lets them run.\<close>

lemma early_functors_sleep:
  assumes "new_loop s" and "cnt (st_kern s) = 0"
  shows "\<exists>c. steps S cnt (conf_init s) (replicate (length fs) OtherLabel @ [EnterLabel, OtherLabel]) c \<and> cf_pc c = InPoll \<and>
    el_pendingFunctors (st_loop (cf_st c)) = fs \<and> cnt (st_kern (cf_st c)) = 0 \<and> cf_flight c = 0"
proof -
  obtain c where c: "steps S cnt (conf_init s) (replicate (length fs) OtherLabel) c" "cf_pc c = Outside"
      "el_pendingFunctors (st_loop (cf_st c)) = fs" "st_kern (cf_st c) = st_kern s" "cf_flight c = 0"
    using early_steps [of "conf_init s" S cnt fs] assms(1) by (auto simp: conf_init_def new_loop_def)
  let ?c1 = "c\<lparr>cf_st := set_quit False (set_looping True (cf_st c)), cf_pc := AtTop\<rparr>"
  let ?c2 = "?c1\<lparr>cf_pc := InPoll\<rparr>"
  have 1: "step S cnt EnterLabel c ?c1" by (rule enter) (rule c(2))
  have 2: "step S cnt OtherLabel ?c1 ?c2" by (rule go_on) (simp_all add: set_quit_def)
  from steps_step [OF steps_step [OF c(1) 1] 2]
  have "steps S cnt (conf_init s) (replicate (length fs) OtherLabel @ [EnterLabel, OtherLabel]) ?c2" by simp
  then show ?thesis using c(3-5) assms(2) by (intro exI [of _ ?c2]) (simp add: set_quit_def set_looping_def)
qed

text \<open>An init callback that queues the functor 7.\<close>

lemma early_functors_sleep_witness:
  "\<exists>c :: (nat, nat) conf. steps counter_sys id (conf_init sample_st) [OtherLabel, EnterLabel, OtherLabel] c \<and> cf_pc c = InPoll \<and>
     el_pendingFunctors (st_loop (cf_st c)) = [7] \<and> st_kern (cf_st c) = 0 \<and> cf_flight c = 0"
proof -
  have "id (st_kern (sample_st :: (nat, nat) loop_st)) = 0" by (simp add: sample_st_def)
  from early_functors_sleep [where cnt = id and fs = "[7]" and S = counter_sys, OF sample_new_loop this] show ?thesis by simp
qed

text \<open>Another thread calls \<open>quit\<close> and its eventfd write is done; then \<open>loop()\<close> begins.\<close>

theorem quit_before_loop_is_lost_witness:
  "\<exists>c c1 :: (nat, nat) conf. steps counter_sys id (conf_init sample_st) [QuitLabel, OtherLabel] c \<and>
     el_quit (st_loop (cf_st c)) \<and> step counter_sys id EnterLabel c c1 \<and>
     \<not> (\<exists>ls c2. steps counter_sys id c1 ls c2 \<and> QuitLabel \<notin> set ls \<and> cf_pc c2 = Finished)"
proof -
  let ?c0 = "conf_init sample_st :: (nat, nat) conf"
  let ?c1 = "?c0\<lparr>cf_st := set_quit True (cf_st ?c0), cf_flight := cf_flight ?c0 + 1\<rparr>"
  let ?c2 = "?c1\<lparr>cf_st := wakeup counter_sys (cf_st ?c1), cf_flight := 0\<rparr>"
  let ?c3 = "?c2\<lparr>cf_st := set_quit False (set_looping True (cf_st ?c2)), cf_pc := AtTop\<rparr>"
  have 1: "step counter_sys id QuitLabel ?c0 ?c1" by (rule other_quit)
  have 2: "step counter_sys id OtherLabel ?c1 ?c2"
    by (rule other_wake) (simp add: conf_init_def)
  have 3: "step counter_sys id EnterLabel ?c2 ?c3"
    by (rule enter) (simp add: conf_init_def)
  have run: "steps counter_sys id ?c0 ([] @ [QuitLabel] @ [OtherLabel]) ?c2"
    unfolding append_assoc [symmetric] by (rule steps_step [OF steps_step [OF steps_refl 1] 2])
  have q: "el_quit (st_loop (cf_st ?c2))" by (simp add: set_quit_def)
  have "\<not> (\<exists>ls c. steps counter_sys id ?c3 ls c \<and> QuitLabel \<notin> set ls \<and> cf_pc c = Finished)"
    using quit_before_loop_is_lost [OF counter_eventfd_doc 3] by blast
  with run q 3 show ?thesis by (intro exI [of _ ?c2] exI [of _ ?c3]) auto
qed

text \<open>A quit that comes after \<open>loop()\<close> has begun is never lost: the flag stays set whatever
  happens, and whenever the loop's thread is in \<open>epoll_wait\<close> with the flag set, the eventfd is
  readable or about to be written.\<close>

lemma quit_in_loop_is_seen:
  assumes "eventfd_doc S cnt (el_wakeupFd (st_loop s))" and "new_loop s" and "steps S cnt (conf_init s) ls c"
    and "cf_pc c \<noteq> Outside" and "el_quit (st_loop (cf_st c))" and "steps S cnt c ls' c'"
  shows "el_quit (st_loop (cf_st c')) \<and>
    (cf_pc c' = InPoll \<longrightarrow> 0 < cnt (st_kern (cf_st c')) \<or> 0 < cf_flight c')"
proof -
  have q: "el_quit (st_loop (cf_st c'))" using quit_stays [OF assms(1,6,4,5)] by simp
  have "loop_inv cnt (el_wakeupFd (st_loop s)) c'"
    by (rule loop_inv_steps [OF assms(1) steps_append [OF assms(6,3)] loop_inv_init [OF assms(2)]])
  with q show ?thesis by (simp add: loop_inv_def signalled_def)
qed

end
