(* ===== verification/EventLoopThread.thy ===== *)
theory EventLoopThread
  imports LoopThreads
begin

text \<open>
  A thread with a loop (include/EventLoopThread.h, src/EventLoopThread.cpp): the owner's calls
  \<open>startLoop\<close> and the destructor, and \<open>threadFunc\<close> in the child, as interleaved steps. The loop
  itself is a configuration of the theory LoopThreads; the child's stack holds it from its
  construction to the end of \<open>threadFunc\<close>. \<open>th_loop\<close> is the member \<open>loop_\<close>.

  The init callback gets the address of the loop. It runs in the child's thread before \<open>loop()\<close>, so it may
  do to the loop what that thread may (queue functors, call \<open>quit\<close>, use the kernel: \<open>own_step\<close>), and it
  changes the user's data, \<open>lt_user\<close>.

  The destructor reads \<open>loop_\<close> without the mutex and calls \<open>quit\<close> on what it found.
\<close>

section \<open>State and steps\<close>

text \<open>Where the child is: not running, the loop built, the init callback run, \<open>loop_\<close> published (and
  from there in \<open>loop()\<close>), \<open>loop_\<close> cleared and the loop destroyed.\<close>

datatype child_pc = ChildNew | ChildBuilt | ChildReady | ChildPublished | ChildEnded

text \<open>Where the owner is: before \<open>startLoop\<close>, in its wait, after it; in the destructor about to call
  \<open>quit\<close>, in \<open>join\<close>, done; or having called \<open>quit\<close> on a dead loop.\<close>

datatype owner_pc = OwnerIdle | OwnerWaiting | OwnerHasLoop loop_id | OwnerQuitting | OwnerJoining
  | OwnerGone | OwnerCrashed

record ('f, 'k, 'u) loop_thread =
  lt_conf :: "('f, 'k) conf"
  lt_loop :: "loop_id option"
  lt_exiting :: bool
  lt_child :: child_pc
  lt_owner :: owner_pc
  lt_user :: 'u

definition loop_thread_init :: "('f, 'k) loop_st \<Rightarrow> 'u \<Rightarrow> ('f, 'k, 'u) loop_thread" where
  "loop_thread_init s u = \<lparr>lt_conf = conf_init s, lt_loop = None, lt_exiting = False, lt_child = ChildNew,
     lt_owner = OwnerIdle, lt_user = u\<rparr>"

text \<open>The init callback, \<open>None\<close> when empty: what it does to the user's data, given the address of the loop.\<close>

type_synonym 'u init_callback = "(loop_id \<Rightarrow> 'u \<Rightarrow> 'u) option"

definition after_callback :: "'u init_callback \<Rightarrow> loop_id \<Rightarrow> 'u \<Rightarrow> 'u" where
  "after_callback cb l u = (case cb of None \<Rightarrow> u | Some f \<Rightarrow> f l u)"

definition callback_run :: "'k sys \<Rightarrow> ('k \<Rightarrow> nat) \<Rightarrow> 'u init_callback \<Rightarrow> ('f, 'k) conf \<Rightarrow> ('f, 'k) conf \<Rightarrow> bool" where
  "callback_run S cnt cb c c' \<longleftrightarrow> (if cb = None then c' = c else (\<lambda>c c'. \<exists>l. own_step S cnt l c c')\<^sup>*\<^sup>* c c')"

inductive lt_step :: "'k sys \<Rightarrow> ('k \<Rightarrow> nat) \<Rightarrow> 'u init_callback \<Rightarrow> label \<Rightarrow> ('f, 'k, 'u) loop_thread \<Rightarrow> ('f, 'k, 'u) loop_thread \<Rightarrow> bool"
  for S cnt cb where
  startLoop: "lt_owner t = OwnerIdle \<Longrightarrow> lt_step S cnt cb OtherLabel t (t\<lparr>lt_owner := OwnerWaiting\<rparr>)"
| startLoop_return: "lt_owner t = OwnerWaiting \<Longrightarrow> lt_loop t = Some l \<Longrightarrow>
    lt_step S cnt cb OtherLabel t (t\<lparr>lt_owner := OwnerHasLoop l\<rparr>)"
| child_build: "lt_child t = ChildNew \<Longrightarrow> lt_owner t \<noteq> OwnerIdle \<Longrightarrow>
    lt_step S cnt cb OtherLabel t (t\<lparr>lt_child := ChildBuilt\<rparr>)"
| child_callback: "lt_child t = ChildBuilt \<Longrightarrow> callback_run S cnt cb (lt_conf t) c' \<Longrightarrow>
    lt_step S cnt cb OtherLabel t (t\<lparr>lt_child := ChildReady, lt_conf := c',
      lt_user := after_callback cb (st_self (cf_st (lt_conf t))) (lt_user t)\<rparr>)"
| child_publish: "lt_child t = ChildReady \<Longrightarrow>
    lt_step S cnt cb OtherLabel t (t\<lparr>lt_child := ChildPublished, lt_loop := Some (st_self (cf_st (lt_conf t)))\<rparr>)"
| child_loop: "lt_child t = ChildPublished \<Longrightarrow> step S cnt l (lt_conf t) c' \<Longrightarrow>
    lt_step S cnt cb l t (t\<lparr>lt_conf := c'\<rparr>)"
| child_end: "lt_child t = ChildPublished \<Longrightarrow> cf_pc (lt_conf t) = Finished \<Longrightarrow>
    lt_step S cnt cb OtherLabel t (t\<lparr>lt_child := ChildEnded, lt_loop := None\<rparr>)"
| destroy_no_loop: "lt_owner t = OwnerIdle \<or> (\<exists>l. lt_owner t = OwnerHasLoop l) \<Longrightarrow> lt_loop t = None \<Longrightarrow>
    lt_step S cnt cb OtherLabel t (t\<lparr>lt_exiting := True, lt_owner := OwnerGone\<rparr>)"
| destroy_loop: "lt_owner t = OwnerHasLoop l' \<Longrightarrow> lt_loop t = Some l \<Longrightarrow>
    lt_step S cnt cb OtherLabel t (t\<lparr>lt_exiting := True, lt_owner := OwnerQuitting\<rparr>)"
| destroy_quit: "lt_owner t = OwnerQuitting \<Longrightarrow> lt_child t = ChildPublished \<Longrightarrow>
    step S cnt QuitLabel (lt_conf t) (lt_conf t\<lparr>cf_st := set_quit True (cf_st (lt_conf t)), cf_flight := cf_flight (lt_conf t) + 1\<rparr>) \<Longrightarrow>
    lt_step S cnt cb QuitLabel t (t\<lparr>lt_conf := lt_conf t\<lparr>cf_st := set_quit True (cf_st (lt_conf t)), cf_flight := cf_flight (lt_conf t) + 1\<rparr>,
      lt_owner := OwnerJoining\<rparr>)"
| destroy_quit_dead: "lt_owner t = OwnerQuitting \<Longrightarrow> lt_child t = ChildEnded \<Longrightarrow>
    lt_step S cnt cb QuitLabel t (t\<lparr>lt_owner := OwnerCrashed\<rparr>)"
| destroy_joined: "lt_owner t = OwnerJoining \<Longrightarrow> lt_child t = ChildEnded \<Longrightarrow>
    lt_step S cnt cb OtherLabel t (t\<lparr>lt_owner := OwnerGone\<rparr>)"

inductive lt_steps :: "'k sys \<Rightarrow> ('k \<Rightarrow> nat) \<Rightarrow> 'u init_callback \<Rightarrow> ('f, 'k, 'u) loop_thread \<Rightarrow> label list \<Rightarrow> ('f, 'k, 'u) loop_thread \<Rightarrow> bool"
  for S cnt cb where
  lt_refl: "lt_steps S cnt cb t [] t"
| lt_more: "lt_steps S cnt cb t ls t' \<Longrightarrow> lt_step S cnt cb l t' t'' \<Longrightarrow> lt_steps S cnt cb t (ls @ [l]) t''"

section \<open>Lemmas\<close>

lemma own_step_self: "own_step S cnt l c c' \<Longrightarrow> st_self (cf_st c') = st_self (cf_st c) \<and> cf_pc c' = cf_pc c"
  by (erule own_step.cases) (simp_all add: quit_def Let_def)

lemma callback_self:
  assumes "callback_run S cnt cb c c'"
  shows "st_self (cf_st c') = st_self (cf_st c)"
proof -
  have "(\<lambda>c c'. \<exists>l. own_step S cnt l c c')\<^sup>*\<^sup>* c c'" using assms by (auto simp: callback_run_def split: if_splits)
  then show ?thesis by (induction rule: rtranclp_induct) (auto dest: own_step_self)
qed

lemma step_self:
  assumes doc: "eventfd_doc S cnt w" and "step S cnt l c c'"
  shows "st_self (cf_st c') = st_self (cf_st c)"
  using assms(2)
proof cases
  case (poll_return s')
  with loop_poll_same [OF doc, of "cf_st c"] show ?thesis by (simp add: same_queue_def)
next
  case (dispatch_wakeup ps s')
  then have "s' = handleRead S (cf_st c) \<or> s' = cf_st c"
    by (auto simp: handle_wakeup_def handleEvent_def handleEventWithGuard_def wakeup_callbacks_def
        call_def split: if_splits option.splits)
  with dispatch_wakeup show ?thesis by (auto simp: handleRead_def)
next
  case own
  then show ?thesis by (simp add: own_step_self)
qed (simp_all add: set_quit_def set_looping_def swap_begin_def drain_end_def)

text \<open>The handshake of \<open>startLoop\<close>. \<open>u\<close> is the user's data before the child ran.\<close>

definition handshake :: "'u init_callback \<Rightarrow> loop_id \<Rightarrow> 'u \<Rightarrow> ('f, 'k, 'u) loop_thread \<Rightarrow> bool" where
  "handshake cb self u t \<longleftrightarrow> st_self (cf_st (lt_conf t)) = self \<and>
     lt_user t = (if lt_child t = ChildNew \<or> lt_child t = ChildBuilt then u else after_callback cb self u) \<and>
     (lt_loop t \<noteq> None \<longleftrightarrow> lt_child t = ChildPublished) \<and> (\<forall>l. lt_loop t = Some l \<longrightarrow> l = self) \<and>
     (\<forall>l. lt_owner t = OwnerHasLoop l \<longrightarrow> l = self \<and> (lt_child t = ChildPublished \<or> lt_child t = ChildEnded))"

lemma handshake_step:
  "eventfd_doc S cnt w \<Longrightarrow> lt_step S cnt cb l t t' \<Longrightarrow> handshake cb self u t \<Longrightarrow> handshake cb self u t'"
  by (erule lt_step.cases) (auto simp: handshake_def set_quit_def dest: step_self callback_self)

lemma handshake_steps:
  assumes "eventfd_doc S cnt w"
  shows "lt_steps S cnt cb t ls t' \<Longrightarrow> handshake cb self u t \<Longrightarrow> handshake cb self u t'"
  by (induction rule: lt_steps.induct) (auto intro: handshake_step [OF assms])

text \<open>The owner waits in \<open>join\<close> for a loop that nobody will stop.\<close>

definition join_hangs :: "('f, 'k, 'u) loop_thread \<Rightarrow> bool" where
  "join_hangs t \<longleftrightarrow> lt_owner t = OwnerJoining \<and> lt_child t = ChildPublished \<and>
     (cf_pc (lt_conf t) = Outside \<or> running (lt_conf t))"

lemma outside_step:
  assumes "step S cnt l c c'" and "cf_pc c = Outside" and "l \<noteq> QuitLabel"
  shows "cf_pc c' = Outside \<or> running c'"
  using assms by cases (auto simp: running_def set_quit_def dest: own_step_self)

lemma join_hangs_step:
  assumes doc: "eventfd_doc S cnt w" and "lt_step S cnt cb l t t'" and "l \<noteq> QuitLabel" and h: "join_hangs t"
  shows "join_hangs t'"
  using assms(2,3)
proof cases
  case (child_loop c')
  then show ?thesis
    using h outside_step [of S cnt l "lt_conf t" c'] running_step [OF doc, of l "lt_conf t" c']
    using assms(3) by (auto simp: join_hangs_def)
qed (use h in \<open>auto simp: join_hangs_def running_def\<close>)

lemma join_hangs_steps:
  assumes "eventfd_doc S cnt w"
  shows "lt_steps S cnt cb t ls t' \<Longrightarrow> QuitLabel \<notin> set ls \<Longrightarrow> join_hangs t \<Longrightarrow> join_hangs t'"
  by (induction rule: lt_steps.induct) (auto intro: join_hangs_step [OF assms])

section \<open>Properties\<close>

text \<open>For the witnesses: the owner has its loop, and the child is between publishing it and
  \<open>loop()\<close>.\<close>

definition published_thread :: "('f, nat, loop_id list) loop_thread" where
  "published_thread = \<lparr>lt_conf = conf_init sample_st, lt_loop = Some 0, lt_exiting = False,
     lt_child = ChildPublished, lt_owner = OwnerHasLoop 0, lt_user = [0]\<rparr>"

text \<open>An init callback that keeps a list of the loops.\<close>

definition note_loop :: "loop_id list init_callback" where
  "note_loop = Some (\<lambda>l ls. l # ls)"

lemma published_run:
  "lt_steps counter_sys id note_loop (loop_thread_init sample_st []) (replicate 5 OtherLabel) (published_thread :: ('f, nat, loop_id list) loop_thread)"
proof -
  let ?t0 = "loop_thread_init sample_st [] :: ('f, nat, loop_id list) loop_thread"
  let ?t1 = "?t0\<lparr>lt_owner := OwnerWaiting\<rparr>"
  let ?t2 = "?t1\<lparr>lt_child := ChildBuilt\<rparr>"
  let ?t3 = "?t2\<lparr>lt_child := ChildReady, lt_conf := lt_conf ?t2, lt_user := after_callback note_loop (st_self (cf_st (lt_conf ?t2))) (lt_user ?t2)\<rparr>"
  let ?t4 = "?t3\<lparr>lt_child := ChildPublished, lt_loop := Some (st_self (cf_st (lt_conf ?t3)))\<rparr>"
  have 1: "lt_step counter_sys id note_loop OtherLabel ?t0 ?t1" by (rule lt_step.startLoop) (simp add: loop_thread_init_def)
  have 2: "lt_step counter_sys id note_loop OtherLabel ?t1 ?t2" by (rule child_build) (simp_all add: loop_thread_init_def)
  have 3: "lt_step counter_sys id note_loop OtherLabel ?t2 ?t3" by (rule child_callback) (simp_all add: callback_run_def note_loop_def)
  have 4: "lt_step counter_sys id note_loop OtherLabel ?t3 ?t4" by (rule child_publish) simp
  have 5: "lt_step counter_sys id note_loop OtherLabel ?t4 (?t4\<lparr>lt_owner := OwnerHasLoop 0\<rparr>)"
    by (rule startLoop_return) (simp_all add: loop_thread_init_def conf_init_def sample_st_def)
  have "?t4\<lparr>lt_owner := OwnerHasLoop 0\<rparr> = published_thread"
    by (simp add: loop_thread_init_def published_thread_def conf_init_def sample_st_def after_callback_def note_loop_def)
  with lt_more [OF lt_more [OF lt_more [OF lt_more [OF lt_more [OF lt_refl 1] 2] 3] 4] 5]
  show ?thesis by (simp add: numeral_eq_Suc)
qed

text \<open>C26: The handshake of \<open>startLoop\<close>. When it has returned, the pointer is that of the loop the
  child built, the child has published it, and the init callback, when there is one, has run before, once and
  on the address of this loop: the user's data are what it makes of them. This holds in every interleaving.\<close>

theorem startLoop_handshake:
  assumes "eventfd_doc S cnt w" and "lt_steps S cnt cb (loop_thread_init s u) ls t" and "lt_owner t = OwnerHasLoop l"
  shows "l = st_self s \<and> (lt_child t = ChildPublished \<or> lt_child t = ChildEnded) \<and>
    lt_user t = (case cb of None \<Rightarrow> u | Some f \<Rightarrow> f l u)"
proof -
  have "handshake cb (st_self s) u (loop_thread_init s u)"
    by (simp add: handshake_def loop_thread_init_def conf_init_def)
  from handshake_steps [OF assms(1,2) this] assms(3) show ?thesis by (auto simp: handshake_def after_callback_def)
qed

text \<open>The child publishes its loop and \<open>startLoop\<close> returns.\<close>

theorem startLoop_handshake_witness:
  "\<exists>t :: (nat, nat, loop_id list) loop_thread.
     lt_steps counter_sys id note_loop (loop_thread_init sample_st []) (replicate 5 OtherLabel) t \<and>
     lt_owner t = OwnerHasLoop 0 \<and> lt_child t = ChildPublished \<and> lt_user t = [0]"
proof -
  let ?t = "published_thread :: (nat, nat, loop_id list) loop_thread"
  have run: "lt_steps counter_sys id note_loop (loop_thread_init sample_st []) (replicate 5 OtherLabel) ?t"
    by (rule published_run)
  have o: "lt_owner ?t = OwnerHasLoop 0" by (simp add: published_thread_def)
  from startLoop_handshake [OF counter_eventfd_doc run o] have "lt_user ?t = [0]" by (simp add: note_loop_def)
  moreover have "lt_child ?t = ChildPublished" by (simp add: published_thread_def)
  ultimately show ?thesis using run o by blast
qed

text \<open>C33: The destructor can wait for ever. If it calls \<open>quit\<close> after the child has published the loop
  and before the child has entered \<open>loop()\<close>, then \<open>loop()\<close> clears the request, and without another
  call of \<open>quit\<close> the \<open>join\<close> never returns.\<close>

theorem destructor_join_hangs:
  assumes "eventfd_doc S cnt w" and "lt_owner t = OwnerJoining" and "lt_child t = ChildPublished"
    and "cf_pc (lt_conf t) = Outside" and "lt_steps S cnt cb t ls t'" and "QuitLabel \<notin> set ls"
  shows "lt_owner t' = OwnerJoining \<and> lt_child t' = ChildPublished"
  using join_hangs_steps [OF assms(1,5,6)] assms(2-4) by (simp add: join_hangs_def)

text \<open>The owner destroys the thread object before the child has come to \<open>loop()\<close>.\<close>

theorem destructor_join_hangs_witness:
  "\<exists>ls (t :: (nat, nat, loop_id list) loop_thread). lt_steps counter_sys id note_loop (loop_thread_init sample_st []) ls t \<and>
     lt_exiting t \<and> \<not> (\<exists>ls' t'. lt_steps counter_sys id note_loop t ls' t' \<and> QuitLabel \<notin> set ls' \<and> lt_owner t' = OwnerGone)"
proof -
  let ?t5 = "published_thread :: (nat, nat, loop_id list) loop_thread"
  let ?t6 = "?t5\<lparr>lt_exiting := True, lt_owner := OwnerQuitting\<rparr>"
  let ?t7 = "?t6\<lparr>lt_conf := lt_conf ?t6\<lparr>cf_st := set_quit True (cf_st (lt_conf ?t6)), cf_flight := cf_flight (lt_conf ?t6) + 1\<rparr>,
    lt_owner := OwnerJoining\<rparr>"
  have 6: "lt_step counter_sys id note_loop OtherLabel ?t5 ?t6" by (rule destroy_loop) (simp_all add: published_thread_def)
  have 7: "lt_step counter_sys id note_loop QuitLabel ?t6 ?t7"
    by (rule destroy_quit [OF _ _ other_quit]) (simp_all add: published_thread_def)
  have o: "lt_owner ?t7 = OwnerJoining" and p: "lt_child ?t7 = ChildPublished"
    and c: "cf_pc (lt_conf ?t7) = Outside" and e: "lt_exiting ?t7"
    by (simp_all add: published_thread_def conf_init_def)
  have "\<not> (\<exists>ls' t'. lt_steps counter_sys id note_loop ?t7 ls' t' \<and> QuitLabel \<notin> set ls' \<and> lt_owner t' = OwnerGone)"
    using destructor_join_hangs [OF counter_eventfd_doc o p c] by fastforce
  with lt_more [OF lt_more [OF published_run 6] 7] e show ?thesis by blast
qed

end
