(* ===== verification/Thread.thy ===== *)
theory Thread
  imports Format
begin

text \<open>
  Threads (include/CurrentThread.h, src/CurrentThread.cpp, include/Thread.h, src/Thread.cpp): the
  cached thread id, and the wrapper of \<open>std::thread\<close> with its default names. \<open>th_handle\<close> is the
  \<open>std::thread\<close> object: \<open>None\<close> before \<open>start\<close>, then whether it is joinable. Destroying a joinable
  one ends the process, joining one that is not throws. What the thread's function does is no part of it. Here each
  call is one step, and \<open>start\<close> takes the new thread's id; the theory ThreadStart has the semaphore
  and the new thread running beside the calls.
\<close>

section \<open>The cached thread id\<close>

text \<open>\<open>t_cachedTid\<close> is the calling thread's copy; \<open>gettid\<close> is the system call's answer.\<close>

definition cacheTid :: "tid \<Rightarrow> tid \<Rightarrow> tid" where
  "cacheTid gettid t_cachedTid = (if t_cachedTid = 0 then gettid else t_cachedTid)"

definition current_tid :: "tid \<Rightarrow> tid \<Rightarrow> tid \<times> tid" where
  "current_tid gettid t_cachedTid =
     (let t = (if t_cachedTid = 0 then cacheTid gettid t_cachedTid else t_cachedTid) in (t, t))"

section \<open>Thread objects\<close>

record thread =
  th_started :: bool
  th_joined :: bool
  th_handle :: "bool option"
  th_tid :: tid
  th_name :: string

text \<open>\<open>numCreated_\<close> is an \<open>std::atomic_int\<close>.\<close>

definition setDefaultName :: "32 word \<Rightarrow> thread \<Rightarrow> thread \<times> 32 word" where
  "setDefaultName numCreated t =
     (let num = numCreated + 1 in
      (if th_name t = [] then t\<lparr>th_name := snprintf 32 (''Thread'' @ fmt_d (sint num))\<rparr> else t, num))"

definition Thread_init :: "string \<Rightarrow> 32 word \<Rightarrow> thread \<times> 32 word" where
  "Thread_init name numCreated =
     setDefaultName numCreated \<lparr>th_started = False, th_joined = False, th_handle = None, th_tid = 0, th_name = name\<rparr>"

definition Thread_start :: "tid \<Rightarrow> thread \<Rightarrow> error + thread" where
  "Thread_start tid t =
     (if th_handle t = Some True then Inl Terminate
      else Inr (t\<lparr>th_started := True, th_handle := Some True, th_tid := tid\<rparr>))"

definition Thread_join :: "thread \<Rightarrow> error + thread" where
  "Thread_join t =
     (case th_handle t of
        None \<Rightarrow> Inl NullPointer
      | Some joinable \<Rightarrow> if joinable then Inr (t\<lparr>th_joined := True, th_handle := Some False\<rparr>) else Inl Terminate)"

definition Thread_destroy :: "thread \<Rightarrow> error + unit" where
  "Thread_destroy t =
     (let handle = (if th_started t \<and> \<not> th_joined t then Some False else th_handle t)
      in if handle = Some True then Inl Terminate else Inr ())"

section \<open>Lemmas and properties\<close>

datatype thread_op = StartThread tid | JoinThread

fun thread_step :: "thread_op \<Rightarrow> thread \<Rightarrow> error + thread" where
  "thread_step (StartThread i) t = Thread_start i t"
| "thread_step JoinThread t = Thread_join t"

fun starts :: "thread_op list \<Rightarrow> nat" where
  "starts [] = 0"
| "starts (StartThread i # ops) = Suc (starts ops)"
| "starts (JoinThread # ops) = starts ops"

lemma thread_run_ok:
  assumes "foldE thread_step ops t = Inr t'" and "starts ops \<le> (if th_started t then 0 else 1)"
    and "th_handle t = Some True \<longleftrightarrow> th_started t \<and> \<not> th_joined t" and "th_joined t \<Longrightarrow> th_started t"
    and "th_handle t = None \<longleftrightarrow> \<not> th_started t"
  shows "th_handle t' = Some True \<longleftrightarrow> th_started t' \<and> \<not> th_joined t'"
  using assms
proof (induction ops arbitrary: t)
  case (Cons a ops)
  then obtain t1 where t1: "thread_step a t = Inr t1" "foldE thread_step ops t1 = Inr t'" by auto
  show ?case
  proof (cases a)
    case (StartThread i)
    with t1 Cons.prems have "t1 = t\<lparr>th_started := True, th_handle := Some True, th_tid := i\<rparr>" "\<not> th_started t"
      by (auto simp: Thread_start_def split: if_splits)
    then show ?thesis using Cons.IH [OF t1(2)] Cons.prems StartThread by auto
  next
    case JoinThread
    with t1 Cons.prems have "t1 = t\<lparr>th_joined := True, th_handle := Some False\<rparr>" "th_started t"
      by (auto simp: Thread_join_def split: option.splits if_splits)
    then show ?thesis using Cons.IH [OF t1(2)] Cons.prems JoinThread by auto
  qed
qed simp

text \<open>Destroying a \<open>Thread\<close> never ends the process. Whatever calls of \<open>start\<close> and \<open>join\<close> came
  before, if they returned and \<open>start\<close> was called at most once, the destructor leaves no joinable
  \<open>std::thread\<close> behind.\<close>

lemma Thread_destroy_safe:
  assumes "foldE thread_step ops (fst (Thread_init name n)) = Inr t" and "starts ops \<le> 1"
  shows "Thread_destroy t = Inr ()"
proof -
  have "th_handle t = Some True \<longleftrightarrow> th_started t \<and> \<not> th_joined t"
    by (rule thread_run_ok [OF assms(1)])
      (use assms(2) in \<open>simp_all add: Thread_init_def setDefaultName_def Let_def split: if_splits\<close>)
  then show ?thesis by (auto simp: Thread_destroy_def)
qed

text \<open>Default names are the number of the thread in full.\<close>

lemma default_name:
  "th_name (fst (Thread_init [] n)) = ''Thread'' @ fmt_d (sint (n + 1))"
proof -
  have "length (fmt_d (sint (n + 1))) \<le> 11"
    using sint_ge [of "n + 1"] sint_lt [of "n + 1"] by (intro length_fmt_d_int) simp_all
  then show ?thesis by (simp add: Thread_init_def setDefaultName_def Let_def)
qed

text \<open>The cache answers with the system call's id and keeps it.\<close>

lemma current_tid_cached:
  "gettid \<noteq> 0 \<Longrightarrow> c \<in> {0, gettid} \<Longrightarrow> current_tid gettid c = (gettid, gettid)"
  by (auto simp: current_tid_def cacheTid_def Let_def)

end
