(* ===== verification/ThreadStart.thy ===== *)
theory ThreadStart
  imports Thread
begin

text \<open>
  \<open>Thread::start\<close>, \<open>join\<close> and the destructor with the new thread running beside them
  (include/Thread.h, src/Thread.cpp). The steps are the accesses to the shared members and the calls
  on the semaphore; \<open>rn_sem\<close> is the semaphore on the stack of \<open>start\<close>. The lambda of the new thread
  holds the address of the object: it stores \<open>tid_\<close>, posts, and then calls \<open>func_\<close>, which it reads from
  the object. What \<open>func_\<close> does is the step from \<open>InFunc\<close> to \<open>RunnerEnded\<close>.

  The calls of the theory Thread, which do all of this at once, are what the protocol amounts to.
\<close>

section \<open>State and steps\<close>

text \<open>Where the thread that owns the object is: the object constructed; in \<open>start\<close> with the new thread
  made and \<open>thread_\<close> not yet assigned, or in \<open>sem_wait\<close>; \<open>start\<close> returned; in \<open>join\<close>, returned from it;
  the object destroyed.\<close>

datatype owner_at = Constructed | Assigning | InWait | Started | InJoin | Joined | Destroyed

datatype runner_at = NotBorn | StoringTid | Posting | CallingFunc | InFunc | RunnerEnded | RunnerCrashed

record thread_conf =
  rn_object :: thread
  rn_sem :: nat
  rn_owner :: owner_at
  rn_child :: runner_at

definition thread_conf_init :: "thread \<Rightarrow> thread_conf" where
  "thread_conf_init t = \<lparr>rn_object = t, rn_sem = 0, rn_owner = Constructed, rn_child = NotBorn\<rparr>"

text \<open>\<open>gettid\<close> is the kernel's id of the new thread, whose cached id is still 0.\<close>

inductive thread_conf_step :: "tid \<Rightarrow> thread_conf \<Rightarrow> thread_conf \<Rightarrow> bool" for gettid where
  owner_start: "rn_owner r = Constructed \<Longrightarrow>
    thread_conf_step gettid r (r\<lparr>rn_object := (rn_object r)\<lparr>th_started := True\<rparr>, rn_sem := 0, rn_owner := Assigning, rn_child := StoringTid\<rparr>)"
| owner_assign: "rn_owner r = Assigning \<Longrightarrow>
    thread_conf_step gettid r (r\<lparr>rn_object := (rn_object r)\<lparr>th_handle := Some True\<rparr>, rn_owner := InWait\<rparr>)"
| owner_wait: "rn_owner r = InWait \<Longrightarrow> 0 < rn_sem r \<Longrightarrow>
    thread_conf_step gettid r (r\<lparr>rn_sem := rn_sem r - 1, rn_owner := Started\<rparr>)"
| owner_join: "rn_owner r = Started \<Longrightarrow>
    thread_conf_step gettid r (r\<lparr>rn_object := (rn_object r)\<lparr>th_joined := True\<rparr>, rn_owner := InJoin\<rparr>)"
| owner_joined: "rn_owner r = InJoin \<Longrightarrow> rn_child r = RunnerEnded \<Longrightarrow>
    thread_conf_step gettid r (r\<lparr>rn_object := (rn_object r)\<lparr>th_handle := Some False\<rparr>, rn_owner := Joined\<rparr>)"
| owner_destroy: "rn_owner r \<in> {Constructed, Started, Joined} \<Longrightarrow> Thread_destroy (rn_object r) = Inr () \<Longrightarrow>
    thread_conf_step gettid r (r\<lparr>rn_owner := Destroyed\<rparr>)"
| child_tid: "rn_child r = StoringTid \<Longrightarrow>
    thread_conf_step gettid r (r\<lparr>rn_object := (rn_object r)\<lparr>th_tid := fst (current_tid gettid 0)\<rparr>, rn_child := Posting\<rparr>)"
| child_post: "rn_child r = Posting \<Longrightarrow>
    thread_conf_step gettid r (r\<lparr>rn_sem := rn_sem r + 1, rn_child := CallingFunc\<rparr>)"
| child_call: "rn_child r = CallingFunc \<Longrightarrow> rn_owner r \<noteq> Destroyed \<Longrightarrow>
    thread_conf_step gettid r (r\<lparr>rn_child := InFunc\<rparr>)"
| child_dangling: "rn_child r = CallingFunc \<Longrightarrow> rn_owner r = Destroyed \<Longrightarrow>
    thread_conf_step gettid r (r\<lparr>rn_child := RunnerCrashed\<rparr>)"
| child_end: "rn_child r = InFunc \<Longrightarrow> thread_conf_step gettid r (r\<lparr>rn_child := RunnerEnded\<rparr>)"

inductive thread_conf_steps :: "tid \<Rightarrow> thread_conf \<Rightarrow> nat \<Rightarrow> thread_conf \<Rightarrow> bool" for gettid r0 where
  conf_none: "thread_conf_steps gettid r0 0 r0"
| conf_more: "thread_conf_steps gettid r0 n r \<Longrightarrow> thread_conf_step gettid r r' \<Longrightarrow> thread_conf_steps gettid r0 (Suc n) r'"

inductive_cases thread_conf_stepE: "thread_conf_step gettid r r'"

section \<open>The protocol\<close>

text \<open>What the object holds in terms of the two positions; \<open>t\<close> is the object before \<open>start\<close>.\<close>

fun owner_object :: "thread \<Rightarrow> owner_at \<Rightarrow> thread" where
  "owner_object t Constructed = t"
| "owner_object t Assigning = t\<lparr>th_started := True\<rparr>"
| "owner_object t InWait = t\<lparr>th_started := True, th_handle := Some True\<rparr>"
| "owner_object t Started = t\<lparr>th_started := True, th_handle := Some True\<rparr>"
| "owner_object t InJoin = t\<lparr>th_started := True, th_handle := Some True, th_joined := True\<rparr>"
| "owner_object t Joined = t\<lparr>th_started := True, th_handle := Some False, th_joined := True\<rparr>"
| "owner_object t Destroyed = t"

definition protocol :: "tid \<Rightarrow> thread \<Rightarrow> thread_conf \<Rightarrow> bool" where
  "protocol gettid t r \<longleftrightarrow>
     (rn_owner r \<noteq> Destroyed \<longrightarrow> rn_object r =
        (if rn_child r \<in> {NotBorn, StoringTid} then owner_object t (rn_owner r)
         else (owner_object t (rn_owner r))\<lparr>th_tid := gettid\<rparr>)) \<and>
     (rn_child r = NotBorn \<longrightarrow> rn_owner r \<in> {Constructed, Destroyed}) \<and> (rn_owner r = Constructed \<longrightarrow> rn_child r = NotBorn) \<and>
     (rn_child r \<in> {StoringTid, Posting} \<longrightarrow> rn_sem r = 0 \<and> rn_owner r \<in> {Assigning, InWait}) \<and>
     (rn_owner r \<in> {Assigning, InWait} \<and> rn_child r \<notin> {StoringTid, Posting} \<longrightarrow> rn_sem r = 1) \<and>
     (rn_owner r = Joined \<longrightarrow> rn_child r = RunnerEnded) \<and>
     (rn_child r = RunnerCrashed \<longrightarrow> rn_owner r = Destroyed \<and> \<not> th_joined (rn_object r)) \<and>
     (rn_owner r = Destroyed \<and> th_joined (rn_object r) \<longrightarrow> rn_child r = RunnerEnded)"

definition constructed :: "thread \<Rightarrow> bool" where
  "constructed t \<longleftrightarrow> \<not> th_started t \<and> \<not> th_joined t \<and> th_handle t = None"

lemma Thread_init_constructed: "constructed (fst (Thread_init name n))"
  by (simp add: constructed_def Thread_init_def setDefaultName_def Let_def)

lemma protocol_step:
  assumes "thread_conf_step gettid r r'" and "protocol gettid t r" and "constructed t"
  shows "protocol gettid t r'"
  using assms(1)
proof cases
  case owner_destroy
  then show ?thesis
    using assms(2,3) by (cases "rn_child r"; auto simp: protocol_def constructed_def)
qed (cases "rn_child r"; use assms(2,3) in \<open>simp add: protocol_def current_tid_def cacheTid_def constructed_def split: if_splits\<close>)+

lemma protocol_steps:
  assumes "constructed t"
  shows "thread_conf_steps gettid (thread_conf_init t) n r \<Longrightarrow> protocol gettid t r"
proof (induction rule: thread_conf_steps.induct)
  case conf_none
  then show ?case by (simp add: protocol_def thread_conf_init_def)
next
  case (conf_more n r r')
  then show ?case using protocol_step assms by blast
qed

text \<open>Every step goes forward.\<close>

fun owner_rank :: "owner_at \<Rightarrow> nat" where
  "owner_rank Constructed = 0" | "owner_rank Assigning = 1" | "owner_rank InWait = 2" | "owner_rank Started = 3"
| "owner_rank InJoin = 4" | "owner_rank Joined = 5" | "owner_rank Destroyed = 6"

fun runner_rank :: "runner_at \<Rightarrow> nat" where
  "runner_rank NotBorn = 0" | "runner_rank StoringTid = 1" | "runner_rank Posting = 2" | "runner_rank CallingFunc = 3"
| "runner_rank InFunc = 4" | "runner_rank RunnerEnded = 5" | "runner_rank RunnerCrashed = 5"

definition thread_rank :: "thread_conf \<Rightarrow> nat" where
  "thread_rank r = owner_rank (rn_owner r) + runner_rank (rn_child r)"

lemma thread_rank_bound: "thread_rank r \<le> 11"
  by (cases "rn_owner r"; cases "rn_child r") (simp_all add: thread_rank_def)

lemma thread_rank_step:
  assumes "thread_conf_step gettid r r'" and "protocol gettid t r"
  shows "thread_rank r < thread_rank r'"
  using assms(1)
proof cases
  case owner_destroy
  then show ?thesis by (auto simp: thread_rank_def)
qed (cases "rn_child r"; use assms(2) in \<open>simp add: thread_rank_def protocol_def\<close>)+

lemma thread_rank_steps:
  assumes "constructed t"
  shows "thread_conf_steps gettid (thread_conf_init t) n r \<Longrightarrow> n \<le> thread_rank r"
proof (induction rule: thread_conf_steps.induct)
  case (conf_more n r r')
  then show ?case using thread_rank_step [OF conf_more(2) protocol_steps [OF assms conf_more(1)]] by simp
qed simp

lemma thread_goes_on:
  assumes p: "protocol gettid t r" and t: "constructed t" and stuck: "\<And>r'. \<not> thread_conf_step gettid r r'"
  shows "rn_owner r = Destroyed \<and> rn_child r \<in> {NotBorn, RunnerEnded, RunnerCrashed}"
proof -
  have child: "rn_child r \<in> {NotBorn, RunnerEnded, RunnerCrashed}"
  proof -
    have "rn_child r \<noteq> StoringTid" using stuck child_tid by blast
    moreover have "rn_child r \<noteq> Posting" using stuck child_post by blast
    moreover have "rn_child r \<noteq> CallingFunc" using stuck child_call child_dangling by blast
    moreover have "rn_child r \<noteq> InFunc" using stuck child_end by blast
    ultimately show ?thesis by (cases "rn_child r") simp_all
  qed
  have obj: "rn_object r = (if rn_child r = NotBorn then owner_object t (rn_owner r) else (owner_object t (rn_owner r))\<lparr>th_tid := gettid\<rparr>)"
    if "rn_owner r \<noteq> Destroyed" using p child that by (cases "rn_child r") (simp_all add: protocol_def)
  have "rn_owner r = Destroyed"
  proof (rule ccontr)
    assume nd: "rn_owner r \<noteq> Destroyed"
    have d: "Thread_destroy (rn_object r) = Inr ()" if "rn_owner r \<in> {Constructed, Started, Joined}"
      using t that unfolding obj [OF nd] by (auto simp: Thread_destroy_def constructed_def)
    have "rn_owner r \<notin> {Constructed, Started, Joined}" using stuck owner_destroy d by blast
    moreover have "rn_owner r \<noteq> Assigning" using stuck owner_assign by blast
    moreover have "rn_owner r \<noteq> InWait"
    proof
      assume w: "rn_owner r = InWait"
      then have "0 < rn_sem r" using p child by (cases "rn_child r"; simp add: protocol_def)
      from owner_wait [OF w this] show False using stuck by blast
    qed
    moreover have "rn_owner r \<noteq> InJoin"
    proof
      assume j: "rn_owner r = InJoin"
      then have "rn_child r = RunnerEnded" using p child by (cases "rn_child r"; simp add: protocol_def)
      then show False using stuck owner_joined j by blast
    qed
    ultimately show False using nd by (cases "rn_owner r") simp_all
  qed
  then show ?thesis using child by simp
qed

section \<open>A run as far as the return of \<open>start\<close>\<close>

definition started_run :: "tid \<Rightarrow> thread \<Rightarrow> thread_conf" where
  "started_run gettid t = \<lparr>rn_object = t\<lparr>th_started := True, th_handle := Some True, th_tid := gettid\<rparr>,
     rn_sem = 0, rn_owner = Started, rn_child = CallingFunc\<rparr>"

lemma started_steps: "thread_conf_steps gettid (thread_conf_init t) 5 (started_run gettid t)"
proof -
  let ?r1 = "\<lparr>rn_object = t\<lparr>th_started := True\<rparr>, rn_sem = 0, rn_owner = Assigning, rn_child = StoringTid\<rparr>"
  let ?r2 = "?r1\<lparr>rn_object := (rn_object ?r1)\<lparr>th_handle := Some True\<rparr>, rn_owner := InWait\<rparr>"
  let ?r3 = "?r2\<lparr>rn_object := (rn_object ?r2)\<lparr>th_tid := fst (current_tid gettid 0)\<rparr>, rn_child := Posting\<rparr>"
  let ?r4 = "?r3\<lparr>rn_sem := rn_sem ?r3 + 1, rn_child := CallingFunc\<rparr>"
  let ?r5 = "?r4\<lparr>rn_sem := rn_sem ?r4 - 1, rn_owner := Started\<rparr>"
  have 1: "thread_conf_step gettid (thread_conf_init t) ?r1"
    using owner_start [of "thread_conf_init t" gettid] by (simp add: thread_conf_init_def)
  have 2: "thread_conf_step gettid ?r1 ?r2" by (rule owner_assign) simp
  have 3: "thread_conf_step gettid ?r2 ?r3" by (rule child_tid) simp
  have 4: "thread_conf_step gettid ?r3 ?r4" by (rule child_post) simp
  have 5: "thread_conf_step gettid ?r4 ?r5" by (rule owner_wait) simp_all
  have "?r5 = started_run gettid t" by (simp add: started_run_def current_tid_def cacheTid_def Let_def)
  with conf_more [OF conf_more [OF conf_more [OF conf_more [OF conf_more [OF conf_none 1] 2] 3] 4] 5]
  show ?thesis by (simp add: eval_nat_numeral)
qed

section \<open>Properties\<close>

text \<open>C27: When \<open>start\<close> returns the new thread has stored its id and posted, whatever the order of the
  steps, and the object is as the call of the theory Thread leaves it; when \<open>join\<close> returns the
  function has run to its end; and the thread meets a destroyed object only if nobody joined it.\<close>

theorem start_returns_tid:
  assumes "thread_conf_steps gettid (thread_conf_init (fst (Thread_init name k))) n r"
  shows "(rn_owner r = Started \<longrightarrow> Thread_start gettid (fst (Thread_init name k)) = Inr (rn_object r) \<and>
       th_tid (rn_object r) = gettid \<and> rn_child r \<in> {CallingFunc, InFunc, RunnerEnded}) \<and>
    (rn_owner r = Joined \<longrightarrow> bindE (Thread_start gettid (fst (Thread_init name k))) Thread_join = Inr (rn_object r) \<and>
       rn_child r = RunnerEnded) \<and>
    (rn_child r = RunnerCrashed \<longrightarrow> \<not> th_joined (rn_object r))"
proof -
  let ?t = "fst (Thread_init name k)"
  note c = Thread_init_constructed [of name k] and p = protocol_steps [OF Thread_init_constructed assms]
  show ?thesis
    using c p by (cases "rn_child r"; simp add: protocol_def constructed_def Thread_start_def Thread_join_def) auto
qed

theorem start_returns_tid_witness:
  "Thread_start 7 (fst (Thread_init ''io'' 0)) = Inr (rn_object (started_run 7 (fst (Thread_init ''io'' 0))))"
  using start_returns_tid [OF started_steps [of 7 "fst (Thread_init ''io'' 0)"]] by (simp add: started_run_def)

text \<open>C28: The protocol never blocks for good: a run has at most eleven steps, and when no step is left
  the object has been destroyed and the new thread, if there is one, is done.\<close>

theorem start_never_blocks:
  assumes "thread_conf_steps gettid (thread_conf_init (fst (Thread_init name k))) n r"
  shows "n \<le> 11 \<and> ((\<exists>r'. thread_conf_step gettid r r') \<or>
    rn_owner r = Destroyed \<and> rn_child r \<in> {NotBorn, RunnerEnded, RunnerCrashed})"
  using thread_rank_steps [OF Thread_init_constructed assms] thread_rank_bound [of r]
    thread_goes_on [OF protocol_steps [OF Thread_init_constructed assms] Thread_init_constructed] by auto

theorem start_never_blocks_witness:
  "\<exists>r'. thread_conf_step 7 (started_run 7 (fst (Thread_init ''io'' 0))) r'"
  using start_never_blocks [OF started_steps [of 7 "fst (Thread_init ''io'' 0)"]] by (simp add: started_run_def)

text \<open>C30: A detached thread can use the freed object: \<open>start\<close> returns before the new thread has read
  \<open>func_\<close>, the destructor detaches it, and the thread then reads \<open>func_\<close> of an object that is gone.\<close>

theorem detached_thread_dangles:
  "\<exists>r. thread_conf_steps gettid (thread_conf_init (fst (Thread_init name k))) 7 r \<and>
    rn_owner r = Destroyed \<and> rn_child r = RunnerCrashed"
proof -
  let ?t = "fst (Thread_init name k)"
  let ?r6 = "(started_run gettid ?t)\<lparr>rn_owner := Destroyed\<rparr>"
  have 6: "thread_conf_step gettid (started_run gettid ?t) ?r6"
    by (rule owner_destroy) (simp_all add: Thread_destroy_def started_run_def Thread_init_def setDefaultName_def Let_def)
  have 7: "thread_conf_step gettid ?r6 (?r6\<lparr>rn_child := RunnerCrashed\<rparr>)"
    by (rule child_dangling) (simp_all add: started_run_def)
  from conf_more [OF conf_more [OF started_steps 6] 7]
  show ?thesis by (intro exI [of _ "?r6\<lparr>rn_child := RunnerCrashed\<rparr>"]) (simp add: eval_nat_numeral)
qed

end
