(* ===== verification/LoopQuit.thy ===== *)
theory LoopQuit
  imports LoopThreads
begin

text \<open>
  What becomes of the queued functors when another thread calls \<open>quit\<close> (src/EventLoop.cpp: \<open>loop\<close>,
  \<open>quit\<close>, \<open>queueInLoop\<close>). The flag is tested at the top of a round, the queue is taken at its end. A
  functor that finds the loop inside a round is taken at the end of that round, flag or no flag; one
  that comes between the taking and the test is left in the queue for ever when \<open>quit\<close> follows it.
\<close>

abbreviation waiting :: "('f, 'k) conf \<Rightarrow> 'f list" where
  "waiting c \<equiv> el_pendingFunctors (st_loop (cf_st c))"

text \<open>Between the test of \<open>quit_\<close> and the swap of the queue.\<close>

definition before_swap :: "'f loop_pc \<Rightarrow> bool" where
  "before_swap pc \<longleftrightarrow> pc = InPoll \<or> (\<exists>ps. pc = Dispatching ps)"

lemma queueInLoop_waiting: "el_pendingFunctors (st_loop (queueInLoop S f s)) = el_pendingFunctors (st_loop s) @ [f]"
  by (simp add: queueInLoop_def push_functor_def Let_def)

lemma quit_waiting: "el_pendingFunctors (st_loop (quit S s)) = el_pendingFunctors (st_loop s)"
  by (simp add: quit_def Let_def)

lemma handle_wakeup_waiting:
  "handle_wakeup S t s = Inr s' \<Longrightarrow> el_pendingFunctors (st_loop s') = el_pendingFunctors (st_loop s)"
  by (auto simp: handle_wakeup_def handleEvent_def handleEventWithGuard_def wakeup_callbacks_def call_def handleRead_def
      split: if_splits option.splits)

lemma own_step_waiting: "own_step S cnt l c c' \<Longrightarrow> cf_pc c' = cf_pc c \<and> set (waiting c) \<subseteq> set (waiting c')"
  by (erule own_step.cases) (auto simp: queueInLoop_waiting quit_waiting)

lemma before_swap_step:
  assumes doc: "eventfd_doc S cnt w" and st: "step S cnt l c c'" and "before_swap (cf_pc c)" and "f \<in> set (waiting c)"
  shows "before_swap (cf_pc c') \<and> f \<in> set (waiting c') \<or> (\<exists>fs. cf_pc c' = Draining fs \<and> f \<in> set fs)"
  using st assms(3,4)
proof cases
  case (poll_return s')
  then show ?thesis using loop_poll_same [OF doc, of "cf_st c"] assms(4) by (simp add: before_swap_def same_queue_def)
next
  case own
  then show ?thesis using own_step_waiting [OF own(2)] assms(3,4) by auto
qed (auto simp: before_swap_def set_quit_def dest: handle_wakeup_waiting)

lemma taken_before_end:
  assumes doc: "eventfd_doc S cnt w"
  shows "steps S cnt c ls c' \<Longrightarrow> before_swap (cf_pc c) \<Longrightarrow> f \<in> set (waiting c) \<Longrightarrow>
    before_swap (cf_pc c') \<and> f \<in> set (waiting c') \<or>
    (\<exists>ls1 ls2 c1 fs. ls = ls1 @ ls2 \<and> steps S cnt c ls1 c1 \<and> steps S cnt c1 ls2 c' \<and> cf_pc c1 = Draining fs \<and> f \<in> set fs)"
proof (induction rule: steps.induct)
  case (steps_step c ls c1 l c2)
  from steps_step.IH [OF steps_step.prems] show ?case
  proof
    assume now: "before_swap (cf_pc c1) \<and> f \<in> set (waiting c1)"
    then consider "before_swap (cf_pc c2) \<and> f \<in> set (waiting c2)" | fs where "cf_pc c2 = Draining fs" "f \<in> set fs"
      using before_swap_step [OF doc steps_step.hyps(2)] by blast
    then show ?thesis
    proof cases
      case 2
      have "steps S cnt c (ls @ [l]) c2" by (rule steps.steps_step [OF steps_step.hyps])
      then show ?thesis using 2 steps_refl by (metis append_Nil2)
    qed blast
  next
    assume "\<exists>ls1 ls2 c0 fs. ls = ls1 @ ls2 \<and> steps S cnt c ls1 c0 \<and> steps S cnt c0 ls2 c1 \<and> cf_pc c0 = Draining fs \<and> f \<in> set fs"
    then show ?thesis using steps.steps_step [OF _ steps_step.hyps(2)] by (metis append_assoc)
  qed
qed simp

lemma left_behind_step:
  assumes "step S cnt l c c'" and "cf_pc c \<in> {AtTop, Finished}" and "el_quit (st_loop (cf_st c))" and "f \<in> set (waiting c)"
  shows "cf_pc c' \<in> {AtTop, Finished} \<and> el_quit (st_loop (cf_st c')) \<and> f \<in> set (waiting c')"
  using assms by cases (auto simp: in_user_code_def set_quit_def set_looping_def)

lemma left_behind:
  "steps S cnt c ls c' \<Longrightarrow> cf_pc c \<in> {AtTop, Finished} \<Longrightarrow> el_quit (st_loop (cf_st c)) \<Longrightarrow> f \<in> set (waiting c) \<Longrightarrow>
    cf_pc c' \<in> {AtTop, Finished} \<and> el_quit (st_loop (cf_st c')) \<and> f \<in> set (waiting c')"
proof (induction rule: steps.induct)
  case (steps_step c ls c1 l c2)
  then show ?case using left_behind_step [OF steps_step.hyps(2)] by blast
qed simp

section \<open>Property\<close>

text \<open>C32: The fate of a queued functor when the loop is told to quit. If the loop's thread is inside a round,
  before the taking of the queue, when the functor is in the queue, then the loop does not end without having taken it,
  whenever \<open>quit\<close> is called. But if the round's queue had been taken already and the loop is about to test
  \<open>quit_\<close>, which is set, then the functor stays in the queue for ever: it never runs, whatever happens.\<close>

theorem functors_and_quit:
  assumes "eventfd_doc S cnt w" and "f \<in> set (waiting c)" and "steps S cnt c ls c'"
  shows "(before_swap (cf_pc c) \<and> cf_pc c' = Finished \<longrightarrow>
      (\<exists>ls1 ls2 c1 fs. ls = ls1 @ ls2 \<and> steps S cnt c ls1 c1 \<and> steps S cnt c1 ls2 c' \<and> cf_pc c1 = Draining fs \<and> f \<in> set fs)) \<and>
    (cf_pc c = AtTop \<and> el_quit (st_loop (cf_st c)) \<longrightarrow> cf_pc c' \<in> {AtTop, Finished} \<and> f \<in> set (waiting c'))"
  using taken_before_end [OF assms(1,3)] left_behind [OF assms(3)] assms(2) by (auto simp: before_swap_def)

text \<open>The loop is at the top of a round; another thread queues a functor and calls \<open>quit\<close>; the loop ends.\<close>

theorem functors_and_quit_witness:
  "\<exists>ls c c' :: (nat, nat) conf. steps counter_sys id (conf_init sample_st) ls c \<and> cf_pc c = AtTop \<and>
     steps counter_sys id c [OtherLabel] c' \<and> cf_pc c' = Finished \<and> 7 \<in> set (waiting c')"
proof -
  let ?c0 = "conf_init sample_st :: (nat, nat) conf"
  let ?c1 = "?c0\<lparr>cf_st := set_quit False (set_looping True (cf_st ?c0)), cf_pc := AtTop\<rparr>"
  let ?c2 = "?c1\<lparr>cf_st := push_functor 7 (cf_st ?c1), cf_flight := cf_flight ?c1 + 1\<rparr>"
  let ?c3 = "?c2\<lparr>cf_st := set_quit True (cf_st ?c2), cf_flight := cf_flight ?c2 + 1\<rparr>"
  let ?c4 = "?c3\<lparr>cf_st := set_looping False (cf_st ?c3), cf_pc := Finished\<rparr>"
  have 1: "step counter_sys id EnterLabel ?c0 ?c1" by (rule enter) (simp add: conf_init_def)
  have 2: "step counter_sys id OtherLabel ?c1 ?c2" by (rule other_push)
  have 3: "step counter_sys id QuitLabel ?c2 ?c3" by (rule other_quit)
  have 4: "step counter_sys id OtherLabel ?c3 ?c4" by (rule leave) (simp_all add: set_quit_def)
  have run: "steps counter_sys id ?c0 ((([] @ [EnterLabel]) @ [OtherLabel]) @ [QuitLabel]) ?c3"
    by (rule steps_step [OF steps_step [OF steps_step [OF steps_refl 1] 2] 3])
  have last: "steps counter_sys id ?c3 [OtherLabel] ?c4" using steps_step [OF steps_refl 4] by simp
  have q: "7 \<in> set (waiting ?c3)" by (simp add: set_quit_def push_functor_def)
  have e: "cf_pc ?c3 = AtTop" "el_quit (st_loop (cf_st ?c3))" by (simp_all add: set_quit_def)
  from functors_and_quit [OF counter_eventfd_doc q last] e
  have "7 \<in> set (waiting ?c4)" by blast
  then show ?thesis using run last e(1) by (intro exI [of _ ?c3] exI [of _ ?c4] exI) auto
qed

end
