(* ===== verification/Buffer.thy ===== *)
theory Buffer
  imports SimKernel
begin

text \<open>
  The byte buffer (include/Buffer.h, src/Buffer.cpp). The vector \<open>buffer_\<close> is the list
  \<open>buf_data\<close>, the two indices are \<open>size_t\<close> words and all index arithmetic is the code's, with its
  wrap-around. Touching memory outside the vector is the error \<open>OutOfBounds\<close>, a \<open>resize\<close> beyond
  \<open>max_size()\<close> is \<open>LengthError\<close>. \<open>readable\<close> is the abstract value: the bytes between the two
  indices. A failing allocation (\<open>std::bad_alloc\<close>) is not modelled.
\<close>

section \<open>The state and the vector under it\<close>

record buffer =
  buf_data :: "byte list"
  buf_reader :: size_t
  buf_writer :: size_t

definition kCheapPrepend :: size_t where "kCheapPrepend = 8"
definition kInitialSize :: size_t where "kInitialSize = 1024"

text \<open>\<open>std::vector<char>::max_size()\<close> on a 64-bit target.\<close>

definition vector_max :: nat where "vector_max = 9223372036854775807"

definition vector_size :: "byte list \<Rightarrow> size_t" where
  "vector_size xs = of_nat (length xs)"

definition vector_resize :: "byte list \<Rightarrow> size_t \<Rightarrow> error + byte list" where
  "vector_resize xs n =
     (if vector_max < unat n then Inl LengthError
      else Inr (take (unat n) xs @ replicate (unat n - length xs) 0))"

text \<open>
  \<open>std::copy\<close> from \<open>[lo, hi)\<close> to \<open>dst\<close> inside one vector; undefined when the destination
  starts inside the source range.
\<close>

definition copy_within :: "byte list \<Rightarrow> nat \<Rightarrow> nat \<Rightarrow> nat \<Rightarrow> error + byte list" where
  "copy_within xs lo hi dst =
     (if lo \<le> hi \<and> hi \<le> length xs \<and> dst + (hi - lo) \<le> length xs \<and> \<not> (lo \<le> dst \<and> dst < hi)
      then Inr (take dst xs @ take (hi - lo) (drop lo xs) @ drop (dst + (hi - lo)) xs)
      else Inl OutOfBounds)"

text \<open>\<open>std::copy\<close> of outside data to position \<open>pos\<close> of the vector.\<close>

definition copy_in :: "byte list \<Rightarrow> nat \<Rightarrow> byte list \<Rightarrow> error + byte list" where
  "copy_in xs pos d =
     (if pos + length d \<le> length xs then Inr (take pos xs @ d @ drop (pos + length d) xs)
      else Inl OutOfBounds)"

section \<open>Operations\<close>

definition Buffer_init :: "size_t \<Rightarrow> error + buffer" where
  "Buffer_init initialSize =
     bindE (vector_resize [] (kCheapPrepend + initialSize)) (\<lambda>xs.
     Inr \<lparr>buf_data = xs, buf_reader = kCheapPrepend, buf_writer = kCheapPrepend\<rparr>)"

definition readableBytes :: "buffer \<Rightarrow> size_t" where
  [buffer_defs]: "readableBytes b = buf_writer b - buf_reader b"

definition writableBytes :: "buffer \<Rightarrow> size_t" where
  [buffer_defs]: "writableBytes b = vector_size (buf_data b) - buf_writer b"

definition prependableBytes :: "buffer \<Rightarrow> size_t" where
  [buffer_defs]: "prependableBytes b = buf_reader b"

text \<open>The \<open>len\<close> bytes at \<open>peek()\<close>.\<close>

definition peek :: "buffer \<Rightarrow> size_t \<Rightarrow> error + byte list" where
  "peek b len =
     (if unat (buf_reader b) + unat len \<le> length (buf_data b)
      then Inr (take (unat len) (drop (unat (buf_reader b)) (buf_data b)))
      else Inl OutOfBounds)"

definition retrieveAll :: "buffer \<Rightarrow> buffer" where
  "retrieveAll b = b\<lparr>buf_reader := kCheapPrepend, buf_writer := kCheapPrepend\<rparr>"

definition retrieve :: "size_t \<Rightarrow> buffer \<Rightarrow> buffer" where
  "retrieve len b =
     (if len < readableBytes b then b\<lparr>buf_reader := buf_reader b + len\<rparr> else retrieveAll b)"

definition retrieveAsString :: "size_t \<Rightarrow> buffer \<Rightarrow> error + (byte list \<times> buffer)" where
  "retrieveAsString len b = bindE (peek b len) (\<lambda>result. Inr (result, retrieve len b))"

definition retrieveAllAsString :: "buffer \<Rightarrow> error + (byte list \<times> buffer)" where
  "retrieveAllAsString b = retrieveAsString (readableBytes b) b"

definition makeSpace :: "size_t \<Rightarrow> buffer \<Rightarrow> error + buffer" where
  "makeSpace len b =
     (if writableBytes b + prependableBytes b < len + kCheapPrepend
      then bindE (vector_resize (buf_data b) (buf_writer b + len)) (\<lambda>xs. Inr (b\<lparr>buf_data := xs\<rparr>))
      else let readable = readableBytes b in
        bindE (copy_within (buf_data b) (unat (buf_reader b)) (unat (buf_writer b))
                 (unat kCheapPrepend)) (\<lambda>xs.
        Inr (b\<lparr>buf_data := xs, buf_reader := kCheapPrepend,
               buf_writer := kCheapPrepend + readable\<rparr>)))"

definition ensureWritableBytes :: "size_t \<Rightarrow> buffer \<Rightarrow> error + buffer" where
  "ensureWritableBytes len b = (if writableBytes b < len then makeSpace len b else Inr b)"

text \<open>\<open>append(data, len)\<close> with \<open>d\<close> the \<open>len\<close> bytes at \<open>data\<close>.\<close>

definition append_buf :: "byte list \<Rightarrow> buffer \<Rightarrow> error + buffer" where
  "append_buf d b =
     bindE (ensureWritableBytes (vector_size d) b) (\<lambda>b.
     bindE (copy_in (buf_data b) (unat (buf_writer b)) d) (\<lambda>xs.
     Inr (b\<lparr>buf_data := xs, buf_writer := buf_writer b + vector_size d\<rparr>)))"

definition extrabuf_size :: nat where "extrabuf_size = 65536"

text \<open>
  \<open>readFd\<close>: the two buffers given to \<open>readv\<close> are the writable region and \<open>extrabuf\<close>; the bytes
  the kernel returns fill the first, then the second. The value is \<open>n\<close> (or the saved errno).
\<close>

definition readFd_iov :: "buffer \<Rightarrow> nat list" where
  "readFd_iov b =
     (if unat (writableBytes b) < extrabuf_size then [unat (writableBytes b), extrabuf_size]
      else [unat (writableBytes b)])"

definition readFd :: "'k sys \<Rightarrow> fd \<Rightarrow> buffer \<Rightarrow> 'k \<Rightarrow> error + (nat io \<times> buffer \<times> 'k)" where
  "readFd S f b k =
     (let writable = unat (writableBytes b) in
      case sys_readv S f (readFd_iov b) k of
        (Fail e, k) \<Rightarrow> Inr (Fail e, b, k)
      | (Done d, k) \<Rightarrow>
          bindE (copy_in (buf_data b) (unat (buf_writer b)) (take writable d)) (\<lambda>xs.
          let b = b\<lparr>buf_data := xs\<rparr> in
          if length d \<le> writable
          then Inr (Done (length d), b\<lparr>buf_writer := buf_writer b + of_nat (length d)\<rparr>, k)
          else bindE (append_buf (drop writable d) (b\<lparr>buf_writer := vector_size (buf_data b)\<rparr>)) (\<lambda>b.
               Inr (Done (length d), b, k))))"

definition writeFd :: "'k sys \<Rightarrow> fd \<Rightarrow> buffer \<Rightarrow> 'k \<Rightarrow> error + (nat io \<times> 'k)" where
  "writeFd S f b k = bindE (peek b (readableBytes b)) (\<lambda>d. Inr (sys_write S f d k))"

section \<open>Invariant and abstract value\<close>

definition buffer_ok :: "buffer \<Rightarrow> bool" where
  "buffer_ok b \<longleftrightarrow> 8 \<le> unat (buf_reader b) \<and> unat (buf_reader b) \<le> unat (buf_writer b) \<and>
     unat (buf_writer b) \<le> length (buf_data b) \<and> length (buf_data b) \<le> vector_max"

definition readable :: "buffer \<Rightarrow> byte list" where
  "readable b = take (unat (buf_writer b) - unat (buf_reader b))
                  (drop (unat (buf_reader b)) (buf_data b))"

text \<open>A block of memory the code can name: no C++ object is longer than \<open>PTRDIFF_MAX\<close>.\<close>

definition memory_block :: "byte list \<Rightarrow> bool" where
  "memory_block d \<longleftrightarrow> length d \<le> vector_max"

section \<open>Reading the indices as numbers\<close>

lemmas buffer_consts = kCheapPrepend_def kInitialSize_def vector_max_def extrabuf_size_def

lemma unat_vector_size [size_arith]:
  "length xs \<le> vector_max \<Longrightarrow> unat (vector_size xs) = length xs"
  by (simp add: vector_size_def vector_max_def unat_of_nat_size)

lemma unat_readableBytes:
  "buffer_ok b \<Longrightarrow> unat (readableBytes b) = unat (buf_writer b) - unat (buf_reader b)"
  by (simp add: buffer_ok_def readableBytes_def unat_sub_size)

lemma unat_writableBytes:
  "buffer_ok b \<Longrightarrow> unat (writableBytes b) = length (buf_data b) - unat (buf_writer b)"
  by (simp add: buffer_ok_def writableBytes_def unat_sub_size unat_vector_size)

lemma length_readable: "buffer_ok b \<Longrightarrow> length (readable b) = unat (readableBytes b)"
  by (auto simp: unat_readableBytes readable_def buffer_ok_def)

lemma readable_bound: "buffer_ok b \<Longrightarrow> length (readable b) \<le> vector_max - 8"
  by (auto simp: readable_def buffer_ok_def)

lemma readableBytes_0_iff: "buffer_ok b \<Longrightarrow> readableBytes b = 0 \<longleftrightarrow> readable b = []"
  by (metis length_0_conv length_readable unat_eq_zero)

lemma readable_cases_size: "buffer_ok b \<Longrightarrow> vector_size (readable b) = readableBytes b"
  by (simp add: vector_size_def length_readable)

section \<open>Each operation keeps the invariant and does what it says\<close>

lemma Buffer_init_ok:
  assumes "unat n + 8 \<le> vector_max"
  shows "\<exists>b. Buffer_init n = Inr b \<and> buffer_ok b \<and> readable b = [] \<and> writableBytes b = n"
proof -
  have n: "unat (8 + n) = 8 + unat n"
    using assms by (simp add: unat_add_size vector_max_def)
  then show ?thesis
    using assms
    by (simp add: Buffer_init_def vector_resize_def kCheapPrepend_def buffer_ok_def readable_def
        writableBytes_def vector_size_def)
qed

lemma retrieveAll_ok: "buffer_ok b \<Longrightarrow> buffer_ok (retrieveAll b)"
  by (auto simp: retrieveAll_def buffer_ok_def kCheapPrepend_def)

lemma readable_retrieveAll [simp]: "readable (retrieveAll b) = []"
  by (simp add: retrieveAll_def readable_def)

lemma retrieve_ok:
  assumes "buffer_ok b"
  shows "buffer_ok (retrieve n b)" and "readable (retrieve n b) = drop (unat n) (readable b)"
proof -
  have r: "unat (buf_reader b + n) = unat (buf_reader b) + unat n" if "n < readableBytes b"
  proof (rule unat_add_size)
    have "unat n < unat (buf_writer b) - unat (buf_reader b)"
      using that assms by (simp add: size_less_iff unat_readableBytes)
    then show "unat (buf_reader b) + unat n < 18446744073709551616"
      using assms unfolding buffer_ok_def vector_max_def by linarith
  qed
  show "buffer_ok (retrieve n b)"
  proof (cases "n < readableBytes b")
    case True
    with r assms show ?thesis
      by (auto simp: retrieve_def buffer_ok_def size_less_iff unat_readableBytes)
  qed (use assms in \<open>simp add: retrieve_def retrieveAll_ok\<close>)
  show "readable (retrieve n b) = drop (unat n) (readable b)"
  proof (cases "n < readableBytes b")
    case True
    with r assms show ?thesis
      by (simp add: retrieve_def readable_def drop_take add.commute)
  next
    case False
    then have "length (readable b) \<le> unat n"
      using assms by (simp add: length_readable size_less_iff)
    with False show ?thesis by (simp add: retrieve_def)
  qed
qed

lemma peek_ok:
  assumes "buffer_ok b" and "unat n \<le> unat (readableBytes b)"
  shows "peek b n = Inr (take (unat n) (readable b))"
  using assms by (auto simp: peek_def readable_def unat_readableBytes buffer_ok_def min_def)

lemma peek_all: "buffer_ok b \<Longrightarrow> peek b (readableBytes b) = Inr (readable b)"
  by (simp add: peek_ok length_readable [symmetric])

lemma retrieveAsString_ok:
  assumes "buffer_ok b" and "unat n \<le> unat (readableBytes b)"
  shows "retrieveAsString n b = Inr (take (unat n) (readable b), retrieve n b)"
  using assms by (simp add: retrieveAsString_def peek_ok)

lemma retrieveAllAsString_ok:
  assumes "buffer_ok b"
  shows "retrieveAllAsString b = Inr (readable b, retrieveAll b)"
  using assms
  by (simp add: retrieveAllAsString_def retrieveAsString_def peek_all retrieve_def)

text \<open>Moving the readable bytes down keeps them.\<close>

lemma copy_within_down:
  assumes "dst < lo" and "lo \<le> hi" and "hi \<le> length xs"
  shows "\<exists>ys. copy_within xs lo hi dst = Inr ys \<and> length ys = length xs \<and>
     take (hi - lo) (drop dst ys) = take (hi - lo) (drop lo xs)"
  using assms by (auto simp: copy_within_def)

lemma makeSpace_ok:
  assumes ok: "buffer_ok b" and len: "unat len \<le> vector_max" and small: "writableBytes b < len"
  shows "holdsE (\<lambda>e. e = LengthError)
     (\<lambda>b'. buffer_ok b' \<and> readable b' = readable b \<and> len \<le> writableBytes b') (makeSpace len b)"
proof -
  let ?r = "unat (buf_reader b)" and ?w = "unat (buf_writer b)" and ?n = "length (buf_data b)"
  have rwn: "8 \<le> ?r" "?r \<le> ?w" "?w \<le> ?n" "?n \<le> vector_max"
    using ok by (auto simp: buffer_ok_def)
  have wr: "unat (writableBytes b) = ?n - ?w"
    using ok by (rule unat_writableBytes)
  have less: "?n - ?w < unat len"
    using small wr by (simp add: size_less_iff)
  have test: "writableBytes b + prependableBytes b < len + kCheapPrepend \<longleftrightarrow>
      (?n - ?w) + ?r < unat len + 8"
  proof -
    have "unat (writableBytes b + prependableBytes b) = (?n - ?w) + ?r"
      using rwn wr by (simp add: prependableBytes_def unat_add_size vector_max_def)
    moreover have "unat (len + kCheapPrepend) = unat len + 8"
      using len by (simp add: kCheapPrepend_def unat_add_size vector_max_def)
    ultimately show ?thesis by (simp add: size_less_iff)
  qed
  show ?thesis
  proof (cases "(?n - ?w) + ?r < unat len + 8")
    case True
    have s: "unat (buf_writer b + len) = ?w + unat len"
      using rwn len by (simp add: unat_add_size vector_max_def)
    show ?thesis
    proof (cases "vector_max < ?w + unat len")
      case True
      then show ?thesis
        using test \<open>(?n - ?w) + ?r < unat len + 8\<close> s by (simp add: makeSpace_def vector_resize_def)
    next
      case False
      let ?b = "b\<lparr>buf_data := buf_data b @ replicate (?w + unat len - ?n) 0\<rparr>"
      have m: "makeSpace len b = Inr ?b"
        using test \<open>(?n - ?w) + ?r < unat len + 8\<close> s False less rwn
        by (simp add: makeSpace_def vector_resize_def)
      have l: "length (buf_data ?b) = ?w + unat len"
        using less rwn by simp
      then have "buffer_ok ?b"
        using rwn False l by (simp add: buffer_ok_def)
      moreover have "readable ?b = readable b"
        using rwn by (simp add: readable_def)
      moreover have "len \<le> writableBytes ?b"
        using l \<open>buffer_ok ?b\<close> by (simp add: size_le_iff unat_writableBytes)
      ultimately show ?thesis by (simp add: m)
    qed
  next
    case False
    then have "8 < ?r" using less by simp
    then obtain ys where ys: "copy_within (buf_data b) ?r ?w 8 = Inr ys" "length ys = ?n"
        "take (?w - ?r) (drop 8 ys) = take (?w - ?r) (drop ?r (buf_data b))"
      using copy_within_down rwn by blast
    have w: "unat (8 + readableBytes b) = 8 + (?w - ?r)"
      using ok rwn by (simp add: unat_add_size unat_readableBytes vector_max_def)
    let ?b = "b\<lparr>buf_data := ys, buf_reader := 8, buf_writer := 8 + readableBytes b\<rparr>"
    have "makeSpace len b = Inr ?b"
      using test False ys by (simp add: makeSpace_def Let_def kCheapPrepend_def)
    moreover have ok': "buffer_ok ?b"
      using rwn ys(2) w \<open>8 < ?r\<close> unfolding buffer_ok_def by simp linarith
    moreover have "readable ?b = readable b"
      using ys w by (simp add: readable_def)
    moreover have "len \<le> writableBytes ?b"
      using False ok' w ys rwn by (simp add: size_le_iff unat_writableBytes)
    ultimately show ?thesis by simp
  qed
qed

lemma ensureWritableBytes_ok:
  assumes "buffer_ok b" and "unat len \<le> vector_max"
  shows "holdsE (\<lambda>e. e = LengthError)
     (\<lambda>b'. buffer_ok b' \<and> readable b' = readable b \<and> len \<le> writableBytes b')
     (ensureWritableBytes len b)"
  using makeSpace_ok [OF assms] assms by (auto simp: ensureWritableBytes_def)

text \<open>Writing behind the readable bytes and moving the write index appends.\<close>

lemma copy_in_writer:
  assumes ok: "buffer_ok b" and fits: "length d \<le> unat (writableBytes b)"
  shows "\<exists>xs. copy_in (buf_data b) (unat (buf_writer b)) d = Inr xs \<and>
     buffer_ok (b\<lparr>buf_data := xs\<rparr>) \<and> length xs = length (buf_data b) \<and>
     buffer_ok (b\<lparr>buf_data := xs, buf_writer := buf_writer b + vector_size d\<rparr>) \<and>
     readable (b\<lparr>buf_data := xs, buf_writer := buf_writer b + vector_size d\<rparr>) = readable b @ d"
proof -
  let ?r = "unat (buf_reader b)" and ?w = "unat (buf_writer b)"
  have rwn: "8 \<le> ?r" "?r \<le> ?w" "?w + length d \<le> length (buf_data b)"
      "length (buf_data b) \<le> vector_max"
    using assms by (auto simp: unat_writableBytes buffer_ok_def)
  then have w: "unat (buf_writer b + vector_size d) = ?w + length d"
    by (simp add: unat_add_size unat_vector_size vector_max_def)
  let ?xs = "take ?w (buf_data b) @ d @ drop (?w + length d) (buf_data b)"
  have len: "length ?xs = length (buf_data b)" using rwn by simp
  have read: "take (?w + length d - ?r) (drop ?r ?xs) =
      take (?w - ?r) (drop ?r (buf_data b)) @ d"
    using rwn by (simp add: drop_take)
  have "copy_in (buf_data b) ?w d = Inr ?xs"
    using rwn by (simp add: copy_in_def)
  then show ?thesis
    using rwn w len read by (auto simp: buffer_ok_def readable_def)
qed

lemma append_buf_ok:
  assumes ok: "buffer_ok b" and d: "memory_block d"
  shows "holdsE (\<lambda>e. e = LengthError) (\<lambda>b'. buffer_ok b' \<and> readable b' = readable b @ d)
     (append_buf d b)"
proof -
  have v: "unat (vector_size d) = length d"
    using d by (simp add: memory_block_def unat_vector_size)
  show ?thesis
    unfolding append_buf_def
  proof (rule holdsE_bind [OF ensureWritableBytes_ok [OF ok]])
    show "unat (vector_size d) \<le> vector_max"
      using d v by (simp add: memory_block_def)
    fix b'
    assume b': "buffer_ok b' \<and> readable b' = readable b \<and> vector_size d \<le> writableBytes b'"
    then have "length d \<le> unat (writableBytes b')" using v by (simp add: size_le_iff)
    from copy_in_writer [OF _ this] b'
    show "holdsE (\<lambda>e. e = LengthError) (\<lambda>b''. buffer_ok b'' \<and> readable b'' = readable b @ d)
       (bindE (copy_in (buf_data b') (unat (buf_writer b')) d) (\<lambda>xs.
        Inr (b'\<lparr>buf_data := xs, buf_writer := buf_writer b' + vector_size d\<rparr>)))"
      by auto
  qed
qed

section \<open>Descriptor input and output\<close>

lemma readFd_ok:
  assumes ok: "buffer_ok b" and S: "readv_doc S V"
    and r: "sys_readv S f (readFd_iov b) k = (r, k1)"
  shows "holdsE (\<lambda>e. e = LengthError)
     (\<lambda>(n, b', k'). buffer_ok b' \<and> k' = k1 \<and>
        (case r of Done d \<Rightarrow> n = Done (length d) \<and> readable b' = readable b @ d
                 | Fail e \<Rightarrow> n = Fail e \<and> b' = b))
     (readFd S f b k)"
proof (cases r)
  case (Fail e)
  then show ?thesis using ok r by (simp add: readFd_def Let_def)
next
  case (Done d)
  let ?w = "unat (writableBytes b)"
  have dlen: "length d \<le> ?w + extrabuf_size" "?w < extrabuf_size \<or> length d \<le> ?w"
    using S r Done by (fastforce simp: readv_doc_def readFd_iov_def split: if_splits)+
  from copy_in_writer [OF ok, of "take ?w d"] obtain xs where
    xs: "copy_in (buf_data b) (unat (buf_writer b)) (take ?w d) = Inr xs"
      "buffer_ok (b\<lparr>buf_data := xs\<rparr>)" "length xs = length (buf_data b)"
    and app: "buffer_ok (b\<lparr>buf_data := xs, buf_writer := buf_writer b + vector_size (take ?w d)\<rparr>)"
      "readable (b\<lparr>buf_data := xs, buf_writer := buf_writer b + vector_size (take ?w d)\<rparr>) =
        readable b @ take ?w d"
    by auto
  show ?thesis
  proof (cases "length d \<le> ?w")
    case True
    then show ?thesis
      using r Done xs app by (simp add: readFd_def Let_def vector_size_def)
  next
    case False
    have full: "buf_writer b + vector_size (take ?w d) = vector_size xs"
      using False xs by (simp add: vector_size_def writableBytes_def)
    have "memory_block (drop ?w d)"
      using dlen False by (simp add: memory_block_def extrabuf_size_def vector_max_def)
    from append_buf_ok [OF app(1) this] app(2)
    show ?thesis
      using False r Done xs(1) by (simp add: readFd_def Let_def full)
        (auto elim!: holdsE_bind)
  qed
qed

lemma writeFd_ok:
  assumes "buffer_ok b"
  shows "writeFd S f b k = Inr (sys_write S f (readable b) k)"
  using assms by (simp add: writeFd_def peek_all)

section \<open>The buffer as a byte queue\<close>

text \<open>
  What the users of a buffer rely on: bytes come out in the order they went in, none lost, none
  invented. A user pushes blocks and pops at most what is there (the caller's obligation stated at
  \<open>retrieveAsString\<close>). \<open>fifo_run\<close> runs a script of such calls and collects what was popped.
\<close>

datatype fifo_op = Push "byte list" | Pop nat

fun pushed :: "fifo_op list \<Rightarrow> byte list" where
  "pushed [] = []"
| "pushed (Push d # ops) = d @ pushed ops"
| "pushed (Pop n # ops) = pushed ops"

fun fifo_run :: "(byte list \<Rightarrow> 'b \<Rightarrow> error + 'b) \<Rightarrow> (nat \<Rightarrow> 'b \<Rightarrow> error + (byte list \<times> 'b)) \<Rightarrow>
    ('b \<Rightarrow> nat) \<Rightarrow> fifo_op list \<Rightarrow> 'b \<Rightarrow> error + (byte list \<times> 'b)" where
  "fifo_run push pop avail [] b = Inr ([], b)"
| "fifo_run push pop avail (Push d # ops) b =
     bindE (push d b) (\<lambda>b. fifo_run push pop avail ops b)"
| "fifo_run push pop avail (Pop n # ops) b =
     bindE (pop (min n (avail b)) b) (\<lambda>(x, b).
     bindE (fifo_run push pop avail ops b) (\<lambda>(y, b). Inr (x @ y, b)))"

locale byte_fifo =
  fixes push :: "byte list \<Rightarrow> 'b \<Rightarrow> error + 'b"
    and pop :: "nat \<Rightarrow> 'b \<Rightarrow> error + (byte list \<times> 'b)"
    and avail :: "'b \<Rightarrow> nat"
    and contents :: "'b \<Rightarrow> byte list"
    and inv :: "'b \<Rightarrow> bool"
    and fits :: "byte list \<Rightarrow> bool"
  assumes push_law: "inv b \<Longrightarrow> fits d \<Longrightarrow>
      holdsE (\<lambda>e. e = LengthError) (\<lambda>b'. inv b' \<and> contents b' = contents b @ d) (push d b)"
    and pop_law: "inv b \<Longrightarrow> n \<le> length (contents b) \<Longrightarrow>
      \<exists>b'. pop n b = Inr (take n (contents b), b') \<and> inv b' \<and> contents b' = drop n (contents b)"
    and avail_law: "inv b \<Longrightarrow> avail b = length (contents b)"
begin

lemma pop_some:
  assumes "inv b"
  obtains x b' where "pop (min n (avail b)) b = Inr (x, b')" "inv b'"
    "x @ contents b' = contents b"
  using pop_law [OF assms, of "min n (avail b)"] avail_law [OF assms]
  by (metis append_take_drop_id min.cobounded2)

lemma fifo_order:
  assumes "inv b" and "\<And>d. Push d \<in> set ops \<Longrightarrow> fits d"
  shows "holdsE (\<lambda>e. e = LengthError)
     (\<lambda>(out, b'). inv b' \<and> out @ contents b' = contents b @ pushed ops)
     (fifo_run push pop avail ops b)"
  using assms
proof (induction ops arbitrary: b)
  case (Cons op ops)
  show ?case
  proof (cases op)
    case (Push d)
    have "holdsE (\<lambda>e. e = LengthError) (\<lambda>b'. inv b' \<and> contents b' = contents b @ d) (push d b)"
      using Cons.prems Push by (simp add: push_law)
    then show ?thesis
    proof (cases "push d b")
      case (Inr b1)
      then have "inv b1" "contents b1 = contents b @ d"
        using push_law [of b d] Cons.prems Push by auto
      then show ?thesis
        using Cons.IH [of b1] Cons.prems Push Inr by simp
    qed (simp add: Push)
  next
    case (Pop n)
    obtain x b1 where x: "pop (min n (avail b)) b = Inr (x, b1)" "inv b1"
        "x @ contents b1 = contents b"
      using Cons.prems(1) by (rule pop_some)
    have "holdsE (\<lambda>e. e = LengthError)
        (\<lambda>(out, b'). inv b' \<and> out @ contents b' = contents b1 @ pushed ops)
        (fifo_run push pop avail ops b1)"
      using Cons.IH Cons.prems x(2) by simp
    then show ?thesis
      by (cases "fifo_run push pop avail ops b1") (auto simp: Pop x(1) x(3) [symmetric])
  qed
qed simp

end

definition buffer_pop :: "nat \<Rightarrow> buffer \<Rightarrow> error + (byte list \<times> buffer)" where
  "buffer_pop n = retrieveAsString (of_nat n)"

interpretation buffer_queue: byte_fifo append_buf buffer_pop "\<lambda>b. unat (readableBytes b)"
    readable buffer_ok memory_block
proof unfold_locales
  fix b n
  assume ok: "buffer_ok b" and n: "n \<le> length (readable b)"
  then have "n < 18446744073709551616"
    using readable_bound [OF ok] by (simp add: vector_max_def)
  then have "unat (of_nat n :: size_t) = n" by (rule unat_of_nat_size)
  then show "\<exists>b'. buffer_pop n b = Inr (take n (readable b), b') \<and> buffer_ok b' \<and>
      readable b' = drop n (readable b)"
    using ok n by (simp add: buffer_pop_def retrieveAsString_ok length_readable retrieve_ok)
qed (simp_all add: append_buf_ok length_readable)

section \<open>Properties\<close>

text \<open>C7: Bytes leave a buffer in the order they entered it. For every script of appends of memory
  blocks and of reads of at most the readable bytes, run on a buffer that satisfies the invariant,
  the popped bytes followed by what is left equal the bytes that were there followed by the
  appended ones, and the invariant holds again; the only way not to finish is
  \<open>std::length_error\<close>.\<close>

theorem buffer_is_fifo:
  assumes "buffer_ok b" and "\<And>d. Push d \<in> set ops \<Longrightarrow> memory_block d"
  shows "holdsE (\<lambda>e. e = LengthError)
     (\<lambda>(out, b'). buffer_ok b' \<and> out @ readable b' = readable b @ pushed ops)
     (fifo_run append_buf buffer_pop (\<lambda>b. unat (readableBytes b)) ops b)"
  using assms by (rule buffer_queue.fifo_order)

definition small_buffer :: buffer where
  "small_buffer = \<lparr>buf_data = replicate 12 0, buf_reader = 8, buf_writer = 8\<rparr>"

theorem buffer_is_fifo_witness:
  "\<exists>b'. fifo_run append_buf buffer_pop (\<lambda>b. unat (readableBytes b))
        [Push [1, 2, 3], Pop 2, Push [4, 5, 6]] small_buffer = Inr ([1, 2], b') \<and>
     buffer_ok b' \<and> readable b' = [3, 4, 5, 6]"
proof -
  let ?ops = "[Push [1, 2, 3], Pop 2, Push [4, 5, 6]]"
  let ?run = "fifo_run append_buf buffer_pop (\<lambda>b. unat (readableBytes b)) ?ops small_buffer"
  have "buffer_ok small_buffer" and "readable small_buffer = []"
    by (simp_all add: small_buffer_def buffer_ok_def vector_max_def readable_def)
  moreover have "memory_block d" if "Push d \<in> set ?ops" for d
    using that by (auto simp: memory_block_def vector_max_def)
  moreover have "case ?run of Inl _ \<Rightarrow> False | Inr (out, b') \<Rightarrow> out = [1, 2]"
    unfolding small_buffer_def by code_simp
  ultimately show ?thesis
    using buffer_is_fifo [of small_buffer ?ops]
    by (cases ?run) (auto split: prod.splits)
qed

text \<open>C25: \<open>ensureWritableBytes(len)\<close> keeps its contract for every length a memory block can
  have: afterwards at least \<open>len\<close> bytes are writable, the readable bytes and the invariant are
  unchanged, and neither the move nor the resize touches memory outside the vector; the only
  failure is \<open>std::length_error\<close>.\<close>

theorem ensureWritableBytes_contract:
  assumes "buffer_ok b" and "unat len \<le> vector_max"
  shows "holdsE (\<lambda>e. e = LengthError)
     (\<lambda>b'. buffer_ok b' \<and> readable b' = readable b \<and> len \<le> writableBytes b')
     (ensureWritableBytes len b)"
  using assms by (rule ensureWritableBytes_ok)

theorem ensureWritableBytes_contract_witness:
  "\<exists>b'. ensureWritableBytes 5 small_buffer = Inr b' \<and> buffer_ok b' \<and> readable b' = [] \<and>
     5 \<le> writableBytes b'"
proof -
  have "buffer_ok small_buffer" and "readable small_buffer = []"
    by (simp_all add: small_buffer_def buffer_ok_def vector_max_def readable_def)
  moreover have "\<exists>b'. ensureWritableBytes 5 small_buffer = Inr b'"
    by (simp add: ensureWritableBytes_def makeSpace_def small_buffer_def writableBytes_def
        prependableBytes_def vector_size_def vector_resize_def kCheapPrepend_def vector_max_def)
  ultimately show ?thesis
    using ensureWritableBytes_contract [of small_buffer 5] by (auto simp: vector_max_def)
qed

text \<open>\<open>makeSpace\<close> reuses the space of consumed bytes: when the free space at both ends
  covers \<open>len\<close> and the prepend area, \<open>ensureWritableBytes(len)\<close> does not fail and the vector keeps
  its size.\<close>

lemma ensureWritableBytes_reuses_space:
  assumes ok: "buffer_ok b"
    and room: "unat len + 8 \<le> length (buf_data b) - length (readable b)"
  shows "\<exists>b'. ensureWritableBytes len b = Inr b' \<and> length (buf_data b') = length (buf_data b) \<and>
     readable b' = readable b"
proof -
  let ?r = "unat (buf_reader b)" and ?w = "unat (buf_writer b)" and ?n = "length (buf_data b)"
  have rwn: "8 \<le> ?r" "?r \<le> ?w" "?w \<le> ?n" "?n \<le> vector_max"
    using ok by (auto simp: buffer_ok_def)
  have "length (readable b) = ?w - ?r"
    using ok by (simp add: length_readable unat_readableBytes)
  then have free: "unat len + 8 \<le> (?n - ?w) + ?r"
    using room rwn by simp
  have test: "\<not> writableBytes b + prependableBytes b < len + kCheapPrepend"
  proof -
    have "unat (writableBytes b + prependableBytes b) = (?n - ?w) + ?r"
      using rwn ok by (simp add: prependableBytes_def unat_add_size unat_writableBytes vector_max_def)
    moreover have "unat (len + kCheapPrepend) = unat len + 8"
      using free rwn by (simp add: kCheapPrepend_def unat_add_size vector_max_def)
    ultimately show ?thesis using free by (simp add: size_less_iff)
  qed
  show ?thesis
  proof (cases "writableBytes b < len")
    case True
    have len: "unat len \<le> vector_max" using free rwn by linarith
    have "8 < ?r"
      using True free ok by (simp add: size_less_iff unat_writableBytes)
    from copy_within_down [OF this] rwn obtain ys where
      ys: "copy_within (buf_data b) ?r ?w 8 = Inr ys" "length ys = ?n"
      by blast
    then have "makeSpace len b = Inr (b\<lparr>buf_data := ys, buf_reader := 8,
        buf_writer := 8 + readableBytes b\<rparr>)"
      using test by (simp add: makeSpace_def kCheapPrepend_def)
    then show ?thesis
      using makeSpace_ok [OF ok len True] True ys by (simp add: ensureWritableBytes_def)
  qed (simp add: ensureWritableBytes_def)
qed

text \<open>C39: A length near \<open>SIZE_MAX\<close> defeats the check of \<open>makeSpace\<close>: when \<open>writerIndex_ + len\<close>
  wraps around to \<open>m\<close>, more than eight bytes below the write index, \<open>ensureWritableBytes(len)\<close>
  shrinks the vector to \<open>m\<close> bytes without an exception, so the write index lies outside it and
  the invariant is lost.\<close>

theorem ensureWritableBytes_wraps:
  assumes ok: "buffer_ok b" and m: "m + 8 < unat (buf_writer b)"
  shows "\<exists>b'. ensureWritableBytes (of_nat m - buf_writer b) b = Inr b' \<and>
     length (buf_data b') = m \<and> buf_writer b' = buf_writer b \<and> \<not> buffer_ok b'"
proof -
  let ?r = "unat (buf_reader b)" and ?w = "unat (buf_writer b)" and ?n = "length (buf_data b)"
  let ?len = "of_nat m - buf_writer b"
  have rwn: "8 \<le> ?r" "?r \<le> ?w" "?w \<le> ?n" "?n \<le> 9223372036854775807"
    using ok by (auto simp: buffer_ok_def vector_max_def)
  have um: "unat (of_nat m :: size_t) = m"
    using m rwn by (intro unat_of_nat_size) linarith
  have neg: "unat (buf_writer b - of_nat m) = ?w - m"
    using m by (simp add: unat_sub_size um)
  have len: "unat ?len = 18446744073709551616 - (?w - m)"
  proof -
    have "?len = - (buf_writer b - of_nat m)" by simp
    moreover have "buf_writer b - of_nat m \<noteq> 0" using neg m by (auto simp: size_eq_iff)
    ultimately show ?thesis
      by (metis neg unat_minus_size)
  qed
  have free: "unat (writableBytes b + prependableBytes b) = (?n - ?w) + ?r"
    using rwn ok by (simp add: prependableBytes_def unat_add_size unat_writableBytes)
  have "unat (?len + kCheapPrepend) = unat ?len + 8"
    using len m by (simp add: kCheapPrepend_def unat_add_size)
  then have grow: "writableBytes b + prependableBytes b < ?len + kCheapPrepend"
    using free rwn len m by (simp add: size_less_iff)
  have less: "writableBytes b < ?len"
    using ok rwn len m by (simp add: size_less_iff unat_writableBytes)
  have wrap: "buf_writer b + ?len = of_nat m" by simp
  have mle: "m \<le> vector_max"
    using m rwn by (simp add: vector_max_def)
  have "ensureWritableBytes ?len b = Inr (b\<lparr>buf_data := take m (buf_data b)\<rparr>)"
    unfolding ensureWritableBytes_def makeSpace_def wrap
    using grow less um mle m rwn by (simp add: vector_resize_def)
  moreover have "\<not> buffer_ok (b\<lparr>buf_data := take m (buf_data b)\<rparr>)"
    using m rwn by (simp add: buffer_ok_def)
  ultimately show ?thesis using m rwn by simp
qed

theorem ensureWritableBytes_wraps_witness:
  "\<exists>b'. ensureWritableBytes (of_nat 10 - 20)
       \<lparr>buf_data = replicate 24 7, buf_reader = 8, buf_writer = 20\<rparr> = Inr b' \<and>
     length (buf_data b') = 10 \<and> \<not> buffer_ok b'"
proof -
  let ?b = "\<lparr>buf_data = replicate 24 7, buf_reader = 8, buf_writer = 20\<rparr> :: buffer"
  have "buffer_ok ?b" by (simp add: buffer_ok_def vector_max_def)
  then show ?thesis
    using ensureWritableBytes_wraps [of ?b 10] by auto
qed

text \<open>\<open>readFd\<close> appends exactly the bytes \<open>readv\<close> delivered, in order, whether they fit the
  writable region or spill into the stack buffer, and returns their number; an error leaves the
  buffer as it was. One call takes at most the writable bytes plus 64 KiB.\<close>

lemma readFd_appends:
  assumes "buffer_ok b" and "readv_doc S V" and "sys_readv S f (readFd_iov b) k = (r, k1)"
  shows "holdsE (\<lambda>e. e = LengthError)
     (\<lambda>(n, b', k'). buffer_ok b' \<and> k' = k1 \<and>
        (case r of
           Done d \<Rightarrow> n = Done (length d) \<and> readable b' = readable b @ d \<and>
             length d \<le> unat (writableBytes b) + extrabuf_size
         | Fail e \<Rightarrow> n = Fail e \<and> b' = b))
     (readFd S f b k)"
proof -
  have "length d \<le> unat (writableBytes b) + extrabuf_size" if "r = Done d" for d
    using assms(2,3) that by (fastforce simp: readv_doc_def readFd_iov_def split: if_splits)
  with readFd_ok [OF assms] show ?thesis
    by (elim holdsE_mono) (auto split: io.splits)
qed

lemma readFd_appends_witness:
  "\<exists>b' k'. readFd sim_sys 9 small_buffer (sim_init\<lparr>sim_reads := [Done [1, 2, 3, 4, 5, 6]]\<rparr>) =
       Inr (Done 6, b', k') \<and> buffer_ok b' \<and> readable b' = [1, 2, 3, 4, 5, 6]"
proof -
  let ?k = "sim_init\<lparr>sim_reads := [Done [1, 2, 3, 4, 5, 6]]\<rparr>"
  have ok: "buffer_ok small_buffer" "readable small_buffer = []"
    by (simp_all add: small_buffer_def buffer_ok_def vector_max_def readable_def)
  have "unat (writableBytes small_buffer) = 4"
    using ok by (simp add: unat_writableBytes) (simp add: small_buffer_def)
  then have r: "sys_readv sim_sys 9 (readFd_iov small_buffer) ?k =
      (Done [1, 2, 3, 4, 5, 6], ?k\<lparr>sim_reads := [], sim_got := (sim_got ?k)(9 := sim_got ?k 9 @ [1, 2, 3, 4, 5, 6])\<rparr>)"
    by (simp add: sim_readv_def readFd_iov_def extrabuf_size_def)
  have "case readFd sim_sys 9 small_buffer ?k of Inl _ \<Rightarrow> False | Inr _ \<Rightarrow> True"
    using \<open>unat (writableBytes small_buffer) = 4\<close>
    by (simp add: readFd_def readFd_iov_def extrabuf_size_def sim_readv_def Let_def copy_in_def
        small_buffer_def append_buf_def ensureWritableBytes_def makeSpace_def writableBytes_def
        prependableBytes_def vector_size_def vector_resize_def kCheapPrepend_def vector_max_def)
  then show ?thesis
    using readFd_appends [OF ok(1) sim_readv_doc r] ok(2)
    by (auto split: sum.splits)
qed

end
