(* ===== verification/InetAddress.thy ===== *)
theory InetAddress
  imports Format Syscalls
begin

text \<open>
  IPv4 socket addresses (include/InetAddress.h, src/InetAddress.cpp). Ports and addresses are kept
  in network byte order, so \<open>htons\<close> and \<open>ntohs\<close> swap the two bytes (a little-endian host, as
  x86-64 Linux). \<open>inet_ntop\<close> prints the four bytes in memory order. \<open>inet_addr\<close>, which also
  accepts partial, octal and hexadecimal forms, is a parameter of the constructor.
\<close>

record inet_address =
  ia_addr :: sockaddr_in

definition AF_INET :: "16 word" where "AF_INET = 2"

definition htons :: "16 word \<Rightarrow> 16 word" where
  "htons x = push_bit 8 x OR drop_bit 8 x"

definition ntohs :: "16 word \<Rightarrow> 16 word" where
  "ntohs x = push_bit 8 x OR drop_bit 8 x"

definition octet :: "nat \<Rightarrow> 32 word \<Rightarrow> nat" where
  "octet i a = unat (take_bit 8 (drop_bit (8 * i) a))"

definition inet_ntop :: "32 word \<Rightarrow> string" where
  "inet_ntop a = show_nat (octet 0 a) @ ''.'' @ show_nat (octet 1 a) @ ''.'' @
     show_nat (octet 2 a) @ ''.'' @ show_nat (octet 3 a)"

definition InetAddress_init :: "(string \<Rightarrow> 32 word) \<Rightarrow> 16 word \<Rightarrow> string \<Rightarrow> inet_address" where
  "InetAddress_init inet_addr port ip =
     \<lparr>ia_addr = \<lparr>sin_family = AF_INET, sin_port = htons port, sin_addr = inet_addr ip\<rparr>\<rparr>"

definition InetAddress_of :: "sockaddr_in \<Rightarrow> inet_address" where
  "InetAddress_of a = \<lparr>ia_addr = a\<rparr>"

definition toIp :: "inet_address \<Rightarrow> string" where
  "toIp x = take 63 (inet_ntop (sin_addr (ia_addr x)))"

text \<open>\<open>sprintf(buf + end, ":%u", port)\<close> into a 64-byte buffer: outside it the write is an error.\<close>

definition toIpPort :: "inet_address \<Rightarrow> error + string" where
  "toIpPort x =
     (let buf = take 63 (inet_ntop (sin_addr (ia_addr x)));
          port = ntohs (sin_port (ia_addr x));
          text = buf @ '':'' @ show_nat (unat port)
      in if length text < 64 then Inr text else Inl OutOfBounds)"

definition toPort :: "inet_address \<Rightarrow> 16 word" where
  "toPort x = ntohs (sin_port (ia_addr x))"

definition getSockAddr :: "inet_address \<Rightarrow> sockaddr_in" where
  "getSockAddr x = ia_addr x"

definition setSockAddr :: "sockaddr_in \<Rightarrow> inet_address \<Rightarrow> inet_address" where
  "setSockAddr a x = x\<lparr>ia_addr := a\<rparr>"

section \<open>Lemmas\<close>

lemma ntohs_htons [simp]: "ntohs (htons x) = x"
  by (rule bit_word_eqI)
    (auto simp: ntohs_def htons_def bit_or_iff bit_push_bit_iff bit_drop_bit_eq)

lemma htons_ntohs [simp]: "htons (ntohs x) = x"
  using ntohs_htons by (simp add: ntohs_def htons_def)

lemma octet_less: "octet i a < 256"
  using take_bit_nat_less_exp [of 8 "unat (drop_bit (8 * i) a)"]
  by (simp add: octet_def unsigned_take_bit_eq)

lemma length_show_octet: "length (show_nat (octet i a)) \<le> 3"
  using octet_less [of i a] by (intro length_show_nat) auto

lemma length_inet_ntop: "length (inet_ntop a) \<le> 15"
  using length_show_octet [of 0 a] length_show_octet [of 1 a] length_show_octet [of 2 a]
    length_show_octet [of 3 a]
  by (simp add: inet_ntop_def)

lemma length_show_port: "length (show_nat (unat (p :: 16 word))) \<le> 5"
proof -
  have "unat p < 65536" using unsigned_less [of p] by simp
  then show ?thesis by (intro length_show_nat) auto
qed

lemma octets_determine:
  assumes "octet 0 a = octet 0 b" "octet 1 a = octet 1 b" "octet 2 a = octet 2 b"
    "octet 3 a = octet 3 b"
  shows "a = b"
proof -
  have bits: "bit a n \<longleftrightarrow> bit b n" if "octet i a = octet i b" "8 * i \<le> n" "n < 8 * i + 8" for i n
  proof -
    have "take_bit 8 (drop_bit (8 * i) a) = take_bit 8 (drop_bit (8 * i) b)"
      using that(1) by (simp add: octet_def word_unat_eq_iff)
    then have "bit (take_bit 8 (drop_bit (8 * i) a)) (n - 8 * i) =
        bit (take_bit 8 (drop_bit (8 * i) b)) (n - 8 * i)" by simp
    moreover have "n - 8 * i < 8" using that by linarith
    ultimately show ?thesis using that by (simp add: bit_take_bit_iff bit_drop_bit_eq)
  qed
  show ?thesis
  proof (rule bit_word_eqI)
    fix n
    assume "n < LENGTH(32)"
    then consider "n < 8" | "8 \<le> n" "n < 16" | "16 \<le> n" "n < 24" | "24 \<le> n" "n < 32"
      by fastforce
    then show "bit a n \<longleftrightarrow> bit b n"
      by cases (use assms bits [of 0] bits [of 1] bits [of 2] bits [of 3] in auto)
  qed
qed

lemma inet_ntop_inject: "inet_ntop a = inet_ntop b \<longleftrightarrow> a = b"
proof
  assume eq: "inet_ntop a = inet_ntop b"
  have split: "show_nat m @ CHR ''.'' # s = show_nat n @ CHR ''.'' # t \<Longrightarrow> show_nat m = show_nat n \<and> s = t"
    for m n s t
    by (rule split_at_separator [OF separators_not_in_show_nat(1) separators_not_in_show_nat(1)])
  have 0: "show_nat (octet 0 a) = show_nat (octet 0 b)"
    and r0: "show_nat (octet 1 a) @ ''.'' @ show_nat (octet 2 a) @ ''.'' @ show_nat (octet 3 a) =
      show_nat (octet 1 b) @ ''.'' @ show_nat (octet 2 b) @ ''.'' @ show_nat (octet 3 b)"
    using split [of "octet 0 a" _ "octet 0 b"] eq by (simp_all add: inet_ntop_def)
  have 1: "show_nat (octet 1 a) = show_nat (octet 1 b)"
    and r1: "show_nat (octet 2 a) @ ''.'' @ show_nat (octet 3 a) =
      show_nat (octet 2 b) @ ''.'' @ show_nat (octet 3 b)"
    using split [of "octet 1 a" _ "octet 1 b"] r0 by simp_all
  have 2: "show_nat (octet 2 a) = show_nat (octet 2 b)"
    and 3: "show_nat (octet 3 a) = show_nat (octet 3 b)"
    using split [of "octet 2 a" _ "octet 2 b"] r1 by simp_all
  show "a = b"
    using 0 1 2 3 by (intro octets_determine) (simp_all add: show_nat_inject)
qed simp

lemma colon_not_in_inet_ntop: "CHR '':'' \<notin> set (inet_ntop a)"
  by (simp add: inet_ntop_def separators_not_in_show_nat)

lemma toIpPort_eq:
  "toIpPort x = Inr (inet_ntop (sin_addr (ia_addr x)) @ '':'' @ show_nat (unat (toPort x)))"
proof -
  have "length (inet_ntop (sin_addr (ia_addr x))) \<le> 15" by (rule length_inet_ntop)
  then show ?thesis
    using length_show_port [of "toPort x"] by (simp add: toIpPort_def toPort_def Let_def)
qed

lemma length_toIpPort: "toIpPort x = Inr s \<Longrightarrow> length s \<le> 21"
  using length_inet_ntop [of "sin_addr (ia_addr x)"] length_show_port [of "toPort x"]
  by (auto simp: toIpPort_eq)

section \<open>Properties\<close>

text \<open>C40: The port survives the byte order: an address built for a port reports that port, and
  what \<open>toIp\<close> prints for it is the dotted form of what \<open>inet_addr\<close> made of the string.\<close>

theorem InetAddress_port_roundtrip:
  "toPort (InetAddress_init inet_addr port ip) = port \<and>
   htons (toPort x) = sin_port (getSockAddr x) \<and>
   toIp (InetAddress_init inet_addr port ip) = inet_ntop (inet_addr ip)"
  using length_inet_ntop [of "inet_addr ip"]
  by (simp add: toIp_def toPort_def getSockAddr_def InetAddress_init_def)

text \<open>\<open>toIpPort\<close> writes at most 21 characters, so the \<open>sprintf\<close> behind the address never leaves
  the 64-byte buffer, and the text determines the address and the port: endpoints that print alike
  are the same endpoint.\<close>

lemma toIpPort_faithful:
  "(\<exists>s. toIpPort x = Inr s \<and> length s \<le> 21) \<and>
   (toIpPort x = toIpPort y \<longleftrightarrow>
     sin_addr (ia_addr x) = sin_addr (ia_addr y) \<and> sin_port (ia_addr x) = sin_port (ia_addr y))"
proof
  show "\<exists>s. toIpPort x = Inr s \<and> length s \<le> 21"
    using length_toIpPort [of x] by (simp add: toIpPort_eq)
  have "toIpPort x = toIpPort y \<longleftrightarrow>
      sin_addr (ia_addr x) = sin_addr (ia_addr y) \<and> toPort x = toPort y"
    using split_at_separator [OF colon_not_in_inet_ntop colon_not_in_inet_ntop,
        of "sin_addr (ia_addr x)" "show_nat (unat (toPort x))" "sin_addr (ia_addr y)"
           "show_nat (unat (toPort y))"]
    by (auto simp: toIpPort_eq inet_ntop_inject show_nat_inject word_unat_eq_iff [of "toPort x"])
  also have "toPort x = toPort y \<longleftrightarrow> sin_port (ia_addr x) = sin_port (ia_addr y)"
    unfolding toPort_def by (metis htons_ntohs)
  finally show "toIpPort x = toIpPort y \<longleftrightarrow>
     sin_addr (ia_addr x) = sin_addr (ia_addr y) \<and> sin_port (ia_addr x) = sin_port (ia_addr y)" .
qed

end
