(* ===== verification/Socket.thy ===== *)
theory Socket
  imports InetAddress
begin

text \<open>
  The socket wrapper (include/Socket.h, src/Socket.cpp). A \<open>Socket\<close> is its descriptor, so the
  operations take one and the kernel's state. A failing \<open>bind\<close> or \<open>listen\<close> is fatal; a failing
  \<open>shutdown\<close> is logged, failing options are ignored, and a failing \<open>accept4\<close> is the caller's.
\<close>

definition SOL_SOCKET :: int where "SOL_SOCKET = 1"
definition SO_REUSEADDR :: int where "SO_REUSEADDR = 2"
definition SO_KEEPALIVE :: int where "SO_KEEPALIVE = 9"
definition SO_REUSEPORT :: int where "SO_REUSEPORT = 15"
definition IPPROTO_TCP :: int where "IPPROTO_TCP = 6"
definition TCP_NODELAY :: int where "TCP_NODELAY = 1"

definition Socket_destroy :: "'k sys \<Rightarrow> fd \<Rightarrow> 'k \<Rightarrow> 'k" where
  "Socket_destroy S f k = snd (sys_close S f k)"

definition bindAddress :: "'k sys \<Rightarrow> fd \<Rightarrow> inet_address \<Rightarrow> 'k \<Rightarrow> error + 'k" where
  "bindAddress S f localaddr k =
     (case sys_bind S f (getSockAddr localaddr) k of (Done _, k) \<Rightarrow> Inr k | (Fail e, k) \<Rightarrow> Inl FatalExit)"

definition socket_listen :: "'k sys \<Rightarrow> fd \<Rightarrow> 'k \<Rightarrow> error + 'k" where
  "socket_listen S f k =
     (case sys_listen S f 1024 k of (Done _, k) \<Rightarrow> Inr k | (Fail e, k) \<Rightarrow> Inl FatalExit)"

text \<open>\<open>accept(&peeraddr)\<close>: the descriptor and the address as \<open>peeraddr\<close> holds it afterwards.\<close>

definition accept :: "'k sys \<Rightarrow> fd \<Rightarrow> inet_address \<Rightarrow> 'k \<Rightarrow> fd io \<times> inet_address \<times> 'k" where
  "accept S f peeraddr k =
     (case sys_accept4 S f k of
        (Done (connfd, addr), k) \<Rightarrow> (Done connfd, setSockAddr addr peeraddr, k)
      | (Fail e, k) \<Rightarrow> (Fail e, peeraddr, k))"

definition shutdownWrite :: "'k sys \<Rightarrow> fd \<Rightarrow> 'k \<Rightarrow> 'k" where
  "shutdownWrite S f k = snd (sys_shutdown_wr S f k)"

definition setTcpNoDelay :: "'k sys \<Rightarrow> fd \<Rightarrow> bool \<Rightarrow> 'k \<Rightarrow> 'k" where
  "setTcpNoDelay S f on k = snd (sys_setsockopt S f IPPROTO_TCP TCP_NODELAY (if on then 1 else 0) k)"

definition setReuseAddr :: "'k sys \<Rightarrow> fd \<Rightarrow> bool \<Rightarrow> 'k \<Rightarrow> 'k" where
  "setReuseAddr S f on k = snd (sys_setsockopt S f SOL_SOCKET SO_REUSEADDR (if on then 1 else 0) k)"

definition setReusePort :: "'k sys \<Rightarrow> fd \<Rightarrow> bool \<Rightarrow> 'k \<Rightarrow> 'k" where
  "setReusePort S f on k = snd (sys_setsockopt S f SOL_SOCKET SO_REUSEPORT (if on then 1 else 0) k)"

definition setKeepAlive :: "'k sys \<Rightarrow> fd \<Rightarrow> bool \<Rightarrow> 'k \<Rightarrow> 'k" where
  "setKeepAlive S f on k = snd (sys_setsockopt S f SOL_SOCKET SO_KEEPALIVE (if on then 1 else 0) k)"

text \<open>Setting options changes no stream and no registration.\<close>

lemma setsockopt_view:
  assumes "passive_doc S V"
  shows "same_view V k (setTcpNoDelay S f on k)" "same_view V k (setReuseAddr S f on k)"
    "same_view V k (setReusePort S f on k)" "same_view V k (setKeepAlive S f on k)"
  using assms by (simp_all add: passive_doc_def setTcpNoDelay_def setReuseAddr_def setReusePort_def setKeepAlive_def)

end
