(* ===== verification/TcpConnection.thy ===== *)
theory TcpConnection
  imports Buffer EventLoop Socket "HOL-Library.Sublist"
begin

text \<open>
  A TCP connection (include/TcpConnection.h, src/TcpConnection.cpp). The state extends that of the loop the connection lives on by the
  connection and by the memory of the callers' strings, which \<open>send\<close> refers to by address.

  A task is one of the \<open>std::bind\<close> objects the sources build as functors, with what it captures:
  \<open>SendInLoop\<close> holds the raw address \<open>buf.c_str()\<close> and a length, not the bytes. The user's callbacks
  are functions on the state, \<open>None\<close> when empty; the code binds the callback's value when it
  queues one, here the callbacks are fixed for the connection's life.
\<close>

section \<open>State\<close>

type_synonym str_ptr = nat

datatype task =
    SendInLoop conn_id str_ptr nat
  | ShutdownInLoop conn_id
  | SendFileInLoop conn_id fd int size_t
  | WriteComplete conn_id
  | HighWaterMark conn_id size_t
  | ConnectEstablished conn_id
  | ConnectDestroyed conn_id
  | RemoveConnectionInLoop conn_id
  | AcceptorListen
  | UserTask nat

datatype conn_state = kDisconnected | kConnecting | kConnected | kDisconnecting

record tcpconnection =
  tc_id :: conn_id
  tc_loop :: loop_id
  tc_name :: string
  tc_state :: conn_state
  tc_reading :: bool
  tc_sockfd :: fd
  tc_channel :: channel
  tc_localAddr :: inet_address
  tc_peerAddr :: inet_address
  tc_highWaterMark :: size_t
  tc_inputBuffer :: buffer
  tc_outputBuffer :: buffer

record 'k conn_st = "(task, 'k) loop_st" +
  st_conn :: tcpconnection
  st_mem :: "str_ptr \<Rightarrow> byte list option"

record 's callbacks =
  cb_connection :: "('s \<Rightarrow> error + 's) option"
  cb_message :: "(timestamp \<Rightarrow> 's \<Rightarrow> error + 's) option"
  cb_writeComplete :: "('s \<Rightarrow> error + 's) option"
  cb_highWaterMark :: "(size_t \<Rightarrow> 's \<Rightarrow> error + 's) option"
  cb_close :: "('s \<Rightarrow> error + 's) option"

section \<open>Construction\<close>

definition TcpConnection_init :: "'k sys \<Rightarrow> conn_id \<Rightarrow> loop_id option \<Rightarrow> string \<Rightarrow> fd \<Rightarrow> inet_address \<Rightarrow>
    inet_address \<Rightarrow> 'k \<Rightarrow> error + (tcpconnection \<times> 'k)" where
  "TcpConnection_init S self loop_ptr name sockfd localAddr peerAddr k =
     (case loop_ptr of None \<Rightarrow> Inl FatalExit | Some l \<Rightarrow>
      bindE (Buffer_init kInitialSize) (\<lambda>b.
      Inr (\<lparr>tc_id = self, tc_loop = l, tc_name = name, tc_state = kConnecting, tc_reading = True,
            tc_sockfd = sockfd, tc_channel = Channel_init sockfd, tc_localAddr = localAddr,
            tc_peerAddr = peerAddr, tc_highWaterMark = 64 * 1024 * 1024, tc_inputBuffer = b,
            tc_outputBuffer = b\<rparr>, setKeepAlive S sockfd True k)))"

definition connected :: "tcpconnection \<Rightarrow> bool" where
  "connected c \<longleftrightarrow> tc_state c = kConnected"

definition setHighWaterMark :: "size_t \<Rightarrow> tcpconnection \<Rightarrow> tcpconnection" where
  "setHighWaterMark n c = c\<lparr>tc_highWaterMark := n\<rparr>"

section \<open>Access to the connection in the state\<close>

definition upd_conn :: "(tcpconnection \<Rightarrow> tcpconnection) \<Rightarrow> ('k, 'z) conn_st_scheme \<Rightarrow> ('k, 'z) conn_st_scheme" where
  "upd_conn f s = s\<lparr>st_conn := f (st_conn s)\<rparr>"

definition setState :: "conn_state \<Rightarrow> ('k, 'z) conn_st_scheme \<Rightarrow> ('k, 'z) conn_st_scheme" where
  "setState x = upd_conn (\<lambda>c. c\<lparr>tc_state := x\<rparr>)"

definition self_ptr :: "('k, 'z) conn_st_scheme \<Rightarrow> chan_ptr" where
  "self_ptr s = ConnChannelOf (tc_id (st_conn s))"

text \<open>\<open>channel_->op()\<close> for an operation that goes to the loop.\<close>

definition on_channel ::
    "(chan_ptr \<Rightarrow> channel \<Rightarrow> ('k, 'z) conn_st_scheme \<Rightarrow> error + (channel \<times> ('k, 'z) conn_st_scheme)) \<Rightarrow>
     ('k, 'z) conn_st_scheme \<Rightarrow> error + ('k, 'z) conn_st_scheme" where
  "on_channel oper s =
     bindE (oper (self_ptr s) (tc_channel (st_conn s)) s) (\<lambda>(ch, s).
     Inr (upd_conn (\<lambda>c. c\<lparr>tc_channel := ch\<rparr>) s))"

section \<open>Sending\<close>

text \<open>The bytes \<open>[data + n, data + n + len)\<close>.\<close>

definition data_slice :: "byte list \<Rightarrow> nat \<Rightarrow> size_t \<Rightarrow> error + byte list" where
  "data_slice d n len =
     (if n + unat len \<le> length d then Inr (take (unat len) (drop n d)) else Inl OutOfBounds)"

text \<open>
  The two halves of \<open>sendInLoop\<close>: the direct write, with the values of \<open>nwrote\<close>, \<open>remaining\<close> and
  \<open>faultError\<close> it leaves, and the buffering of the rest.
\<close>

definition send_direct :: "'k sys \<Rightarrow> ('k, 'z) conn_st_scheme callbacks \<Rightarrow> byte list \<Rightarrow> ('k, 'z) conn_st_scheme \<Rightarrow>
    nat \<times> size_t \<times> bool \<times> ('k, 'z) conn_st_scheme" where
  "send_direct S cbs data s =
     (let c = st_conn s; len = vector_size data in
      if \<not> isWriting (tc_channel c) \<and> readableBytes (tc_outputBuffer c) = 0
      then (case sys_write S (ch_fd (tc_channel c)) data (st_kern s) of
          (Done n, k) \<Rightarrow>
            let s = s\<lparr>st_kern := k\<rparr>; remaining = len - of_nat n in
            (n, remaining, False,
             if remaining = 0 \<and> cb_writeComplete cbs \<noteq> None
             then queueInLoop S (WriteComplete (tc_id c)) s else s)
        | (Fail e, k) \<Rightarrow>
            (0, len, e \<noteq> EWOULDBLOCK \<and> e \<noteq> EAGAIN \<and> (e = EPIPE \<or> e = ECONNRESET), s\<lparr>st_kern := k\<rparr>))
      else (0, len, False, s))"

definition send_buffered :: "'k sys \<Rightarrow> ('k, 'z) conn_st_scheme callbacks \<Rightarrow> byte list \<Rightarrow> nat \<Rightarrow> size_t \<Rightarrow>
    ('k, 'z) conn_st_scheme \<Rightarrow> error + ('k, 'z) conn_st_scheme" where
  "send_buffered S cbs data nwrote remaining s =
     (let c = st_conn s; oldLen = readableBytes (tc_outputBuffer c);
          s = (if tc_highWaterMark c \<le> oldLen + remaining \<and> oldLen < tc_highWaterMark c \<and>
                  cb_highWaterMark cbs \<noteq> None
               then queueInLoop S (HighWaterMark (tc_id c) (oldLen + remaining)) s else s)
      in bindE (data_slice data nwrote remaining) (\<lambda>d.
         bindE (append_buf d (tc_outputBuffer (st_conn s))) (\<lambda>b.
         let s = upd_conn (\<lambda>c. c\<lparr>tc_outputBuffer := b\<rparr>) s in
         if \<not> isWriting (tc_channel (st_conn s)) then on_channel (enableWriting S) s else Inr s)))"

definition sendInLoop :: "'k sys \<Rightarrow> ('k, 'z) conn_st_scheme callbacks \<Rightarrow> byte list \<Rightarrow>
    ('k, 'z) conn_st_scheme \<Rightarrow> error + ('k, 'z) conn_st_scheme" where
  "sendInLoop S cbs data s =
     (if tc_state (st_conn s) = kDisconnected then Inr s
      else let (nwrote, remaining, faultError, s) = send_direct S cbs data s in
        if \<not> faultError \<and> 0 < remaining then send_buffered S cbs data nwrote remaining s else Inr s)"

definition shutdownInLoop :: "'k sys \<Rightarrow> ('k, 'z) conn_st_scheme \<Rightarrow> error + ('k, 'z) conn_st_scheme" where
  "shutdownInLoop S s =
     (if \<not> isWriting (tc_channel (st_conn s))
      then Inr (s\<lparr>st_kern := shutdownWrite S (tc_sockfd (st_conn s)) (st_kern s)\<rparr>) else Inr s)"

definition sendFileInLoop :: "'k sys \<Rightarrow> ('k, 'z) conn_st_scheme callbacks \<Rightarrow> fd \<Rightarrow> int \<Rightarrow> size_t \<Rightarrow>
    ('k, 'z) conn_st_scheme \<Rightarrow> ('k, 'z) conn_st_scheme" where
  "sendFileInLoop S cbs fileDescriptor offset count s =
     (let c = st_conn s in
      if tc_state c = kDisconnecting then s
      else
        let (remaining, faultError, offset, s) =
          (if \<not> isWriting (tc_channel c) \<and> readableBytes (tc_outputBuffer c) = 0
           then (case sys_sendfile S (tc_sockfd c) fileDescriptor offset (unat count) (st_kern s) of
               (Done n, offset, k) \<Rightarrow>
                 let s = s\<lparr>st_kern := k\<rparr>; remaining = count - of_nat n in
                 (remaining, False, offset,
                  if remaining = 0 \<and> cb_writeComplete cbs \<noteq> None
                  then queueInLoop S (WriteComplete (tc_id c)) s else s)
             | (Fail e, offset, k) \<Rightarrow>
                 (count, e = EPIPE \<or> e = ECONNRESET, offset, s\<lparr>st_kern := k\<rparr>))
           else (count, False, offset, s))
        in if \<not> faultError \<and> 0 < remaining
           then queueInLoop S (SendFileInLoop (tc_id c) fileDescriptor offset remaining) s else s)"

section \<open>Events of the channel\<close>

text \<open>
  \<open>handleClose\<close>: the \<open>disableAll\<close>, the connection callback (the user sees DOWN), then the close
  callback.
\<close>

definition handleClose :: "'k sys \<Rightarrow> ('k, 'z) conn_st_scheme callbacks \<Rightarrow>
    ('k, 'z) conn_st_scheme \<Rightarrow> error + ('k, 'z) conn_st_scheme" where
  "handleClose S cbs s =
     bindE (on_channel (disableAll S) (setState kDisconnected s)) (\<lambda>s.
     bindE (call (cb_connection cbs) s) (call (cb_close cbs)))"

definition handleError :: "'k sys \<Rightarrow> ('k, 'z) conn_st_scheme \<Rightarrow> error + ('k, 'z) conn_st_scheme" where
  "handleError S s =
     Inr (s\<lparr>st_kern := snd (sys_so_error S (ch_fd (tc_channel (st_conn s))) (st_kern s))\<rparr>)"

definition conn_handleRead :: "'k sys \<Rightarrow> ('k, 'z) conn_st_scheme callbacks \<Rightarrow> timestamp \<Rightarrow>
    ('k, 'z) conn_st_scheme \<Rightarrow> error + ('k, 'z) conn_st_scheme" where
  "conn_handleRead S cbs receiveTime s =
     bindE (readFd S (ch_fd (tc_channel (st_conn s))) (tc_inputBuffer (st_conn s)) (st_kern s))
       (\<lambda>(n, b, k).
     let s = upd_conn (\<lambda>c. c\<lparr>tc_inputBuffer := b\<rparr>) (s\<lparr>st_kern := k\<rparr>) in
     case n of
       Done m \<Rightarrow> if 0 < m then call_read (cb_message cbs) receiveTime s else handleClose S cbs s
     | Fail e \<Rightarrow> handleError S s)"

definition handleWrite :: "'k sys \<Rightarrow> ('k, 'z) conn_st_scheme callbacks \<Rightarrow>
    ('k, 'z) conn_st_scheme \<Rightarrow> error + ('k, 'z) conn_st_scheme" where
  "handleWrite S cbs s =
     (if isWriting (tc_channel (st_conn s))
      then bindE (writeFd S (ch_fd (tc_channel (st_conn s))) (tc_outputBuffer (st_conn s)) (st_kern s))
        (\<lambda>(r, k).
        let s = s\<lparr>st_kern := k\<rparr> in
        case r of
          Done n \<Rightarrow>
            if 0 < n
            then let s = upd_conn (\<lambda>c. c\<lparr>tc_outputBuffer := retrieve (of_nat n) (tc_outputBuffer c)\<rparr>) s in
              if readableBytes (tc_outputBuffer (st_conn s)) = 0
              then bindE (on_channel (disableWriting S) s) (\<lambda>s.
                let s = (if cb_writeComplete cbs \<noteq> None
                         then queueInLoop S (WriteComplete (tc_id (st_conn s))) s else s)
                in if tc_state (st_conn s) = kDisconnecting then shutdownInLoop S s else Inr s)
              else Inr s
            else Inr s
        | Fail e \<Rightarrow> Inr s)
      else Inr s)"

section \<open>Establishing and destroying\<close>

definition connectEstablished :: "'k sys \<Rightarrow> ('k, 'z) conn_st_scheme callbacks \<Rightarrow>
    ('k, 'z) conn_st_scheme \<Rightarrow> error + ('k, 'z) conn_st_scheme" where
  "connectEstablished S cbs s =
     (let s = setState kConnected s;
          s = upd_conn (\<lambda>c. c\<lparr>tc_channel := Channel_tie (tc_id c) (tc_channel c)\<rparr>) s
      in bindE (on_channel (enableReading S) s) (call (cb_connection cbs)))"

definition connectDestroyed :: "'k sys \<Rightarrow> ('k, 'z) conn_st_scheme callbacks \<Rightarrow>
    ('k, 'z) conn_st_scheme \<Rightarrow> error + ('k, 'z) conn_st_scheme" where
  "connectDestroyed S cbs s =
     bindE (if tc_state (st_conn s) = kConnected
            then bindE (on_channel (disableAll S) (setState kDisconnected s)) (call (cb_connection cbs))
            else Inr s)
       (on_channel (removeChannel S))"

section \<open>Functors, and the operations any thread may call\<close>

text \<open>
  What running a functor of a connection does. \<open>SendInLoop\<close> reads the caller's string at its
  address when it runs. The functors of other components are the argument \<open>other\<close>.
\<close>

definition read_string :: "(str_ptr \<Rightarrow> byte list option) \<Rightarrow> str_ptr \<Rightarrow> nat \<Rightarrow> error + byte list" where
  "read_string m p len = (case m p of None \<Rightarrow> Inl UseAfterFree
     | Some d \<Rightarrow> if len \<le> length d then Inr (take len d) else Inl OutOfBounds)"

fun run_task :: "'k sys \<Rightarrow> ('k, 'z) conn_st_scheme callbacks \<Rightarrow>
    (task \<Rightarrow> ('k, 'z) conn_st_scheme \<Rightarrow> error + ('k, 'z) conn_st_scheme) \<Rightarrow>
    task \<Rightarrow> ('k, 'z) conn_st_scheme \<Rightarrow> error + ('k, 'z) conn_st_scheme" where
  "run_task S cbs other (SendInLoop c p len) s =
     bindE (read_string (st_mem s) p len) (\<lambda>d. sendInLoop S cbs d s)"
| "run_task S cbs other (ShutdownInLoop c) s = shutdownInLoop S s"
| "run_task S cbs other (SendFileInLoop c f off n) s = Inr (sendFileInLoop S cbs f off n s)"
| "run_task S cbs other (WriteComplete c) s = call (cb_writeComplete cbs) s"
| "run_task S cbs other (HighWaterMark c n) s =
     (case cb_highWaterMark cbs of None \<Rightarrow> Inr s | Some f \<Rightarrow> f n s)"
| "run_task S cbs other (ConnectEstablished c) s = connectEstablished S cbs s"
| "run_task S cbs other (ConnectDestroyed c) s = connectDestroyed S cbs s"
| "run_task S cbs other f s = other f s"

definition send :: "'k sys \<Rightarrow> ('k, 'z) conn_st_scheme callbacks \<Rightarrow>
    (task \<Rightarrow> ('k, 'z) conn_st_scheme \<Rightarrow> error + ('k, 'z) conn_st_scheme) \<Rightarrow>
    str_ptr \<Rightarrow> ('k, 'z) conn_st_scheme \<Rightarrow> error + ('k, 'z) conn_st_scheme" where
  "send S cbs other buf s =
     (if tc_state (st_conn s) = kConnected
      then (case st_mem s buf of None \<Rightarrow> Inl UseAfterFree | Some d \<Rightarrow>
        if isInLoopThread s then sendInLoop S cbs d s
        else runInLoop S (run_task S cbs other) (SendInLoop (tc_id (st_conn s)) buf (length d)) s)
      else Inr s)"

text \<open>
  \<open>shutdown\<close> tests the state and, in a second access, stores the new one. \<open>shutdown_go\<close> is what follows
  the test. In the loop's own thread nothing comes between the two; from another thread the loop may
  close the connection there (\<open>conn_run\<close> below has the two as separate steps).
\<close>

definition shutdown_go :: "'k sys \<Rightarrow> ('k, 'z) conn_st_scheme callbacks \<Rightarrow>
    (task \<Rightarrow> ('k, 'z) conn_st_scheme \<Rightarrow> error + ('k, 'z) conn_st_scheme) \<Rightarrow>
    ('k, 'z) conn_st_scheme \<Rightarrow> error + ('k, 'z) conn_st_scheme" where
  "shutdown_go S cbs other s =
     runInLoop S (run_task S cbs other) (ShutdownInLoop (tc_id (st_conn s))) (setState kDisconnecting s)"

definition shutdown :: "'k sys \<Rightarrow> ('k, 'z) conn_st_scheme callbacks \<Rightarrow>
    (task \<Rightarrow> ('k, 'z) conn_st_scheme \<Rightarrow> error + ('k, 'z) conn_st_scheme) \<Rightarrow>
    ('k, 'z) conn_st_scheme \<Rightarrow> error + ('k, 'z) conn_st_scheme" where
  "shutdown S cbs other s =
     (if tc_state (st_conn s) = kConnected then shutdown_go S cbs other s else Inr s)"

definition sendFile :: "'k sys \<Rightarrow> ('k, 'z) conn_st_scheme callbacks \<Rightarrow>
    (task \<Rightarrow> ('k, 'z) conn_st_scheme \<Rightarrow> error + ('k, 'z) conn_st_scheme) \<Rightarrow>
    fd \<Rightarrow> int \<Rightarrow> size_t \<Rightarrow> ('k, 'z) conn_st_scheme \<Rightarrow> error + ('k, 'z) conn_st_scheme" where
  "sendFile S cbs other fileDescriptor offset count s =
     (if connected (st_conn s)
      then (if isInLoopThread s then Inr (sendFileInLoop S cbs fileDescriptor offset count s)
            else runInLoop S (run_task S cbs other)
                   (SendFileInLoop (tc_id (st_conn s)) fileDescriptor offset count) s)
      else Inr s)"

text \<open>The channel of the connection: its callbacks as the constructor binds them.\<close>

definition conn_callbacks :: "'k sys \<Rightarrow> ('k, 'z) conn_st_scheme callbacks \<Rightarrow>
    ('k, 'z) conn_st_scheme channel_callbacks" where
  "conn_callbacks S cbs = \<lparr>readCallback = Some (conn_handleRead S cbs),
     writeCallback = Some (handleWrite S cbs), closeCallback = Some (handleClose S cbs),
     errorCallback = Some (handleError S)\<rparr>"

definition conn_handleEvent :: "'k sys \<Rightarrow> ('k, 'z) conn_st_scheme callbacks \<Rightarrow>
    (conn_id \<Rightarrow> ('k, 'z) conn_st_scheme \<Rightarrow> bool) \<Rightarrow> timestamp \<Rightarrow>
    ('k, 'z) conn_st_scheme \<Rightarrow> error + ('k, 'z) conn_st_scheme" where
  "conn_handleEvent S cbs alive = handleEvent alive (\<lambda>s. tc_channel (st_conn s)) (conn_callbacks S cbs)"

section \<open>Lemmas: fields and masks\<close>

lemma upd_conn_simps [simp]:
  "st_conn (upd_conn f s) = f (st_conn s)" "st_mem (upd_conn f s) = st_mem s"
  "st_loop (upd_conn f s) = st_loop s" "st_kern (upd_conn f s) = st_kern s"
  "st_tid (upd_conn f s) = st_tid s" "st_self (upd_conn f s) = st_self s"
  "conn_st.more (upd_conn f s) = conn_st.more s"
  by (simp_all add: upd_conn_def)

lemma isInLoopThread_upd_conn [simp]: "isInLoopThread (upd_conn f s) = isInLoopThread s"
  by (simp add: isInLoopThread_def)

lemma queueInLoop_conn [simp]:
  "st_conn (queueInLoop S f s) = st_conn s" "st_mem (queueInLoop S f s) = st_mem s"
  "conn_st.more (queueInLoop S f s) = conn_st.more s"
  by (simp_all add: queueInLoop_def push_functor_def wakeup_def Let_def)

lemma push_functor_conn [simp]:
  "st_conn (push_functor f s) = st_conn s" "st_mem (push_functor f s) = st_mem s"
  "conn_st.more (push_functor f s) = conn_st.more s"
  by (simp_all add: push_functor_def)

lemma with_poller_conn [simp]:
  "st_conn (with_poller q s) = st_conn s" "st_mem (with_poller q s) = st_mem s"
  "conn_st.more (with_poller q s) = conn_st.more s"
  by (simp_all add: with_poller_def)

section \<open>The invariant of a connection\<close>

definition out_stream :: "'k view \<Rightarrow> ('k, 'z) conn_st_scheme \<Rightarrow> byte list" where
  "out_stream V s = v_sent V (st_kern s) (tc_sockfd (st_conn s)) @ readable (tc_outputBuffer (st_conn s))"

definition fin_sent :: "'k view \<Rightarrow> ('k, 'z) conn_st_scheme \<Rightarrow> bool" where
  "fin_sent V s = v_fin V (st_kern s) (tc_sockfd (st_conn s))"

definition live :: "tcpconnection \<Rightarrow> bool" where
  "live c \<longleftrightarrow> tc_state c = kConnected \<or> tc_state c = kDisconnecting"

text \<open>The buffers are well formed and the registration is the one the channel asks for.\<close>

definition conn_core :: "'k view \<Rightarrow> ('k, 'z) conn_st_scheme \<Rightarrow> bool" where
  "conn_core V s \<longleftrightarrow>
     buffer_ok (tc_inputBuffer (st_conn s)) \<and> buffer_ok (tc_outputBuffer (st_conn s)) \<and>
     ch_fd (tc_channel (st_conn s)) = tc_sockfd (st_conn s) \<and>
     tc_sockfd (st_conn s) \<noteq> el_wakeupFd (st_loop s) \<and>
     ep_synced V (st_poller s) (self_ptr s) (tc_channel (st_conn s))"

text \<open>
  Write interest is on exactly while a live connection has output waiting, and the write end is
  shut only when nothing waits, or on a connection that is down.
\<close>

definition conn_ok :: "'k view \<Rightarrow> ('k, 'z) conn_st_scheme \<Rightarrow> bool" where
  "conn_ok V s \<longleftrightarrow> conn_core V s \<and>
     (isWriting (tc_channel (st_conn s)) \<longleftrightarrow> live (st_conn s) \<and> readable (tc_outputBuffer (st_conn s)) \<noteq> []) \<and>
     (tc_state (st_conn s) = kConnecting \<longrightarrow> readable (tc_outputBuffer (st_conn s)) = []) \<and>
     (fin_sent V s \<longrightarrow> tc_state (st_conn s) = kDisconnected \<or>
        tc_state (st_conn s) = kDisconnecting \<and> readable (tc_outputBuffer (st_conn s)) = [])"

text \<open>What every operation respects: identity, order of the states, and the byte stream. Bytes once
  accepted stay in the stream, in order.\<close>

fun state_rank :: "conn_state \<Rightarrow> nat" where
  "state_rank kConnecting = 0"
| "state_rank kConnected = 1"
| "state_rank kDisconnecting = 2"
| "state_rank kDisconnected = 3"

definition evolves :: "'k view \<Rightarrow> ('k, 'z) conn_st_scheme \<Rightarrow> ('k, 'z) conn_st_scheme \<Rightarrow> bool" where
  "evolves V s s' \<longleftrightarrow>
     tc_id (st_conn s') = tc_id (st_conn s) \<and> tc_sockfd (st_conn s') = tc_sockfd (st_conn s) \<and>
     el_threadId (st_loop s') = el_threadId (st_loop s) \<and>
     el_wakeupFd (st_loop s') = el_wakeupFd (st_loop s) \<and>
     state_rank (tc_state (st_conn s)) \<le> state_rank (tc_state (st_conn s')) \<and>
     prefix (out_stream V s) (out_stream V s') \<and>
     prefix (v_sent V (st_kern s) (tc_sockfd (st_conn s))) (v_sent V (st_kern s') (tc_sockfd (st_conn s))) \<and>
     (fin_sent V s \<longrightarrow> fin_sent V s')"

definition conn_error :: "error \<Rightarrow> bool" where
  "conn_error e \<longleftrightarrow> e = FatalExit \<or> e = LengthError"

definition keeps :: "'k view \<Rightarrow> ('k, 'z) conn_st_scheme \<Rightarrow> error + ('k, 'z) conn_st_scheme \<Rightarrow> bool" where
  "keeps V s m \<longleftrightarrow> holdsE conn_error (\<lambda>s'. conn_ok V s' \<and> evolves V s s') m"

definition good_callbacks :: "'k view \<Rightarrow> ('k, 'z) conn_st_scheme callbacks \<Rightarrow> bool" where
  "good_callbacks V cbs \<longleftrightarrow>
     (\<forall>f s. cb_connection cbs = Some f \<longrightarrow> conn_ok V s \<longrightarrow> keeps V s (f s)) \<and>
     (\<forall>f t s. cb_message cbs = Some f \<longrightarrow> conn_ok V s \<longrightarrow> keeps V s (f t s)) \<and>
     (\<forall>f s. cb_writeComplete cbs = Some f \<longrightarrow> conn_ok V s \<longrightarrow> keeps V s (f s)) \<and>
     (\<forall>f n s. cb_highWaterMark cbs = Some f \<longrightarrow> conn_ok V s \<longrightarrow> keeps V s (f n s)) \<and>
     (\<forall>f s. cb_close cbs = Some f \<longrightarrow> conn_ok V s \<longrightarrow> keeps V s (f s))"

lemma evolves_refl [simp]: "evolves V s s"
  by (simp add: evolves_def)

lemma evolves_trans: "evolves V s s1 \<Longrightarrow> evolves V s1 s2 \<Longrightarrow> evolves V s s2"
  by (auto simp: evolves_def intro: prefix_order.trans)

lemma keeps_Inr: "keeps V s (Inr s') \<longleftrightarrow> conn_ok V s' \<and> evolves V s s'"
  by (simp add: keeps_def)

lemma keeps_bind:
  assumes "keeps V s m" and "\<And>s'. conn_ok V s' \<Longrightarrow> evolves V s s' \<Longrightarrow> keeps V s' (f s')"
  shows "keeps V s (bindE m f)"
  unfolding keeps_def
  by (rule holdsE_bind [OF assms(1) [unfolded keeps_def]])
    (auto intro: holdsE_mono [OF assms(2) [unfolded keeps_def]] evolves_trans)

lemma keeps_call:
  "(\<And>f. cb = Some f \<Longrightarrow> keeps V s (f s)) \<Longrightarrow> conn_ok V s \<Longrightarrow> keeps V s (call cb s)"
  by (cases cb) (simp_all add: keeps_def)

lemma keeps_after: "evolves V s s1 \<Longrightarrow> keeps V s1 m \<Longrightarrow> keeps V s m"
  unfolding keeps_def by (auto elim!: holdsE_mono intro: evolves_trans)

section \<open>Lemmas: the queue, the kernel and the channel\<close>

lemma write_other:
  assumes "write_doc S V"
  shows "f \<noteq> g \<Longrightarrow> v_sent V (snd (sys_write S g d k)) f = v_sent V k f"
    "v_fin V (snd (sys_write S g d k)) = v_fin V k" "v_reg V (snd (sys_write S g d k)) = v_reg V k"
proof -
  obtain r k' where w: "sys_write S g d k = (r, k')" by fastforce
  note doc = assms(1) [unfolded write_doc_def, rule_format, OF w]
  show "f \<noteq> g \<Longrightarrow> v_sent V (snd (sys_write S g d k)) f = v_sent V k f"
    "v_fin V (snd (sys_write S g d k)) = v_fin V k" "v_reg V (snd (sys_write S g d k)) = v_reg V k"
    using doc w by (auto split: io.splits)
qed

lemma ep_synced_reg:
  "v_reg V k' = v_reg V k \<Longrightarrow> ep_synced V (po, k') p ch = ep_synced V (po, k) p ch"
  by (simp add: ep_synced_def known_def interest_def)

lemma self_ptr_simps [simp]:
  "self_ptr (queueInLoop S cb s) = self_ptr s" "self_ptr (with_poller q s) = self_ptr s"
  "tc_id (f (st_conn s)) = tc_id (st_conn s) \<Longrightarrow> self_ptr (upd_conn f s) = self_ptr s"
  "self_ptr (s\<lparr>st_kern := k\<rparr>) = self_ptr s"
  by (simp_all add: self_ptr_def)

lemma queue_view:
  assumes "write_doc S V"
  shows "f \<noteq> el_wakeupFd (st_loop s) \<Longrightarrow> v_sent V (st_kern (queueInLoop S cb s)) f = v_sent V (st_kern s) f"
    "v_fin V (st_kern (queueInLoop S cb s)) = v_fin V (st_kern s)"
    "v_reg V (st_kern (queueInLoop S cb s)) = v_reg V (st_kern s)"
  using write_other [OF assms] by (simp_all add: queueInLoop_kern)

lemma ep_synced_queue: "write_doc S V \<Longrightarrow>
    ep_synced V (po, st_kern (queueInLoop S cb s)) p ch = ep_synced V (po, st_kern s) p ch"
  by (rule ep_synced_reg) (rule queue_view)

lemma conn_core_queue: "write_doc S V \<Longrightarrow> conn_core V s \<Longrightarrow> conn_core V (queueInLoop S cb s)"
  by (simp add: conn_core_def ep_synced_queue)

lemma out_stream_queue: "write_doc S V \<Longrightarrow> conn_core V s \<Longrightarrow>
    out_stream V (queueInLoop S cb s) = out_stream V s \<and> fin_sent V (queueInLoop S cb s) = fin_sent V s \<and>
    v_sent V (st_kern (queueInLoop S cb s)) (tc_sockfd (st_conn s)) = v_sent V (st_kern s) (tc_sockfd (st_conn s))"
  by (simp add: out_stream_def fin_sent_def conn_core_def queue_view)

lemma keeps_queue: "write_doc S V \<Longrightarrow> conn_ok V s \<Longrightarrow> keeps V s (Inr (queueInLoop S cb s))"
  using out_stream_queue [of S V s cb] conn_core_queue [of S V s cb]
  by (simp add: keeps_Inr conn_ok_def evolves_def)

text \<open>A call that changes the kernel's state in no way a view shows.\<close>

lemma keeps_same_view:
  assumes "v_sent V k = v_sent V (st_kern s)" "v_fin V k = v_fin V (st_kern s)" "v_reg V k = v_reg V (st_kern s)"
    and "conn_ok V s"
  shows "keeps V s (Inr (s\<lparr>st_kern := k\<rparr>))"
  using assms ep_synced_reg [OF assms(3)]
  by (simp add: keeps_Inr conn_ok_def conn_core_def evolves_def out_stream_def fin_sent_def)

text \<open>An operation of the channel: only the poller, the kernel's registrations and the channel's
  mask and index change.\<close>

definition chan_changed :: "'k view \<Rightarrow> events \<Rightarrow> ('k, 'z) conn_st_scheme \<Rightarrow> ('k, 'z) conn_st_scheme \<Rightarrow> bool" where
  "chan_changed V e s s' \<longleftrightarrow> (\<exists>q i. s' = upd_conn (\<lambda>c. c\<lparr>tc_channel :=
        set_index i (tc_channel c\<lparr>ch_events := e\<rparr>)\<rparr>) (with_poller q s) \<and>
     ep_synced V q (self_ptr s) (tc_channel (st_conn s')) \<and>
     v_sent V (snd q) = v_sent V (st_kern s) \<and> v_fin V (snd q) = v_fin V (st_kern s))"

lemma on_channel_update:
  assumes "epoll_ctl_doc S V" and "conn_core V s"
  shows "holdsE (\<lambda>e. e = FatalExit) (chan_changed V (g (tc_channel (st_conn s))) s)
     (on_channel (\<lambda>p ch. updateChannel S p (ch\<lparr>ch_events := g ch\<rparr>)) s)"
proof -
  let ?ch = "tc_channel (st_conn s)\<lparr>ch_events := g (tc_channel (st_conn s))\<rparr>"
  have kn: "known V (st_poller s) (self_ptr s) ?ch"
    using assms(2) by (simp add: conn_core_def ep_synced_def)
  show ?thesis
    unfolding on_channel_def
  proof (rule holdsE_bind [OF updateChannel_st [OF assms(1) kn]], clarsimp)
    fix po k
    assume "in_sync V (po, k) (self_ptr s) (set_index (next_index ?ch) ?ch)"
      "same_but V (ch_fd (tc_channel (st_conn s))) (st_poller s) (po, k)"
    then show "chan_changed V (g (tc_channel (st_conn s))) s
        (upd_conn (\<lambda>c. c\<lparr>tc_channel := set_index (next_index ?ch) ?ch\<rparr>) (with_poller (po, k) s))"
      unfolding chan_changed_def
      by (intro exI [of _ "(po, k)"] exI [of _ "next_index ?ch"])
        (auto simp: in_sync_ep_synced same_but_def upd_conn_def)
  qed
qed

lemma channel_ops_eta:
  "enableWriting S = (\<lambda>p ch. updateChannel S p (ch\<lparr>ch_events := ch_events ch OR kWriteEvent\<rparr>))"
  "disableWriting S = (\<lambda>p ch. updateChannel S p (ch\<lparr>ch_events := ch_events ch AND NOT kWriteEvent\<rparr>))"
  "enableReading S = (\<lambda>p ch. updateChannel S p (ch\<lparr>ch_events := ch_events ch OR kReadEvent\<rparr>))"
  "disableAll S = (\<lambda>p ch. updateChannel S p (ch\<lparr>ch_events := kNoneEvent\<rparr>))"
  by (simp_all add: fun_eq_iff channel_op_defs)

lemma on_channel_ops:
  assumes "epoll_ctl_doc S V" and "conn_core V s"
  shows "holdsE (\<lambda>e. e = FatalExit) (chan_changed V (ch_events (tc_channel (st_conn s)) OR kWriteEvent) s)
      (on_channel (enableWriting S) s)"
    and "holdsE (\<lambda>e. e = FatalExit) (chan_changed V (ch_events (tc_channel (st_conn s)) AND NOT kWriteEvent) s)
      (on_channel (disableWriting S) s)"
    and "holdsE (\<lambda>e. e = FatalExit) (chan_changed V (ch_events (tc_channel (st_conn s)) OR kReadEvent) s)
      (on_channel (enableReading S) s)"
    and "holdsE (\<lambda>e. e = FatalExit) (chan_changed V kNoneEvent s) (on_channel (disableAll S) s)"
  unfolding channel_ops_eta by (rule on_channel_update [OF assms])+

text \<open>Seen from the connection.\<close>

lemma chan_changed_effect:
  assumes "chan_changed V e s s'" and "conn_core V s"
  shows "conn_core V s' \<and> isWriting (tc_channel (st_conn s')) = isWriting (tc_channel (st_conn s)\<lparr>ch_events := e\<rparr>) \<and>
    (\<exists>ch. st_conn s' = st_conn s\<lparr>tc_channel := ch\<rparr> \<and> ch_tied ch = ch_tied (tc_channel (st_conn s)) \<and>
       ch_tie ch = ch_tie (tc_channel (st_conn s)) \<and> ch_revents ch = ch_revents (tc_channel (st_conn s))) \<and>
    out_stream V s' = out_stream V s \<and> fin_sent V s' = fin_sent V s \<and> evolves V s s' \<and>
    el_pendingFunctors (st_loop s') = el_pendingFunctors (st_loop s) \<and> st_mem s' = st_mem s"
proof -
  obtain q i where "s' = upd_conn (\<lambda>c. c\<lparr>tc_channel := set_index i (tc_channel c\<lparr>ch_events := e\<rparr>)\<rparr>) (with_poller q s)"
      "ep_synced V q (self_ptr s) (tc_channel (st_conn s'))"
      "v_sent V (snd q) = v_sent V (st_kern s)" "v_fin V (snd q) = v_fin V (st_kern s)"
    using assms(1) by (auto simp: chan_changed_def)
  then show ?thesis
    using assms(2) by (auto simp: conn_core_def out_stream_def fin_sent_def evolves_def)
qed

section \<open>Lemmas: sending\<close>

definition pend :: "('f, 'k, 'z) loop_st_scheme \<Rightarrow> 'f list" where
  "pend s = el_pendingFunctors (st_loop s)"

lemma pend_simps [simp]:
  "pend (queueInLoop S f s) = pend s @ [f]" "pend (with_poller q s) = pend s"
  "pend (s\<lparr>st_kern := k\<rparr>) = pend s"
  by (simp_all add: pend_def)

lemma pend_upd_conn [simp]: "pend (upd_conn f s) = pend s"
  by (simp add: pend_def)

text \<open>The direct write: tried only when nothing is waiting.\<close>

definition tries_write :: "('k, 'z) conn_st_scheme \<Rightarrow> bool" where
  "tries_write s \<longleftrightarrow> \<not> isWriting (tc_channel (st_conn s)) \<and> readableBytes (tc_outputBuffer (st_conn s)) = 0"

lemma tries_write_iff:
  "conn_ok V s \<Longrightarrow> tries_write s \<longleftrightarrow> readable (tc_outputBuffer (st_conn s)) = []"
  by (auto simp: tries_write_def conn_ok_def conn_core_def readableBytes_0_iff)

definition write_result :: "'k sys \<Rightarrow> byte list \<Rightarrow> ('k, 'z) conn_st_scheme \<Rightarrow> nat io" where
  "write_result S data s = fst (sys_write S (tc_sockfd (st_conn s)) data (st_kern s))"

definition fatal_write :: "nat io \<Rightarrow> bool" where
  "fatal_write r \<longleftrightarrow> r = Fail EPIPE \<or> r = Fail ECONNRESET"

definition write_count :: "nat io \<Rightarrow> nat" where
  "write_count r = (case r of Done n \<Rightarrow> n | Fail _ \<Rightarrow> 0)"

lemma conn_ok_write:
  assumes "write_doc S V" and ok: "conn_ok V s" and empty: "readable (tc_outputBuffer (st_conn s)) = []"
    and w: "sys_write S (tc_sockfd (st_conn s)) data (st_kern s) = (r, k)"
  shows "conn_ok V (s\<lparr>st_kern := k\<rparr>) \<and> evolves V s (s\<lparr>st_kern := k\<rparr>) \<and>
    out_stream V (s\<lparr>st_kern := k\<rparr>) = out_stream V s @ take (write_count r) data \<and>
    write_count r \<le> length data \<and> fin_sent V (s\<lparr>st_kern := k\<rparr>) = fin_sent V s"
proof -
  note doc = assms(1) [unfolded write_doc_def, rule_format, OF w]
  have sent: "v_sent V k (tc_sockfd (st_conn s)) =
      v_sent V (st_kern s) (tc_sockfd (st_conn s)) @ take (write_count r) data"
    "write_count r \<le> length data"
    using doc by (auto simp: write_count_def split: io.splits)
  moreover have "ep_synced V (el_poller (st_loop s), k) p ch = ep_synced V (st_poller s) p ch" for p ch
    by (rule ep_synced_reg) (use doc in simp)
  ultimately show ?thesis
    using ok doc empty by (simp add: conn_ok_def conn_core_def evolves_def out_stream_def fin_sent_def)
qed

lemma send_direct_ok:
  assumes docs: "write_doc S V" "epipe_doc S V" and ok: "conn_ok V s" and mem: "memory_block data"
    and up: "tc_state (st_conn s) \<noteq> kDisconnected"
    and r: "send_direct S cbs data s = (n, remaining, fault, s1)"
  shows "conn_ok V s1 \<and> evolves V s s1 \<and> st_conn s1 = st_conn s \<and>
    out_stream V s1 = out_stream V s @ take n data \<and> n + unat remaining = length data \<and>
    n = (if tries_write s then write_count (write_result S data s) else 0) \<and>
    fault = (tries_write s \<and> fatal_write (write_result S data s)) \<and>
    (\<not> fault \<longrightarrow> 0 < remaining \<longrightarrow> \<not> fin_sent V s1) \<and>
    pend s1 = pend s @ (if tries_write s \<and> write_result S data s = Done n \<and> remaining = 0 \<and>
      cb_writeComplete cbs \<noteq> None then [WriteComplete (tc_id (st_conn s))] else [])"
proof (cases "tries_write s")
  case False
  then have "fin_sent V s \<Longrightarrow> False" if "live (st_conn s)"
    using ok tries_write_iff [OF ok] that by (auto simp: conn_ok_def live_def)
  moreover have "live (st_conn s)"
    using False ok up tries_write_iff [OF ok] conn_state.exhaust
    by (auto simp: conn_ok_def live_def)
  moreover have "n = 0" "remaining = vector_size data" "\<not> fault" "s1 = s"
    using r False by (auto simp: send_direct_def tries_write_def Let_def split: if_splits)
  ultimately show ?thesis
    using False ok mem by (auto simp: memory_block_def unat_vector_size)
next
  case True
  note t = True [unfolded tries_write_def]
  have empty: "readable (tc_outputBuffer (st_conn s)) = []" using True tries_write_iff [OF ok] by simp
  have fd: "ch_fd (tc_channel (st_conn s)) = tc_sockfd (st_conn s)"
    using ok by (simp add: conn_ok_def conn_core_def)
  obtain res k where w: "sys_write S (tc_sockfd (st_conn s)) data (st_kern s) = (res, k)" by fastforce
  note ok1 = conn_ok_write [OF docs(1) ok empty w]
  have res: "write_result S data s = res" by (simp add: write_result_def w)
  have fin: "res = Fail EPIPE" if "fin_sent V s" "data \<noteq> []"
    using docs(2) that w unfolding epipe_doc_def fin_sent_def by fastforce
  have rem: "unat (vector_size data - of_nat m) = length data - m" if "m \<le> length data" for m
    using mem that by (simp add: memory_block_def unat_sub_size unat_vector_size unat_of_nat_size vector_max_def)
  show ?thesis
  proof (cases res)
    case (Fail e)
    have "n = 0" "remaining = vector_size data" "s1 = s\<lparr>st_kern := k\<rparr>" "fault = fatal_write res"
      using r t w Fail by (auto simp: send_direct_def fd Let_def fatal_write_def errno_defs)
    moreover have "unat (vector_size data) = length data"
      using mem by (simp add: memory_block_def unat_vector_size)
    moreover have "data \<noteq> []" if "0 < vector_size data" using that by (auto simp: vector_size_def)
    ultimately show ?thesis
      using ok1 res fin Fail True by (auto simp: write_count_def fatal_write_def)
  next
    case (Done m)
    have m: "m \<le> length data" using ok1 Done by (simp add: write_count_def)
    have n: "n = m" "remaining = vector_size data - of_nat m" "\<not> fault"
      and s1: "s1 = (if remaining = 0 \<and> cb_writeComplete cbs \<noteq> None
        then queueInLoop S (WriteComplete (tc_id (st_conn s))) (s\<lparr>st_kern := k\<rparr>) else s\<lparr>st_kern := k\<rparr>)"
      using r t w Done by (auto simp: send_direct_def fd Let_def)
    have core: "conn_core V (s\<lparr>st_kern := k\<rparr>)" using ok1 by (simp add: conn_ok_def)
    have q: "conn_ok V s1 \<and> evolves V s s1 \<and> out_stream V s1 = out_stream V s @ take n data"
      using ok1 Done n keeps_queue [OF docs(1), of "s\<lparr>st_kern := k\<rparr>"] out_stream_queue [OF docs(1) core]
      by (auto simp: s1 keeps_Inr write_count_def intro: evolves_trans)
    have f: "\<not> fin_sent V s1" if "0 < remaining"
    proof -
      have "data \<noteq> []" using that n m by (auto simp: vector_size_def)
      with fin Done have "\<not> fin_sent V s" by auto
      then show ?thesis using ok1 out_stream_queue [OF docs(1) core] by (auto simp: s1)
    qed
    show ?thesis
      using q f n m rem [OF m] True Done res
      by (auto simp: s1 write_count_def fatal_write_def)
  qed
qed

text \<open>The output buffer has grown and write interest is turned on where it is off.\<close>

lemma grown_output_ok:
  assumes docs: "epoll_ctl_doc S V" and ok: "conn_ok V s" and up: "live (st_conn s)" "\<not> fin_sent V s"
    and b: "buffer_ok b" "readable b = readable (tc_outputBuffer (st_conn s)) @ d" "d \<noteq> []"
  shows "holdsE conn_error (\<lambda>s'. conn_ok V s' \<and> evolves V s s' \<and>
      out_stream V s' = out_stream V s @ d \<and> pend s' = pend s)
    (let s = upd_conn (\<lambda>c. c\<lparr>tc_outputBuffer := b\<rparr>) s in
     if \<not> isWriting (tc_channel (st_conn s)) then on_channel (enableWriting S) s else Inr s)"
proof -
  let ?s = "upd_conn (\<lambda>c. c\<lparr>tc_outputBuffer := b\<rparr>) s"
  have core: "conn_core V ?s" using ok b by (simp add: conn_ok_def conn_core_def)
  have str: "out_stream V ?s = out_stream V s @ d" using b by (simp add: out_stream_def)
  have ev: "evolves V s ?s" using str by (simp add: evolves_def fin_sent_def)
  show ?thesis
  proof (cases "isWriting (tc_channel (st_conn s))")
    case True
    then have "conn_ok V ?s"
      using core b up by (auto simp: conn_ok_def fin_sent_def live_def)
    with True ev str show ?thesis by (simp add: Let_def)
  next
    case False
    have "holdsE conn_error (\<lambda>s'. conn_ok V s' \<and> evolves V s s' \<and>
        out_stream V s' = out_stream V s @ d \<and> pend s' = pend s) (on_channel (enableWriting S) ?s)"
    proof (rule holdsE_mono [OF on_channel_ops(1) [OF docs core]])
      fix s'
      assume "chan_changed V (ch_events (tc_channel (st_conn ?s)) OR kWriteEvent) ?s s'"
      note eff = chan_changed_effect [OF this core]
      have "conn_ok V s'"
        using eff up b by (auto simp: conn_ok_def fin_sent_def live_def)
      moreover have "evolves V s s'" using ev eff evolves_trans by blast
      ultimately show "conn_ok V s' \<and> evolves V s s' \<and> out_stream V s' = out_stream V s @ d \<and>
          pend s' = pend s"
        using eff str by (simp add: pend_def)
    qed (simp add: conn_error_def)
    then show ?thesis using False by (simp add: Let_def)
  qed
qed

definition crosses_mark :: "('k, 'z) conn_st_scheme callbacks \<Rightarrow> size_t \<Rightarrow> ('k, 'z) conn_st_scheme \<Rightarrow> bool" where
  "crosses_mark cbs remaining s \<longleftrightarrow>
     tc_highWaterMark (st_conn s) \<le> readableBytes (tc_outputBuffer (st_conn s)) + remaining \<and>
     readableBytes (tc_outputBuffer (st_conn s)) < tc_highWaterMark (st_conn s) \<and> cb_highWaterMark cbs \<noteq> None"

lemma send_buffered_ok:
  assumes docs: "write_doc S V" "epoll_ctl_doc S V" and ok: "conn_ok V s" and mem: "memory_block data"
    and up: "live (st_conn s)" "\<not> fin_sent V s"
    and rest: "n + unat remaining = length data" "0 < remaining"
  shows "holdsE conn_error (\<lambda>s'. conn_ok V s' \<and> evolves V s s' \<and>
      out_stream V s' = out_stream V s @ drop n data \<and>
      pend s' = pend s @ (if crosses_mark cbs remaining s
        then [HighWaterMark (tc_id (st_conn s)) (readableBytes (tc_outputBuffer (st_conn s)) + remaining)] else []))
    (send_buffered S cbs data n remaining s)"
proof -
  define s1 where "s1 = (if crosses_mark cbs remaining s then queueInLoop S (HighWaterMark (tc_id (st_conn s))
      (readableBytes (tc_outputBuffer (st_conn s)) + remaining)) s else s)"
  have s1: "conn_ok V s1" "evolves V s s1" "st_conn s1 = st_conn s" "out_stream V s1 = out_stream V s"
      "\<not> fin_sent V s1"
    using keeps_queue [OF docs(1) ok] out_stream_queue [OF docs(1), of s] ok up(2)
    by (auto simp: s1_def keeps_Inr conn_ok_def)
  have slice: "data_slice data n remaining = Inr (drop n data)"
    using rest(1) by (auto simp: data_slice_def)
  have "0 < unat remaining" using rest(2) by (simp add: size_less_iff)
  then have ne: "drop n data \<noteq> []" using rest(1) by auto
  have bok: "buffer_ok (tc_outputBuffer (st_conn s1))" using s1 by (simp add: conn_ok_def conn_core_def)
  have mem': "memory_block (drop n data)" using mem by (simp add: memory_block_def)
  have "holdsE conn_error (\<lambda>s'. conn_ok V s' \<and> evolves V s1 s' \<and>
        out_stream V s' = out_stream V s1 @ drop n data \<and> pend s' = pend s1)
      (bindE (append_buf (drop n data) (tc_outputBuffer (st_conn s1))) (\<lambda>b.
         let s = upd_conn (\<lambda>c. c\<lparr>tc_outputBuffer := b\<rparr>) s1 in
         if \<not> isWriting (tc_channel (st_conn s)) then on_channel (enableWriting S) s else Inr s))"
    by (rule holdsE_bind [OF holdsE_mono [OF append_buf_ok [OF bok mem']]])
      (use grown_output_ok [OF docs(2) s1(1) _ s1(5)] up s1(3) ne in \<open>auto simp: conn_error_def\<close>)
  also have "(bindE (append_buf (drop n data) (tc_outputBuffer (st_conn s1))) (\<lambda>b.
         let s = upd_conn (\<lambda>c. c\<lparr>tc_outputBuffer := b\<rparr>) s1 in
         if \<not> isWriting (tc_channel (st_conn s)) then on_channel (enableWriting S) s else Inr s)) =
      send_buffered S cbs data n remaining s"
    by (simp add: send_buffered_def slice s1_def crosses_mark_def Let_def)
  finally show ?thesis
    by (rule holdsE_mono) (use s1 in \<open>auto simp: s1_def intro: evolves_trans\<close>)
qed

text \<open>What \<open>sendInLoop\<close> does with its data, and which tasks it queues.\<close>

definition send_rejected :: "'k sys \<Rightarrow> byte list \<Rightarrow> ('k, 'z) conn_st_scheme \<Rightarrow> bool" where
  "send_rejected S data s \<longleftrightarrow> tc_state (st_conn s) = kDisconnected \<or>
     tries_write s \<and> fatal_write (write_result S data s)"

definition direct_count :: "'k sys \<Rightarrow> byte list \<Rightarrow> ('k, 'z) conn_st_scheme \<Rightarrow> nat" where
  "direct_count S data s = (if tries_write s then write_count (write_result S data s) else 0)"

definition send_posts :: "'k sys \<Rightarrow> ('k, 'z) conn_st_scheme callbacks \<Rightarrow> byte list \<Rightarrow>
    ('k, 'z) conn_st_scheme \<Rightarrow> task list" where
  "send_posts S cbs data s =
     (let rest = vector_size data - of_nat (direct_count S data s) in
      if send_rejected S data s then []
      else if rest = 0
        then (if tries_write s \<and> write_result S data s = Done (length data) \<and> cb_writeComplete cbs \<noteq> None
              then [WriteComplete (tc_id (st_conn s))] else [])
        else (if crosses_mark cbs rest s
              then [HighWaterMark (tc_id (st_conn s)) (readableBytes (tc_outputBuffer (st_conn s)) + rest)] else []))"

lemma sendInLoop_ok:
  assumes "kernel_doc S V" and ok: "conn_ok V s" and mem: "memory_block data"
    and up: "tc_state (st_conn s) \<noteq> kConnecting"
  shows "holdsE conn_error (\<lambda>s'. conn_ok V s' \<and> evolves V s s' \<and>
      out_stream V s' = out_stream V s @ (if send_rejected S data s then [] else data) \<and>
      pend s' = pend s @ send_posts S cbs data s)
    (sendInLoop S cbs data s)"
proof (cases "tc_state (st_conn s) = kDisconnected")
  case True
  then show ?thesis using ok by (simp add: sendInLoop_def send_rejected_def send_posts_def Let_def)
next
  case False
  note docs = kernel_docD [OF assms(1)]
  obtain n rest fault s1 where d: "send_direct S cbs data s = (n, rest, fault, s1)" by (metis prod_cases4)
  note r = send_direct_ok [OF docs(2,7) ok mem False d]
  have rest: "rest = vector_size data - of_nat (direct_count S data s)"
  proof -
    have "n \<le> length data" "unat rest = length data - n" using r by auto
    then have "unat rest = unat (vector_size data - of_nat n)"
      using mem by (simp add: memory_block_def unat_vector_size unat_sub_size unat_of_nat_size vector_max_def)
    then show ?thesis using r by (simp add: direct_count_def word_unat_eq_iff)
  qed
  have rej: "send_rejected S data s = fault" using r False by (simp add: send_rejected_def)
  have code: "sendInLoop S cbs data s =
      (if \<not> fault \<and> 0 < rest then send_buffered S cbs data n rest s1 else Inr s1)"
    using False d by (simp add: sendInLoop_def)
  show ?thesis
  proof (cases "\<not> fault \<and> 0 < rest")
    case True
    have live: "live (st_conn s1)" using up False r by (cases "tc_state (st_conn s)") (auto simp: live_def)
    have cm: "crosses_mark cbs rest s1 = crosses_mark cbs rest s" using r by (simp add: crosses_mark_def)
    have "holdsE conn_error (\<lambda>s'. conn_ok V s' \<and> evolves V s1 s' \<and>
      out_stream V s' = out_stream V s1 @ drop n data \<and>
      pend s' = pend s1 @ (if crosses_mark cbs rest s1
        then [HighWaterMark (tc_id (st_conn s1)) (readableBytes (tc_outputBuffer (st_conn s1)) + rest)] else []))
      (send_buffered S cbs data n rest s1)"
      using r True by (intro send_buffered_ok [OF docs(2,5) _ mem live]) auto
    then have "holdsE conn_error (\<lambda>s'. conn_ok V s' \<and> evolves V s s' \<and>
        out_stream V s' = out_stream V s @ data \<and> pend s' = pend s @ send_posts S cbs data s)
      (send_buffered S cbs data n rest s1)"
      by (rule holdsE_mono)
        (use r True rest rej cm in \<open>auto simp: send_posts_def Let_def intro: evolves_trans\<close>)
    then show ?thesis using True rej by (simp add: code)
  next
    case no: False
    show ?thesis
    proof (cases fault)
      case True
      then show ?thesis using r rej no
        by (auto simp: code send_posts_def Let_def fatal_write_def write_count_def)
    next
      case False
      then have z: "rest = 0" using no word_gt_0 [of rest] by auto
      then have "n = length data" using r by auto
      then show ?thesis using r rej no False z rest
        by (auto simp: code send_posts_def Let_def)
    qed
  qed
qed

section \<open>Lemmas: the events of the channel\<close>

definition shutdown_works :: "'k sys \<Rightarrow> fd \<Rightarrow> bool" where
  "shutdown_works S f \<longleftrightarrow> (\<forall>k. \<exists>u. fst (sys_shutdown_wr S f k) = Done u)"

lemma shutdownInLoop_ok:
  assumes doc: "shutdown_doc S V" and ok: "conn_ok V s"
    and down: "tc_state (st_conn s) = kDisconnecting \<or> tc_state (st_conn s) = kDisconnected"
  shows "\<exists>s'. shutdownInLoop S s = Inr s' \<and> conn_ok V s' \<and> evolves V s s' \<and> st_conn s' = st_conn s \<and>
    out_stream V s' = out_stream V s \<and> pend s' = pend s \<and>
    (\<not> isWriting (tc_channel (st_conn s)) \<longrightarrow> shutdown_works S (tc_sockfd (st_conn s)) \<longrightarrow> fin_sent V s')"
proof (cases "isWriting (tc_channel (st_conn s))")
  case False
  obtain r k where w: "sys_shutdown_wr S (tc_sockfd (st_conn s)) (st_kern s) = (r, k)" by fastforce
  note d = doc [unfolded shutdown_doc_def, rule_format, OF w]
  have ep: "ep_synced V (el_poller (st_loop s), k) p ch = ep_synced V (st_poller s) p ch" for p ch
    by (rule ep_synced_reg) (use d in simp)
  have "conn_ok V (s\<lparr>st_kern := k\<rparr>)"
    using ok down False d by (auto simp: conn_ok_def conn_core_def live_def ep fin_sent_def)
  moreover have "evolves V s (s\<lparr>st_kern := k\<rparr>) \<and> out_stream V (s\<lparr>st_kern := k\<rparr>) = out_stream V s"
    using d by (auto simp: evolves_def out_stream_def fin_sent_def split: io.splits)
  moreover have "fin_sent V (s\<lparr>st_kern := k\<rparr>)" if works: "shutdown_works S (tc_sockfd (st_conn s))"
  proof -
    obtain u where "r = Done u" using works w unfolding shutdown_works_def by (metis fst_conv)
    with d show ?thesis by (simp add: fin_sent_def)
  qed
  ultimately show ?thesis
    using False w by (simp add: shutdownInLoop_def shutdownWrite_def)
qed (use ok in \<open>simp add: shutdownInLoop_def\<close>)

text \<open>The part of \<open>handleClose\<close> and \<open>connectDestroyed\<close> that takes the connection down.\<close>

lemma take_down_ok:
  assumes docs: "epoll_ctl_doc S V" and ok: "conn_ok V s"
  shows "holdsE conn_error (\<lambda>s'. conn_ok V s' \<and> evolves V s s' \<and> tc_state (st_conn s') = kDisconnected \<and>
      out_stream V s' = out_stream V s \<and> pend s' = pend s)
    (on_channel (disableAll S) (setState kDisconnected s))"
proof -
  let ?s = "setState kDisconnected s"
  have core: "conn_core V ?s" using ok by (simp add: conn_ok_def conn_core_def setState_def)
  have ev: "evolves V s ?s"
    by (cases "tc_state (st_conn s)") (simp_all add: evolves_def setState_def out_stream_def fin_sent_def)
  have str: "out_stream V ?s = out_stream V s" by (simp add: setState_def out_stream_def)
  show ?thesis
  proof (rule holdsE_mono [OF on_channel_ops(4) [OF docs core]])
    fix s'
    assume "chan_changed V kNoneEvent ?s s'"
    note eff = chan_changed_effect [OF this core]
    have "conn_ok V s'"
      using eff by (auto simp: conn_ok_def live_def setState_def)
    moreover have "evolves V s s'" using ev eff evolves_trans by blast
    ultimately show "conn_ok V s' \<and> evolves V s s' \<and> tc_state (st_conn s') = kDisconnected \<and>
        out_stream V s' = out_stream V s \<and> pend s' = pend s"
      using eff str by (auto simp: setState_def pend_def)
  qed (simp add: conn_error_def)
qed

lemma keeps_callback:
  assumes "good_callbacks V cbs" and "conn_ok V s"
  shows "keeps V s (call (cb_connection cbs) s)" "keeps V s (call_read (cb_message cbs) t s)"
    "keeps V s (call (cb_writeComplete cbs) s)" "keeps V s (call (cb_close cbs) s)"
    "keeps V s (case cb_highWaterMark cbs of None \<Rightarrow> Inr s | Some f \<Rightarrow> f n s)"
  using assms by (auto simp: good_callbacks_def call_def call_read_def keeps_Inr split: option.splits)

lemma handleClose_ok:
  assumes "kernel_doc S V" and cbs: "good_callbacks V cbs" and ok: "conn_ok V s"
  shows "keeps V s (handleClose S cbs s)"
  unfolding handleClose_def
proof (rule keeps_bind)
  show "keeps V s (on_channel (disableAll S) (setState kDisconnected s))"
    unfolding keeps_def by (rule holdsE_mono [OF take_down_ok [OF kernel_docD(5) [OF assms(1)] ok]]) auto
  show "keeps V s' (bindE (call (cb_connection cbs) s') (call (cb_close cbs)))" if "conn_ok V s'" for s'
    by (rule keeps_bind) (use keeps_callback [OF cbs] that in auto)
qed

lemma handleError_ok:
  assumes "kernel_doc S V" and "conn_ok V s"
  shows "keeps V s (handleError S s)"
proof -
  obtain r k where w: "sys_so_error S (ch_fd (tc_channel (st_conn s))) (st_kern s) = (r, k)" by fastforce
  have "so_error_doc S V" by (rule kernel_docD [OF assms(1)])
  from this [unfolded so_error_doc_def, rule_format, OF w] show ?thesis
    using keeps_same_view [of V k s] assms(2) by (simp add: handleError_def w)
qed

lemma conn_handleRead_ok:
  assumes S: "kernel_doc S V" and cbs: "good_callbacks V cbs" and ok: "conn_ok V s"
  shows "keeps V s (conn_handleRead S cbs t s)"
proof -
  let ?b = "tc_inputBuffer (st_conn s)" and ?f = "ch_fd (tc_channel (st_conn s))"
  have bok: "buffer_ok ?b" using ok by (simp add: conn_ok_def conn_core_def)
  have doc: "readv_doc S V" by (rule kernel_docD [OF S])
  obtain r k where w: "sys_readv S ?f (readFd_iov ?b) (st_kern s) = (r, k)" by fastforce
  note d = doc [unfolded readv_doc_def, rule_format, OF w]
  show ?thesis
    unfolding conn_handleRead_def keeps_def
  proof (rule holdsE_bind [OF holdsE_mono [OF readFd_ok [OF bok doc w]]])
    show "conn_error e" if "e = LengthError" for e using that by (simp add: conn_error_def)
  next
    fix x assume "case x of (n, b', k') \<Rightarrow> buffer_ok b' \<and> k' = k \<and>
        (case r of Done d \<Rightarrow> n = Done (length d) \<and> readable b' = readable ?b @ d
                 | Fail e \<Rightarrow> n = Fail e \<and> b' = ?b)"
    then obtain n b where x: "x = (n, b, k)" "buffer_ok b" by (cases x) auto
    let ?s = "upd_conn (\<lambda>c. c\<lparr>tc_inputBuffer := b\<rparr>) (s\<lparr>st_kern := k\<rparr>)"
    have "keeps V s (Inr (s\<lparr>st_kern := k\<rparr>))" by (rule keeps_same_view) (use d ok in auto)
    then have ok': "conn_ok V ?s" "evolves V s ?s"
      using x by (auto simp: keeps_Inr conn_ok_def conn_core_def evolves_def out_stream_def fin_sent_def live_def)
    have "keeps V ?s (case n of Done m \<Rightarrow> if 0 < m then call_read (cb_message cbs) t ?s else handleClose S cbs ?s
        | Fail e \<Rightarrow> handleError S ?s)"
      using keeps_callback [OF cbs ok'(1)] handleClose_ok [OF S cbs ok'(1)] handleError_ok [OF S ok'(1)]
      by (auto split: io.splits)
    from keeps_after [OF ok'(2) this]
    show "holdsE conn_error (\<lambda>s'. conn_ok V s' \<and> evolves V s s') (case x of (n, b, k) \<Rightarrow>
        let s = upd_conn (\<lambda>c. c\<lparr>tc_inputBuffer := b\<rparr>) (s\<lparr>st_kern := k\<rparr>) in
        case n of Done m \<Rightarrow> if 0 < m then call_read (cb_message cbs) t s else handleClose S cbs s
        | Fail e \<Rightarrow> handleError S s)"
      by (simp add: x keeps_def Let_def)
  qed
qed

text \<open>
  \<open>handleWrite\<close> moves bytes from the output buffer to the kernel. When the last one has left, write
  interest goes off and a half-closed connection shuts its write end.
\<close>

lemma drained_ok:
  assumes S: "kernel_doc S V" and core: "conn_core V s" and up: "live (st_conn s)" and nofin: "\<not> fin_sent V s"
    and empty: "readable (tc_outputBuffer (st_conn s)) = []"
  shows "holdsE conn_error (\<lambda>s'. conn_ok V s' \<and> evolves V s s' \<and> out_stream V s' = out_stream V s \<and>
      tc_state (st_conn s') = tc_state (st_conn s) \<and> tc_outputBuffer (st_conn s') = tc_outputBuffer (st_conn s) \<and>
      (tc_state (st_conn s) = kDisconnecting \<longrightarrow> shutdown_works S (tc_sockfd (st_conn s)) \<longrightarrow> fin_sent V s'))
    (bindE (on_channel (disableWriting S) s) (\<lambda>s.
       let s = (if wc then queueInLoop S (WriteComplete (tc_id (st_conn s))) s else s)
       in if tc_state (st_conn s) = kDisconnecting then shutdownInLoop S s else Inr s))"
proof (rule holdsE_bind [OF holdsE_mono [OF on_channel_ops(2) [OF kernel_docD(5) [OF S] core]]])
  fix s1 assume c: "chan_changed V (ch_events (tc_channel (st_conn s)) AND NOT kWriteEvent) s s1"
  note eff = chan_changed_effect [OF c core]
  have ok1: "conn_ok V s1" using eff nofin empty up by (auto simp: conn_ok_def live_def)
  let ?s2 = "if wc then queueInLoop S (WriteComplete (tc_id (st_conn s1))) s1 else s1"
  have ok2: "conn_ok V ?s2" "evolves V s1 ?s2" "out_stream V ?s2 = out_stream V s1"
    using keeps_queue [OF kernel_docD(2) [OF S] ok1] ok1 out_stream_queue [OF kernel_docD(2) [OF S], of s1]
    by (auto simp: keeps_Inr conn_ok_def)
  have sc: "st_conn ?s2 = st_conn s1" by simp
  have nw: "\<not> isWriting (tc_channel (st_conn ?s2))" using eff by auto
  have "holdsE conn_error (\<lambda>s'. conn_ok V s' \<and> evolves V ?s2 s' \<and> out_stream V s' = out_stream V ?s2 \<and>
        st_conn s' = st_conn s1 \<and>
        (tc_state (st_conn s1) = kDisconnecting \<longrightarrow> shutdown_works S (tc_sockfd (st_conn s1)) \<longrightarrow> fin_sent V s'))
      (if tc_state (st_conn ?s2) = kDisconnecting then shutdownInLoop S ?s2 else Inr ?s2)"
    using shutdownInLoop_ok [OF kernel_docD(3) [OF S] ok2(1)] ok2 nw sc by auto
  then show "holdsE conn_error (\<lambda>s'. conn_ok V s' \<and> evolves V s s' \<and> out_stream V s' = out_stream V s \<and>
      tc_state (st_conn s') = tc_state (st_conn s) \<and> tc_outputBuffer (st_conn s') = tc_outputBuffer (st_conn s) \<and>
      (tc_state (st_conn s) = kDisconnecting \<longrightarrow> shutdown_works S (tc_sockfd (st_conn s)) \<longrightarrow> fin_sent V s'))
      (let s = ?s2 in if tc_state (st_conn s) = kDisconnecting then shutdownInLoop S s else Inr s)"
    unfolding Let_def
    by (rule holdsE_mono) (use ok2 eff in \<open>auto intro: evolves_trans\<close>)
qed (simp_all add: conn_error_def)

definition write_effect :: "'k sys \<Rightarrow> 'k view \<Rightarrow> ('k, 'z) conn_st_scheme \<Rightarrow> ('k, 'z) conn_st_scheme \<Rightarrow> bool" where
  "write_effect S V s s' \<longleftrightarrow> tc_state (st_conn s') = tc_state (st_conn s) \<and>
     (\<not> isWriting (tc_channel (st_conn s)) \<longrightarrow> s' = s) \<and>
     (isWriting (tc_channel (st_conn s)) \<longrightarrow>
        readable (tc_outputBuffer (st_conn s')) =
          drop (write_count (write_result S (readable (tc_outputBuffer (st_conn s))) s))
            (readable (tc_outputBuffer (st_conn s))) \<and>
        (readable (tc_outputBuffer (st_conn s')) = [] \<longrightarrow> readable (tc_outputBuffer (st_conn s)) \<noteq> [] \<longrightarrow>
         tc_state (st_conn s) = kDisconnecting \<longrightarrow>
         shutdown_works S (tc_sockfd (st_conn s)) \<longrightarrow> fin_sent V s'))"

lemma handleWrite_ok:
  assumes S: "kernel_doc S V" and ok: "conn_ok V s"
  shows "holdsE conn_error (\<lambda>s'. conn_ok V s' \<and> evolves V s s' \<and> out_stream V s' = out_stream V s \<and>
      write_effect S V s s')
    (handleWrite S cbs s)"
proof (cases "isWriting (tc_channel (st_conn s))")
  case True
  let ?b = "tc_outputBuffer (st_conn s)" and ?f = "tc_sockfd (st_conn s)"
  have core: "conn_core V s" and live: "live (st_conn s)" and nofin: "\<not> fin_sent V s"
    using ok True by (auto simp: conn_ok_def live_def)
  have bok: "buffer_ok ?b" and fd: "ch_fd (tc_channel (st_conn s)) = ?f" using core by (auto simp: conn_core_def)
  obtain r k where w: "sys_write S ?f (readable ?b) (st_kern s) = (r, k)" by fastforce
  note d = kernel_docD(2) [OF S, unfolded write_doc_def, rule_format, OF w]
  have ep: "ep_synced V (el_poller (st_loop s), k) p ch = ep_synced V (st_poller s) p ch" for p ch
    by (rule ep_synced_reg) (use d in simp)
  have res: "write_result S (readable ?b) s = r" by (simp add: write_result_def w)
  have code: "writeFd S (ch_fd (tc_channel (st_conn s))) ?b (st_kern s) = Inr (r, k)"
    by (simp add: writeFd_def peek_all [OF bok] fd w)
  have stay: "conn_ok V (s\<lparr>st_kern := k\<rparr>) \<and> evolves V s (s\<lparr>st_kern := k\<rparr>) \<and>
      out_stream V (s\<lparr>st_kern := k\<rparr>) = out_stream V s" if "v_sent V k = v_sent V (st_kern s)"
    using keeps_same_view [OF that] d ok that by (auto simp: keeps_Inr out_stream_def split: io.splits)
  show ?thesis
  proof (cases "\<exists>n>0. r = Done n")
    case False
    then have r0: "r = Done 0 \<or> (\<exists>e. r = Fail e)" by (cases r) auto
    then have "v_sent V k = v_sent V (st_kern s)" using d by auto
    from stay [OF this] show ?thesis
      using True r0 res by (auto simp: handleWrite_def code Let_def write_effect_def write_count_def split: io.splits)
  next
    case n: True
    then obtain n where n: "r = Done n" "0 < n" by blast
    have nle: "n \<le> length (readable ?b)" using d n by simp
    have un: "unat (of_nat n :: size_t) = n"
      using nle readable_bound [OF bok] by (simp add: unat_of_nat_size vector_max_def)
    let ?b' = "retrieve (of_nat n) ?b"
    let ?s = "upd_conn (\<lambda>c. c\<lparr>tc_outputBuffer := retrieve (of_nat n) (tc_outputBuffer c)\<rparr>) (s\<lparr>st_kern := k\<rparr>)"
    have b': "buffer_ok ?b'" "readable ?b' = drop n (readable ?b)"
      using retrieve_ok [OF bok, of "of_nat n"] un by simp_all
    have core': "conn_core V ?s" using core b'(1) by (simp add: conn_core_def ep)
    have str: "out_stream V ?s = out_stream V s"
      using d n b' by (simp add: out_stream_def)
    have fin': "\<not> fin_sent V ?s" using nofin d by (simp add: fin_sent_def)
    have ev: "evolves V s ?s"
      using str d n nofin by (simp add: evolves_def fin_sent_def)
    show ?thesis
    proof (cases "readableBytes ?b' = 0")
      case True
      then have "readable ?b' = []" using readableBytes_0_iff [OF b'(1)] by simp
      then have "holdsE conn_error (\<lambda>s'. conn_ok V s' \<and> evolves V ?s s' \<and> out_stream V s' = out_stream V ?s \<and>
            tc_state (st_conn s') = tc_state (st_conn ?s) \<and> tc_outputBuffer (st_conn s') = tc_outputBuffer (st_conn ?s) \<and>
            (tc_state (st_conn ?s) = kDisconnecting \<longrightarrow> shutdown_works S (tc_sockfd (st_conn ?s)) \<longrightarrow> fin_sent V s'))
          (bindE (on_channel (disableWriting S) ?s) (\<lambda>s.
             let s = (if cb_writeComplete cbs \<noteq> None then queueInLoop S (WriteComplete (tc_id (st_conn s))) s else s)
             in if tc_state (st_conn s) = kDisconnecting then shutdownInLoop S s else Inr s))"
        using live by (intro drained_ok [OF S core' _ fin']) (simp_all add: live_def)
      then have "holdsE conn_error (\<lambda>s'. conn_ok V s' \<and> evolves V s s' \<and> out_stream V s' = out_stream V s \<and>
      write_effect S V s s')
          (bindE (on_channel (disableWriting S) ?s) (\<lambda>s.
             let s = (if cb_writeComplete cbs \<noteq> None then queueInLoop S (WriteComplete (tc_id (st_conn s))) s else s)
             in if tc_state (st_conn s) = kDisconnecting then shutdownInLoop S s else Inr s))"
        by (rule holdsE_mono)
          (use ev str b'(2) res n \<open>isWriting (tc_channel (st_conn s))\<close> in \<open>auto simp: write_effect_def write_count_def intro: evolves_trans\<close>)
      then show ?thesis
        using True \<open>isWriting (tc_channel (st_conn s))\<close> n by (simp add: handleWrite_def code Let_def)
    next
      case False
      then have "readable ?b' \<noteq> []" using readableBytes_0_iff [OF b'(1)] by simp
      then have "conn_ok V ?s"
        using core' fin' live \<open>isWriting (tc_channel (st_conn s))\<close> by (auto simp: conn_ok_def live_def)
      then show ?thesis
        using False \<open>isWriting (tc_channel (st_conn s))\<close> \<open>readable ?b' \<noteq> []\<close> n ev str b'(2) res
        by (simp add: handleWrite_def code Let_def write_effect_def write_count_def)
    qed
  qed
qed (use ok in \<open>simp add: handleWrite_def write_effect_def\<close>)

section \<open>Lemmas: establishing, destroying, tasks\<close>

lemma connectEstablished_ok:
  assumes S: "kernel_doc S V" and cbs: "good_callbacks V cbs" and ok: "conn_ok V s"
    and new: "tc_state (st_conn s) = kConnecting"
  shows "keeps V s (connectEstablished S cbs s)"
proof -
  let ?s = "upd_conn (\<lambda>c. c\<lparr>tc_channel := Channel_tie (tc_id c) (tc_channel c)\<rparr>) (setState kConnected s)"
  have same: "ep_synced V q p (Channel_tie c ch) = ep_synced V q p ch" for q p c ch
    by (simp add: ep_synced_def known_def)
  have core: "conn_core V ?s" using ok by (simp add: conn_ok_def conn_core_def setState_def same)
  have ev: "evolves V s ?s"
    using new by (simp add: evolves_def setState_def out_stream_def fin_sent_def)
  have "holdsE conn_error (\<lambda>s'. conn_ok V s' \<and> evolves V s s') (on_channel (enableReading S) ?s)"
  proof (rule holdsE_mono [OF on_channel_ops(3) [OF kernel_docD(5) [OF S] core]])
    fix s' assume "chan_changed V (ch_events (tc_channel (st_conn ?s)) OR kReadEvent) ?s s'"
    note eff = chan_changed_effect [OF this core]
    have "readable (tc_outputBuffer (st_conn s)) = []" "\<not> isWriting (tc_channel (st_conn s))" "\<not> fin_sent V s"
      using ok new by (auto simp: conn_ok_def live_def)
    moreover from this have "\<not> isWriting (tc_channel (st_conn s'))"
      using eff by (simp add: setState_def isWriting_bit bit_or_iff write_bit)
    ultimately have "conn_ok V s'"
      using eff by (auto simp: conn_ok_def setState_def fin_sent_def)
    then show "conn_ok V s' \<and> evolves V s s'" using ev eff evolves_trans by blast
  qed (simp add: conn_error_def)
  then show ?thesis
    unfolding connectEstablished_def Let_def
    by (intro keeps_bind keeps_callback [OF cbs]) (simp_all add: keeps_def)
qed

lemma on_channel_remove_ok:
  assumes S: "kernel_doc S V" and ok: "conn_ok V s"
  shows "keeps V s (on_channel (removeChannel S) s)"
proof -
  have kn: "known V (st_poller s) (self_ptr s) (tc_channel (st_conn s))"
    using ok by (simp add: conn_ok_def conn_core_def ep_synced_def)
  obtain q where q: "removeChannel S (self_ptr s) (tc_channel (st_conn s)) s =
        Inr (set_index kNew (tc_channel (st_conn s)), with_poller q s)"
      "known V q (self_ptr s) (set_index kNew (tc_channel (st_conn s)))"
      "same_but V (ch_fd (tc_channel (st_conn s))) (st_poller s) q"
    using removeChannel_st [OF kernel_docD(5) [OF S] kn] by blast
  then show ?thesis
    using ok by (auto simp: on_channel_def keeps_Inr conn_ok_def conn_core_def evolves_def out_stream_def
        fin_sent_def same_but_def ep_synced_def index_defs live_def)
qed

lemma connectDestroyed_ok:
  assumes S: "kernel_doc S V" and cbs: "good_callbacks V cbs" and ok: "conn_ok V s"
  shows "keeps V s (connectDestroyed S cbs s)"
  unfolding connectDestroyed_def
proof (rule keeps_bind)
  have td: "keeps V s (on_channel (disableAll S) (setState kDisconnected s))"
    unfolding keeps_def by (rule holdsE_mono [OF take_down_ok [OF kernel_docD(5) [OF S] ok]]) auto
  show "keeps V s (if tc_state (st_conn s) = kConnected
      then bindE (on_channel (disableAll S) (setState kDisconnected s)) (call (cb_connection cbs)) else Inr s)"
    using keeps_bind [OF td keeps_callback(1) [OF cbs]] ok by (simp add: keeps_Inr)
  show "keeps V s' (on_channel (removeChannel S) s')" if "conn_ok V s'" for s'
    by (rule on_channel_remove_ok [OF S that])
qed

lemma conn_ok_sendfile:
  assumes S: "kernel_doc S V" and ok: "conn_ok V s" and empty: "readable (tc_outputBuffer (st_conn s)) = []"
    and w: "sys_sendfile S (tc_sockfd (st_conn s)) g off n (st_kern s) = (r, off', k)"
  shows "conn_ok V (s\<lparr>st_kern := k\<rparr>) \<and> evolves V s (s\<lparr>st_kern := k\<rparr>)"
proof -
  note d = kernel_docD(8) [OF S, unfolded sendfile_doc_def, rule_format, OF w]
  have ep: "ep_synced V (el_poller (st_loop s), k) p ch = ep_synced V (st_poller s) p ch" for p ch
    by (rule ep_synced_reg) (use d in simp)
  obtain e where "v_sent V k (tc_sockfd (st_conn s)) = v_sent V (st_kern s) (tc_sockfd (st_conn s)) @ e"
    using d by (cases r) auto
  then show ?thesis
    using ok d empty by (simp add: conn_ok_def conn_core_def evolves_def out_stream_def fin_sent_def ep)
qed

lemma sendFileInLoop_ok:
  assumes S: "kernel_doc S V" and ok: "conn_ok V s"
  shows "keeps V s (Inr (sendFileInLoop S cbs g off n s))"
proof -
  let ?attempt = "\<not> isWriting (tc_channel (st_conn s)) \<and> readableBytes (tc_outputBuffer (st_conn s)) = 0"
  obtain r off' k where w: "sys_sendfile S (tc_sockfd (st_conn s)) g off (unat n) (st_kern s) = (r, off', k)"
    by (metis prod_cases3)
  have q: "conn_ok V (queueInLoop S t s') \<and> evolves V s (queueInLoop S t s')"
    if "conn_ok V s'" "evolves V s s'" for s' t
    using keeps_queue [OF kernel_docD(2) [OF S] that(1)] that(2) by (auto simp: keeps_Inr intro: evolves_trans)
  have k: "conn_ok V (s\<lparr>st_kern := k\<rparr>) \<and> evolves V s (s\<lparr>st_kern := k\<rparr>)" if ?attempt
    using that tries_write_iff [OF ok] by (intro conn_ok_sendfile [OF S ok _ w]) (simp add: tries_write_def)
  show ?thesis
    using ok k q [of s] q [of "s\<lparr>st_kern := k\<rparr>"] q [OF q [THEN conjunct1] q [THEN conjunct2], of "s\<lparr>st_kern := k\<rparr>"] w
    by (auto simp: keeps_Inr sendFileInLoop_def Let_def split: io.splits)
qed

section \<open>A connection over its life\<close>

text \<open>Tasks that are queued only once the connection has reached a state, and states never go back.\<close>

fun task_ok :: "task \<Rightarrow> ('k, 'z) conn_st_scheme \<Rightarrow> bool" where
  "task_ok (SendInLoop c p n) s \<longleftrightarrow> 1 \<le> state_rank (tc_state (st_conn s)) \<and>
     (\<forall>d. st_mem s p = Some d \<longrightarrow> memory_block d)"
| "task_ok (ShutdownInLoop c) s \<longleftrightarrow> 2 \<le> state_rank (tc_state (st_conn s))"
| "task_ok (ConnectEstablished c) s \<longleftrightarrow> tc_state (st_conn s) = kConnecting"
| "task_ok (SendFileInLoop c f off n) s \<longleftrightarrow> True"
| "task_ok (WriteComplete c) s \<longleftrightarrow> True"
| "task_ok (HighWaterMark c n) s \<longleftrightarrow> True"
| "task_ok (ConnectDestroyed c) s \<longleftrightarrow> True"
| "task_ok _ s \<longleftrightarrow> False"

lemma rank_simps:
  "1 \<le> state_rank x \<longleftrightarrow> x \<noteq> kConnecting" "2 \<le> state_rank x \<longleftrightarrow> x = kDisconnecting \<or> x = kDisconnected"
  by (cases x; simp)+

lemma run_task_ok:
  assumes S: "kernel_doc S V" and cbs: "good_callbacks V cbs" and ok: "conn_ok V s" and t: "task_ok t s"
    and r: "run_task S cbs other t s = Inr s'"
  shows "conn_ok V s' \<and> evolves V s s'"
proof -
  have k: "keeps V s m \<Longrightarrow> m = Inr s' \<Longrightarrow> conn_ok V s' \<and> evolves V s s'" for m
    by (simp add: keeps_Inr)
  show ?thesis
  proof (cases t)
    case (SendInLoop c p n)
    then obtain d where d: "st_mem s p = Some d" "sendInLoop S cbs (take n d) s = Inr s'"
      using r by (auto simp: read_string_def split: option.splits if_splits)
    have "memory_block (take n d)" using t SendInLoop d by (auto simp: memory_block_def)
    moreover have "tc_state (st_conn s) \<noteq> kConnecting"
      using t by (simp only: SendInLoop task_ok.simps rank_simps) simp
    ultimately show ?thesis using holdsED [OF sendInLoop_ok [OF S ok] d(2)] by simp
  next
    case (ShutdownInLoop c)
    then have "tc_state (st_conn s) = kDisconnecting \<or> tc_state (st_conn s) = kDisconnected"
      using t by (simp only: task_ok.simps rank_simps)
    then show ?thesis
      using shutdownInLoop_ok [OF kernel_docD(3) [OF S] ok] r ShutdownInLoop by auto
  next
    case (ConnectEstablished c)
    then show ?thesis using k [OF connectEstablished_ok [OF S cbs ok]] r t by simp
  next
    case (ConnectDestroyed c)
    then show ?thesis using k [OF connectDestroyed_ok [OF S cbs ok]] r by simp
  next
    case (SendFileInLoop c f off n)
    then show ?thesis using k [OF sendFileInLoop_ok [OF S ok]] r by simp
  next
    case (WriteComplete c)
    then show ?thesis using k [OF keeps_callback(3) [OF cbs ok]] r by simp
  next
    case (HighWaterMark c n)
    then show ?thesis using k [OF keeps_callback(5) [OF cbs ok]] r by simp
  qed (use t in auto)
qed

lemma send_ok:
  assumes S: "kernel_doc S V" and ok: "conn_ok V s" and mem: "st_mem s p = Some d" "memory_block d"
    and r: "send S cbs other p s = Inr s'"
  shows "conn_ok V s' \<and> evolves V s s'"
proof (cases "tc_state (st_conn s) = kConnected")
  case True
  show ?thesis
  proof (cases "isInLoopThread s")
    case loop: True
    then have "sendInLoop S cbs d s = Inr s'" using r True mem by (simp add: send_def)
    from holdsED [OF sendInLoop_ok [OF S ok mem(2)] this] True show ?thesis by simp
  next
    case False
    then have "s' = queueInLoop S (SendInLoop (tc_id (st_conn s)) p (length d)) s"
      using r True mem by (simp add: send_def runInLoop_def)
    with keeps_queue [OF kernel_docD(2) [OF S] ok] show ?thesis by (simp add: keeps_Inr)
  qed
qed (use r ok in \<open>simp add: send_def\<close>)

lemma shutdown_go_ok:
  assumes S: "kernel_doc S V" and ok: "conn_ok V s" and up: "live (st_conn s)" and r: "shutdown_go S cbs other s = Inr s'"
  shows "conn_ok V s' \<and> evolves V s s'"
proof -
  let ?s = "setState kDisconnecting s"
  have ok': "conn_ok V ?s" "evolves V s ?s"
    using ok up by (auto simp: conn_ok_def conn_core_def setState_def evolves_def live_def fin_sent_def out_stream_def)
  show ?thesis
  proof (cases "isInLoopThread ?s")
    case loop: True
    then have "shutdownInLoop S ?s = Inr s'" using r by (simp add: shutdown_go_def runInLoop_def)
    moreover have "tc_state (st_conn ?s) = kDisconnecting" by (simp add: setState_def)
    ultimately show ?thesis
      using shutdownInLoop_ok [OF kernel_docD(3) [OF S] ok'(1)] ok'(2) by (auto intro: evolves_trans)
  next
    case False
    then have "s' = queueInLoop S (ShutdownInLoop (tc_id (st_conn s))) ?s"
      using r by (simp add: shutdown_go_def runInLoop_def)
    with keeps_queue [OF kernel_docD(2) [OF S] ok'(1)] ok'(2) show ?thesis
      by (auto simp: keeps_Inr intro: evolves_trans)
  qed
qed

lemma shutdown_ok:
  "kernel_doc S V \<Longrightarrow> conn_ok V s \<Longrightarrow> shutdown S cbs other s = Inr s' \<Longrightarrow> conn_ok V s' \<and> evolves V s s'"
  using shutdown_go_ok [of S V s cbs other s'] by (auto simp: shutdown_def live_def split: if_splits)

lemma sendFile_ok:
  assumes S: "kernel_doc S V" and ok: "conn_ok V s" and r: "sendFile S cbs other g off n s = Inr s'"
  shows "conn_ok V s' \<and> evolves V s s'"
  using r ok sendFileInLoop_ok [OF S ok] keeps_queue [OF kernel_docD(2) [OF S] ok]
  by (auto simp: sendFile_def runInLoop_def keeps_Inr split: if_splits)

lemma conn_handleEvent_ok:
  assumes S: "kernel_doc S V" and cbs: "good_callbacks V cbs" and ok: "conn_ok V s"
  shows "keeps V s (conn_handleEvent S cbs alive t s)"
proof -
  have w: "keeps V s (handleWrite S cbs s)" if "conn_ok V s" for s
    unfolding keeps_def by (rule holdsE_mono [OF handleWrite_ok [OF S that]]) auto
  have "keeps V s (handleEventWithGuard (\<lambda>s. tc_channel (st_conn s)) (conn_callbacks S cbs) t s)"
    unfolding handleEventWithGuard_def conn_callbacks_def
    using ok
    by (intro keeps_bind)
      (auto simp: keeps_Inr intro: handleClose_ok [OF S cbs] handleError_ok [OF S] conn_handleRead_ok [OF S cbs] w)
  then show ?thesis
    using ok by (auto simp: conn_handleEvent_def handleEvent_def keeps_Inr split: option.splits)
qed

text \<open>
  A run of a connection: events delivered by the poller, calls of its interface, tasks run by the
  loop; between them threads alternate and callers make and destroy strings. What runs in the loop's
  thread is one step. A call from another thread is two: it tests \<open>state_\<close>, and later, whatever
  has happened, it queues its task (\<open>send\<close>, \<open>sendFile\<close>: \<open>run_post\<close>) or stores \<open>kDisconnecting\<close> and queues
  (\<open>shutdown\<close>). In \<open>conn_run S cbs other s0 n late s\<close>, \<open>n\<close> is the number of threads that are between
  the test and the store of \<open>shutdown\<close>, and \<open>late\<close> tells whether a store has come when
  the connection was closed already.
\<close>

inductive conn_run :: "'k sys \<Rightarrow> ('k, 'z) conn_st_scheme callbacks \<Rightarrow>
    (task \<Rightarrow> ('k, 'z) conn_st_scheme \<Rightarrow> error + ('k, 'z) conn_st_scheme) \<Rightarrow>
    ('k, 'z) conn_st_scheme \<Rightarrow> nat \<Rightarrow> bool \<Rightarrow> ('k, 'z) conn_st_scheme \<Rightarrow> bool"
  for S cbs other s0 where
  run_start: "conn_run S cbs other s0 0 False s0"
| run_event: "conn_run S cbs other s0 n late s \<Longrightarrow>
    conn_handleEvent S cbs alive t (upd_conn (\<lambda>c. c\<lparr>tc_channel := set_revents e (tc_channel c)\<rparr>) s) = Inr s' \<Longrightarrow>
    conn_run S cbs other s0 n late s'"
| run_send: "conn_run S cbs other s0 n late s \<Longrightarrow> isInLoopThread s \<Longrightarrow> st_mem s p = Some d \<Longrightarrow> memory_block d \<Longrightarrow>
    send S cbs other p s = Inr s' \<Longrightarrow> conn_run S cbs other s0 n late s'"
| run_sendFile: "conn_run S cbs other s0 n late s \<Longrightarrow> isInLoopThread s \<Longrightarrow> sendFile S cbs other g off m s = Inr s' \<Longrightarrow>
    conn_run S cbs other s0 n late s'"
| run_post: "conn_run S cbs other s0 n late s \<Longrightarrow> \<not> isInLoopThread s \<Longrightarrow> conn_run S cbs other s0 n late (queueInLoop S t s)"
| run_shutdown: "conn_run S cbs other s0 n late s \<Longrightarrow> isInLoopThread s \<Longrightarrow> shutdown S cbs other s = Inr s' \<Longrightarrow>
    conn_run S cbs other s0 n late s'"
| run_shutdown_test: "conn_run S cbs other s0 n late s \<Longrightarrow> \<not> isInLoopThread s \<Longrightarrow> tc_state (st_conn s) = kConnected \<Longrightarrow>
    conn_run S cbs other s0 (Suc n) late s"
| run_shutdown_store: "conn_run S cbs other s0 (Suc n) late s \<Longrightarrow> \<not> isInLoopThread s \<Longrightarrow> shutdown_go S cbs other s = Inr s' \<Longrightarrow>
    conn_run S cbs other s0 n (late \<or> tc_state (st_conn s) = kDisconnected) s'"
| run_queued: "conn_run S cbs other s0 n late s \<Longrightarrow> task_ok t s \<Longrightarrow> run_task S cbs other t s = Inr s' \<Longrightarrow>
    conn_run S cbs other s0 n late s'"
| run_thread: "conn_run S cbs other s0 n late s \<Longrightarrow> conn_run S cbs other s0 n late (s\<lparr>st_tid := i, st_mem := m\<rparr>)"

lemma revents_ok:
  assumes "conn_ok V s"
  shows "conn_ok V (upd_conn (\<lambda>c. c\<lparr>tc_channel := set_revents e (tc_channel c)\<rparr>) s)"
    "evolves V s (upd_conn (\<lambda>c. c\<lparr>tc_channel := set_revents e (tc_channel c)\<rparr>) s)"
proof -
  have "ep_synced V q p (set_revents e ch) = ep_synced V q p ch" for q p ch
    by (simp add: ep_synced_def known_def set_revents_def)
  then show "conn_ok V (upd_conn (\<lambda>c. c\<lparr>tc_channel := set_revents e (tc_channel c)\<rparr>) s)"
    "evolves V s (upd_conn (\<lambda>c. c\<lparr>tc_channel := set_revents e (tc_channel c)\<rparr>) s)"
    using assms by (auto simp: conn_ok_def conn_core_def evolves_def out_stream_def fin_sent_def live_def
        set_revents_def isWriting_def)
qed

lemma evolves_up: "evolves V s s' \<Longrightarrow> tc_state (st_conn s) \<noteq> kConnecting \<Longrightarrow> tc_state (st_conn s') \<noteq> kConnecting"
  by (cases "tc_state (st_conn s)"; cases "tc_state (st_conn s')") (simp_all add: evolves_def)

text \<open>As long as no store of \<open>shutdown\<close> has come too late.\<close>

definition on_track :: "'k view \<Rightarrow> ('k, 'z) conn_st_scheme \<Rightarrow> nat \<Rightarrow> ('k, 'z) conn_st_scheme \<Rightarrow> bool" where
  "on_track V s0 n s \<longleftrightarrow> conn_ok V s \<and> evolves V s0 s \<and> (0 < n \<longrightarrow> tc_state (st_conn s) \<noteq> kConnecting)"

lemma on_track_step: "on_track V s0 n s \<Longrightarrow> conn_ok V s' \<and> evolves V s s' \<Longrightarrow> on_track V s0 n s'"
  by (auto simp: on_track_def intro: evolves_trans dest: evolves_up)

lemma conn_run_track:
  assumes S: "kernel_doc S V" and cbs: "good_callbacks V cbs" and ok: "conn_ok V s0"
  shows "conn_run S cbs other s0 n late s \<Longrightarrow> \<not> late \<Longrightarrow> on_track V s0 n s"
proof (induction rule: conn_run.induct)
  case run_start
  then show ?case using ok by (simp add: on_track_def)
next
  case (run_event n late s alive t e s')
  let ?s = "upd_conn (\<lambda>c. c\<lparr>tc_channel := set_revents e (tc_channel c)\<rparr>) s"
  have k: "conn_ok V s" using run_event by (simp add: on_track_def)
  have "conn_ok V s' \<and> evolves V ?s s'"
    using conn_handleEvent_ok [OF S cbs revents_ok(1) [OF k, of e], of alive t] run_event.hyps(2) by (simp add: keeps_Inr)
  with revents_ok(2) [OF k, of e] show ?case using on_track_step run_event by (blast intro: evolves_trans)
next
  case (run_post n late s t)
  then have "keeps V s (Inr (queueInLoop S t s))" by (simp add: on_track_def keeps_queue [OF kernel_docD(2) [OF S]])
  then show ?case using on_track_step run_post by (simp only: keeps_Inr simp_thms) blast
next
  case (run_shutdown_store n late s s')
  then have t: "on_track V s0 (Suc n) s" and "tc_state (st_conn s) \<noteq> kDisconnected" by auto
  then have "live (st_conn s)" "conn_ok V s" using conn_state.exhaust by (auto simp: on_track_def live_def)
  with shutdown_go_ok [OF S] run_shutdown_store.hyps(3) have "conn_ok V s' \<and> evolves V s s'" by blast
  from on_track_step [OF t this] show ?case by (simp add: on_track_def)
next
  case (run_thread n late s m i)
  then have "conn_ok V (s\<lparr>st_tid := i, st_mem := m\<rparr>) \<and> evolves V s (s\<lparr>st_tid := i, st_mem := m\<rparr>)"
    by (auto simp: on_track_def conn_ok_def conn_core_def evolves_def out_stream_def fin_sent_def self_ptr_def)
  then show ?case using on_track_step run_thread by blast
qed (use S in \<open>auto simp: on_track_def intro: evolves_trans dest: evolves_up send_ok shutdown_ok sendFile_ok run_task_ok [OF S cbs]\<close>)

lemma conn_run_ok:
  assumes "kernel_doc S V" and "good_callbacks V cbs" and "conn_ok V s0" and "conn_run S cbs other s0 n False s"
  shows "conn_ok V s \<and> evolves V s0 s"
  using conn_run_track [OF assms] by (simp add: on_track_def)

end
