(* ===== verification/Acceptor.thy ===== *)
theory Acceptor
  imports EventLoop Socket
begin

text \<open>
  The acceptor (include/Acceptor.h, src/Acceptor.cpp). Its state extends the state of the loop it
  lives on. The new-connection callback is an argument, \<open>None\<close> when it is not set.
\<close>

section \<open>State and operations\<close>

record acceptor =
  ac_sockfd :: fd
  ac_channel :: channel
  ac_listenning :: bool

record ('f, 'k) acceptor_st = "('f, 'k) loop_st" +
  st_acceptor :: acceptor

definition createNonblocking :: "'k sys \<Rightarrow> 'k \<Rightarrow> error + (fd \<times> 'k)" where
  "createNonblocking S k = (case sys_socket S k of (Done f, k) \<Rightarrow> Inr (f, k) | (Fail e, k) \<Rightarrow> Inl FatalExit)"

definition Acceptor_init :: "'k sys \<Rightarrow> inet_address \<Rightarrow> bool \<Rightarrow> 'k \<Rightarrow> error + (acceptor \<times> 'k)" where
  "Acceptor_init S listenAddr reuseport k =
     bindE (createNonblocking S k) (\<lambda>(f, k).
     bindE (bindAddress S f listenAddr (setReusePort S f True (setReuseAddr S f True k))) (\<lambda>k.
     Inr (\<lparr>ac_sockfd = f, ac_channel = Channel_init f, ac_listenning = False\<rparr>, k)))"

definition accept_ptr :: "('f, 'k, 'z) acceptor_st_scheme \<Rightarrow> chan_ptr" where
  "accept_ptr s = AcceptChannelOf (st_self s)"

definition upd_acceptor :: "(acceptor \<Rightarrow> acceptor) \<Rightarrow> ('f, 'k, 'z) acceptor_st_scheme \<Rightarrow> ('f, 'k, 'z) acceptor_st_scheme" where
  "upd_acceptor f s = s\<lparr>st_acceptor := f (st_acceptor s)\<rparr>"

definition Acceptor_listen :: "'k sys \<Rightarrow> ('f, 'k, 'z) acceptor_st_scheme \<Rightarrow> error + ('f, 'k, 'z) acceptor_st_scheme" where
  "Acceptor_listen S s =
     (let s = upd_acceptor (\<lambda>a. a\<lparr>ac_listenning := True\<rparr>) s in
      bindE (socket_listen S (ac_sockfd (st_acceptor s)) (st_kern s)) (\<lambda>k.
      bindE (enableReading S (accept_ptr s) (ac_channel (st_acceptor s)) (s\<lparr>st_kern := k\<rparr>)) (\<lambda>(ch, s).
      Inr (upd_acceptor (\<lambda>a. a\<lparr>ac_channel := ch\<rparr>) s))))"

definition Acceptor_handleRead :: "'k sys \<Rightarrow>
    (fd \<Rightarrow> inet_address \<Rightarrow> ('f, 'k, 'z) acceptor_st_scheme \<Rightarrow> error + ('f, 'k, 'z) acceptor_st_scheme) option \<Rightarrow>
    inet_address \<Rightarrow> ('f, 'k, 'z) acceptor_st_scheme \<Rightarrow> error + ('f, 'k, 'z) acceptor_st_scheme" where
  "Acceptor_handleRead S newConnectionCallback peerAddr s =
     (case accept S (ac_sockfd (st_acceptor s)) peerAddr (st_kern s) of
        (Done connfd, peerAddr, k) \<Rightarrow>
          (case newConnectionCallback of
             Some f \<Rightarrow> f connfd peerAddr (s\<lparr>st_kern := k\<rparr>)
           | None \<Rightarrow> Inr (s\<lparr>st_kern := snd (sys_close S connfd k)\<rparr>))
      | (Fail e, peerAddr, k) \<Rightarrow> Inr (s\<lparr>st_kern := k\<rparr>))"

definition Acceptor_destroy :: "'k sys \<Rightarrow> ('f, 'k, 'z) acceptor_st_scheme \<Rightarrow> error + ('f, 'k, 'z) acceptor_st_scheme" where
  "Acceptor_destroy S s =
     bindE (disableAll S (accept_ptr s) (ac_channel (st_acceptor s)) s) (\<lambda>(ch, s).
     bindE (removeChannel S (accept_ptr s) ch s) (\<lambda>(ch, s).
     Inr (upd_acceptor (\<lambda>a. a\<lparr>ac_channel := ch\<rparr>)
       (s\<lparr>st_kern := Socket_destroy S (ac_sockfd (st_acceptor s)) (st_kern s)\<rparr>))))"

text \<open>The option to share the port has no effect.\<close>

lemma reuseport_ignored: "Acceptor_init S a reuseport k = Acceptor_init S a True k"
  by (simp add: Acceptor_init_def)

section \<open>Properties\<close>

lemma upd_acceptor_simps [simp]:
  "st_acceptor (upd_acceptor f s) = f (st_acceptor s)" "st_loop (upd_acceptor f s) = st_loop s"
  "st_kern (upd_acceptor f s) = st_kern s" "st_self (upd_acceptor f s) = st_self s"
  "st_tid (upd_acceptor f s) = st_tid s"
  by (simp_all add: upd_acceptor_def)

lemma with_poller_acceptor [simp]: "st_acceptor (with_poller q s) = st_acceptor s"
  by (simp add: with_poller_def)

lemma Acceptor_destroy_ok:
  assumes docs: "epoll_ctl_doc S V" "close_doc S V"
    and kn: "known V (st_poller s) (accept_ptr s) (ac_channel (st_acceptor s))"
    and added: "ch_index (ac_channel (st_acceptor s)) = kAdded"
  shows "\<exists>s'. Acceptor_destroy S s = Inr s' \<and> interest V (st_poller s') (ch_fd (ac_channel (st_acceptor s))) = None \<and>
    ep_channels (el_poller (st_loop s')) (ch_fd (ac_channel (st_acceptor s))) = None"
proof -
  obtain ch1 q1 ch2 q where q:
      "disableAll S (accept_ptr s) (ac_channel (st_acceptor s)) s = Inr (ch1, with_poller q1 s)"
      "removeChannel S (accept_ptr s) ch1 (with_poller q1 s) = Inr (ch2, with_poller q s)"
      "interest V q (ch_fd (ac_channel (st_acceptor s))) = None"
      "ep_channels (fst q) (ch_fd (ac_channel (st_acceptor s))) = None"
    using unwatch_ok [OF docs(1) kn added] by blast
  moreover have "accept_ptr (with_poller q1 s) = accept_ptr s" by (simp add: accept_ptr_def)
  ultimately show ?thesis
    by (auto simp: Acceptor_destroy_def Socket_destroy_def interest_def intro: close_gone [OF docs(2)])
qed

text \<open>The listening descriptor is watched exactly from \<open>listen()\<close> to destruction. From a new
  channel whose descriptor nobody watches, \<open>listen()\<close> makes the kernel watch it for reading in the
  acceptor's name; the destructor then always succeeds, takes it out of the epoll set and the
  poller's table, and closes it.\<close>

lemma Acceptor_watch:
  assumes "epoll_ctl_doc S V" and "close_doc S V"
    and "\<And>f n k. v_reg V (snd (sys_listen S f n k)) = v_reg V k"
    and "ac_channel (st_acceptor s) = Channel_init (ac_sockfd (st_acceptor s))"
    and "interest V (st_poller s) (ac_sockfd (st_acceptor s)) = None"
    and "ep_channels (el_poller (st_loop s)) (ac_sockfd (st_acceptor s)) = None"
  shows "holdsE (\<lambda>e. e = FatalExit) (\<lambda>s1. ac_listenning (st_acceptor s1) \<and>
      interest V (st_poller s1) (ac_sockfd (st_acceptor s)) = Some (kReadEvent, accept_ptr s) \<and>
      (\<exists>s2. Acceptor_destroy S s1 = Inr s2 \<and> interest V (st_poller s2) (ac_sockfd (st_acceptor s)) = None \<and>
         ep_channels (el_poller (st_loop s2)) (ac_sockfd (st_acceptor s)) = None))
    (Acceptor_listen S s)"
proof -
  let ?f = "ac_sockfd (st_acceptor s)" and ?a = "upd_acceptor (\<lambda>a. a\<lparr>ac_listenning := True\<rparr>) s"
  obtain r k where l: "sys_listen S ?f 1024 (st_kern s) = (r, k)" by fastforce
  have reg: "v_reg V k = v_reg V (st_kern s)" using assms(3) [of ?f 1024 "st_kern s"] l by simp
  show ?thesis
  proof (cases r)
    case (Fail e)
    then show ?thesis using l by (simp add: Acceptor_listen_def socket_listen_def Let_def)
  next
    case (Done u)
    let ?s = "?a\<lparr>st_kern := k\<rparr>" and ?ch = "Channel_init ?f\<lparr>ch_events := ch_events (Channel_init ?f) OR kReadEvent\<rparr>"
    have kn: "known V (st_poller ?s) (accept_ptr s) ?ch"
      using assms(5,6) reg by (simp only: known_events known_new) (simp add: interest_def)
    have code: "Acceptor_listen S s = bindE (updateChannel S (accept_ptr s) ?ch ?s) (\<lambda>(ch, s).
        Inr (upd_acceptor (\<lambda>a. a\<lparr>ac_channel := ch\<rparr>) s))"
      using l Done by (simp add: Acceptor_listen_def socket_listen_def Let_def enableReading_def assms(4) accept_ptr_def)
    let ?Q = "\<lambda>s1. ac_listenning (st_acceptor s1) \<and>
      interest V (st_poller s1) ?f = Some (kReadEvent, accept_ptr s) \<and>
      (\<exists>s2. Acceptor_destroy S s1 = Inr s2 \<and> interest V (st_poller s2) ?f = None \<and>
         ep_channels (el_poller (st_loop s2)) ?f = None)"
    show ?thesis
      unfolding code
    proof (rule holdsE_bind [OF updateChannel_st [OF assms(1) kn]])
      fix x assume "case x of (ch', s') \<Rightarrow> \<exists>q. s' = with_poller q ?s \<and> ch' = set_index (next_index ?ch) ?ch \<and>
        in_sync V q (accept_ptr s) ch' \<and> same_but V (ch_fd ?ch) (st_poller ?s) q"
      then obtain q where x: "x = (set_index (next_index ?ch) ?ch, with_poller q ?s)"
          and sync: "in_sync V q (accept_ptr s) (set_index (next_index ?ch) ?ch)"
        by auto
      let ?s1 = "upd_acceptor (\<lambda>a. a\<lparr>ac_channel := set_index (next_index ?ch) ?ch\<rparr>) (with_poller q ?s)"
      have ix: "next_index ?ch = kAdded" by (simp add: next_index_def Channel_init_def index_defs)
      have fd: "ch_fd (ac_channel (st_acceptor ?s1)) = ?f" by (simp add: Channel_init_def)
      have "known V (st_poller ?s1) (accept_ptr ?s1) (ac_channel (st_acceptor ?s1))"
        using sync by (simp add: in_sync_def accept_ptr_def)
      from Acceptor_destroy_ok [OF assms(1,2) this, unfolded fd]
      have "\<exists>s2. Acceptor_destroy S ?s1 = Inr s2 \<and> interest V (st_poller s2) ?f = None \<and>
          ep_channels (el_poller (st_loop s2)) ?f = None" by (simp add: ix)
      moreover have "interest V q ?f = Some (kReadEvent, accept_ptr s)"
        using sync unfolding ix
        by (auto simp: in_sync_def known_def Channel_init_def index_defs split: option.splits)
      ultimately have "?Q ?s1" by simp
      then show "holdsE (\<lambda>e. e = FatalExit) ?Q
          (case x of (ch, s) \<Rightarrow> Inr (upd_acceptor (\<lambda>a. a\<lparr>ac_channel := ch\<rparr>) s))"
        by (simp add: x)
    qed
  qed
qed

text \<open>An acceptor on descriptor 5 of the sample loop.\<close>

definition sample_acceptor :: "(nat, sim) acceptor_st" where
  "sample_acceptor = \<lparr>st_tid = 100, st_self = 0, st_loop = sample_loop [], st_kern = sim_init,
     st_acceptor = \<lparr>ac_sockfd = 5, ac_channel = Channel_init 5, ac_listenning = False\<rparr>\<rparr>"

lemma Acceptor_watch_witness:
  "\<exists>s1 s2. Acceptor_listen sim_sys sample_acceptor = Inr s1 \<and>
     interest sim_view (st_poller s1) 5 = Some (kReadEvent, AcceptChannelOf 0) \<and>
     Acceptor_destroy sim_sys s1 = Inr s2 \<and> interest sim_view (st_poller s2) 5 = None"
proof -
  have l: "\<exists>s1. Acceptor_listen sim_sys sample_acceptor = Inr s1"
    by (simp add: Acceptor_listen_def sample_acceptor_def socket_listen_def enableReading_def updateChannel_def
        poller_updateChannel_def poller_update_def Channel_init_def index_defs sample_loop_def sim_init_def
        accept_ptr_def set_index_def upd_acceptor_def Let_def)
  have a: "ac_sockfd (st_acceptor sample_acceptor) = 5" "accept_ptr sample_acceptor = AcceptChannelOf 0"
    "ac_channel (st_acceptor sample_acceptor) = Channel_init 5"
    "interest sim_view (st_poller sample_acceptor) 5 = None" "ep_channels (el_poller (st_loop sample_acceptor)) 5 = None"
    by (simp_all add: sample_acceptor_def accept_ptr_def interest_def sim_init_def sample_loop_def)
  have "holdsE (\<lambda>e. e = FatalExit) (\<lambda>s1. ac_listenning (st_acceptor s1) \<and>
      interest sim_view (st_poller s1) 5 = Some (kReadEvent, AcceptChannelOf 0) \<and>
      (\<exists>s2. Acceptor_destroy sim_sys s1 = Inr s2 \<and> interest sim_view (st_poller s2) 5 = None \<and>
         ep_channels (el_poller (st_loop s2)) 5 = None)) (Acceptor_listen sim_sys sample_acceptor)"
    using Acceptor_watch [OF sim_epoll_ctl_doc sim_close_doc, of sample_acceptor] by (simp add: a)
  with l show ?thesis by auto
qed

end
