(* ===== verification/EventLoopThreadPool.thy ===== *)
theory EventLoopThreadPool
  imports Thread "HOL-Library.Multiset"
begin

text \<open>
  The pool of loops (include/EventLoopThreadPool.h, src/EventLoopThreadPool.cpp). Starting a thread
  and its loop (EventLoopThread) is the argument \<open>spawn\<close>: from the thread's name to the loop
  \<open>startLoop\<close> returns. \<open>int\<close> members are integers; \<open>next_\<close> indexes a vector, so an index outside it is
  the error \<open>OutOfBounds\<close>. The locale \<open>round_robin\<close> is the contract a server relies on.
\<close>

section \<open>State and operations\<close>

record loop_pool =
  tp_baseLoop :: loop_id
  tp_name :: string
  tp_started :: bool
  tp_numThreads :: int
  tp_next :: int
  tp_threads :: "string list"
  tp_loops :: "loop_id list"

definition LoopPool_init :: "loop_id \<Rightarrow> string \<Rightarrow> loop_pool" where
  "LoopPool_init baseLoop name = \<lparr>tp_baseLoop = baseLoop, tp_name = name, tp_started = False, tp_numThreads = 0,
     tp_next = 0, tp_threads = [], tp_loops = []\<rparr>"

definition setThreadNum :: "int \<Rightarrow> loop_pool \<Rightarrow> loop_pool" where
  "setThreadNum n p = p\<lparr>tp_numThreads := n\<rparr>"

text \<open>The body of the loop of \<open>start\<close>: a thread named by the pool's name and the index.\<close>

definition start_one :: "(string \<Rightarrow> 's \<Rightarrow> error + (loop_id \<times> 's)) \<Rightarrow> nat \<Rightarrow> loop_pool \<times> 's \<Rightarrow> error + (loop_pool \<times> 's)" where
  "start_one spawn i = (\<lambda>(p, s).
     let buf = snprintf (length (tp_name p) + 32) (tp_name p @ fmt_d (int i)) in
     bindE (spawn buf s) (\<lambda>(l, s).
     Inr (p\<lparr>tp_threads := tp_threads p @ [buf], tp_loops := tp_loops p @ [l]\<rparr>, s)))"

definition pool_start :: "(string \<Rightarrow> 's \<Rightarrow> error + (loop_id \<times> 's)) \<Rightarrow> (loop_id \<Rightarrow> 's \<Rightarrow> error + 's) option \<Rightarrow>
    loop_pool \<times> 's \<Rightarrow> error + (loop_pool \<times> 's)" where
  "pool_start spawn cb = (\<lambda>(p, s).
     bindE (foldE (start_one spawn) [0..<nat (tp_numThreads p)] (p\<lparr>tp_started := True\<rparr>, s)) (\<lambda>(p, s).
     case cb of
       Some f \<Rightarrow> if tp_numThreads p = 0 then bindE (f (tp_baseLoop p) s) (\<lambda>s. Inr (p, s)) else Inr (p, s)
     | None \<Rightarrow> Inr (p, s)))"

definition getNextLoop :: "loop_pool \<Rightarrow> error + (loop_id \<times> loop_pool)" where
  "getNextLoop p =
     (if tp_loops p \<noteq> []
      then if 0 \<le> tp_next p \<and> nat (tp_next p) < length (tp_loops p)
           then let l = tp_loops p ! nat (tp_next p); p = p\<lparr>tp_next := tp_next p + 1\<rparr>
                in Inr (l, if int (length (tp_loops p)) \<le> tp_next p then p\<lparr>tp_next := 0\<rparr> else p)
           else Inl OutOfBounds
      else Inr (tp_baseLoop p, p))"

definition getAllLoops :: "loop_pool \<Rightarrow> loop_id list" where
  "getAllLoops p = (if tp_loops p = [] then [tp_baseLoop p] else tp_loops p)"

section \<open>The contract\<close>

locale round_robin =
  fixes pick :: "'p \<Rightarrow> error + ('l \<times> 'p)" and ok :: "'p \<Rightarrow> bool"
    and all :: "'p \<Rightarrow> 'l list" and pos :: "'p \<Rightarrow> nat"
  assumes pos: "ok p \<Longrightarrow> pos p < length (all p)"
    and pick: "ok p \<Longrightarrow> \<exists>p'. pick p = Inr (all p ! pos p, p') \<and> ok p' \<and> all p' = all p \<and>
      pos p' = Suc (pos p) mod length (all p)"

fun picks :: "('p \<Rightarrow> error + ('l \<times> 'p)) \<Rightarrow> nat \<Rightarrow> 'p \<Rightarrow> error + ('l list \<times> 'p)" where
  "picks pick 0 p = Inr ([], p)"
| "picks pick (Suc n) p = bindE (pick p) (\<lambda>(l, p). bindE (picks pick n p) (\<lambda>(ls, p). Inr (l # ls, p)))"

lemma picks_add: "picks pick (m + n) p =
    bindE (picks pick m p) (\<lambda>(ls, p). bindE (picks pick n p) (\<lambda>(ls', p). Inr (ls @ ls', p)))"
proof (induction m arbitrary: p)
  case (Suc m)
  then show ?case
    by (auto simp: bindE_assoc case_prod_unfold intro!: bindE_cong)
qed (simp add: case_prod_unfold)

context round_robin
begin

lemma picks_are:
  "ok p \<Longrightarrow> \<exists>p'. picks pick n p = Inr (map (\<lambda>i. all p ! ((pos p + i) mod length (all p))) [0..<n], p') \<and>
     ok p' \<and> all p' = all p \<and> pos p' = (pos p + n) mod length (all p)"
proof (induction n arbitrary: p)
  case 0
  then show ?case using pos [of p] by simp
next
  case (Suc n)
  obtain p1 where p1: "pick p = Inr (all p ! pos p, p1)" "ok p1" "all p1 = all p"
      "pos p1 = Suc (pos p) mod length (all p)"
    using pick [OF Suc.prems] by blast
  obtain p2 where p2: "picks pick n p1 = Inr (map (\<lambda>i. all p1 ! ((pos p1 + i) mod length (all p1))) [0..<n], p2)"
      "ok p2" "all p2 = all p1" "pos p2 = (pos p1 + n) mod length (all p1)"
    using Suc.IH [OF p1(2)] by blast
  have m: "(pos p1 + i) mod length (all p) = (pos p + Suc i) mod length (all p)" for i
    by (simp add: p1(4) mod_simps)
  have "map (\<lambda>i. all p ! ((pos p + i) mod length (all p))) [0..<Suc n] =
      all p ! pos p # map (\<lambda>i. all p ! ((pos p + Suc i) mod length (all p))) [0..<n]"
    using pos [OF Suc.prems] by (simp add: upt_conv_Cons map_Suc_upt [symmetric] del: upt_Suc)
  then show ?case using p1 p2 m by auto
qed

lemma one_turn:
  assumes "ok p"
  shows "\<exists>ls p'. picks pick (length (all p)) p = Inr (ls, p') \<and> mset ls = mset (all p) \<and> ok p' \<and> all p' = all p"
proof -
  let ?ls = "map (\<lambda>i. all p ! ((pos p + i) mod length (all p))) [0..<length (all p)]"
  have "?ls = rotate (pos p) (all p)"
    by (rule nth_equalityI) (simp_all add: nth_rotate)
  moreover have "mset (rotate (pos p) (all p)) = mset (all p)"
    by (metis add.commute append_take_drop_id mset_append rotate_drop_take)
  ultimately show ?thesis using picks_are [OF assms, of "length (all p)"] by auto
qed

lemma picks_fair:
  "ok p \<Longrightarrow> \<exists>ls p'. picks pick (k * length (all p)) p = Inr (ls, p') \<and> mset ls = repeat_mset k (mset (all p))"
proof (induction k arbitrary: p)
  case (Suc k)
  obtain ls p1 where 1: "picks pick (length (all p)) p = Inr (ls, p1)" "mset ls = mset (all p)" "ok p1" "all p1 = all p"
    using one_turn [OF Suc.prems] by blast
  obtain ls' p2 where 2: "picks pick (k * length (all p)) p1 = Inr (ls', p2)" "mset ls' = repeat_mset k (mset (all p))"
    using Suc.IH [OF 1(3)] 1(4) by auto
  have "picks pick (Suc k * length (all p)) p = Inr (ls @ ls', p2)"
    using 1(1) 2(1) by (simp add: picks_add)
  with 1(2) 2(2) show ?case by auto
qed simp

end

text \<open>The pool keeps the contract.\<close>

definition pool_ok :: "loop_pool \<Rightarrow> bool" where
  "pool_ok p \<longleftrightarrow> 0 \<le> tp_next p \<and> (tp_loops p = [] \<longrightarrow> tp_next p = 0) \<and>
     (tp_loops p \<noteq> [] \<longrightarrow> nat (tp_next p) < length (tp_loops p))"

lemma getNextLoop_ok:
  assumes "pool_ok p"
  shows "\<exists>p'. getNextLoop p = Inr (getAllLoops p ! nat (tp_next p), p') \<and> pool_ok p' \<and>
    getAllLoops p' = getAllLoops p \<and> nat (tp_next p') = Suc (nat (tp_next p)) mod length (getAllLoops p)"
proof (cases "tp_loops p = []")
  case False
  show ?thesis
  proof (cases "nat (tp_next p) + 1 = length (tp_loops p)")
    case True
    then show ?thesis
      using assms False by (auto simp: getNextLoop_def pool_ok_def getAllLoops_def Let_def)
  next
    case less: False
    then have "nat (tp_next p) + 1 < length (tp_loops p)" "nat (tp_next p + 1) = Suc (nat (tp_next p))"
      using assms False by (auto simp: pool_ok_def)
    then show ?thesis
      using assms False by (auto simp: getNextLoop_def pool_ok_def getAllLoops_def Let_def)
  qed
qed (use assms in \<open>simp add: getNextLoop_def pool_ok_def getAllLoops_def\<close>)

interpretation pool: round_robin getNextLoop pool_ok getAllLoops "\<lambda>p. nat (tp_next p)"
proof unfold_locales
  show "nat (tp_next p) < length (getAllLoops p)" if "pool_ok p" for p
    using that by (auto simp: pool_ok_def getAllLoops_def)
qed (rule getNextLoop_ok)

section \<open>Lemmas on start\<close>

lemma pool_thread_name:
  assumes "i < 2147483648"
  shows "snprintf (length name + 32) (name @ fmt_d (int i)) = name @ fmt_d (int i)"
proof -
  have "length (fmt_d (int i)) \<le> 11" using assms by (intro length_fmt_d_int) simp_all
  then show ?thesis by simp
qed

definition pool_name :: "string \<Rightarrow> nat \<Rightarrow> string" where
  "pool_name name i = name @ fmt_d (int i)"

lemma start_ones:
  assumes "\<And>n s. \<exists>l s'. spawn n s = Inr (l, s')" and "m + n \<le> 2147483648"
  shows "\<exists>p' s'. foldE (start_one spawn) [m..<m + n] (p, s) = Inr (p', s') \<and>
    tp_threads p' = tp_threads p @ map (pool_name (tp_name p)) [m..<m + n] \<and>
    length (tp_loops p') = length (tp_loops p) + n \<and> tp_next p' = tp_next p \<and> tp_name p' = tp_name p \<and>
    tp_numThreads p' = tp_numThreads p \<and> tp_started p' = tp_started p \<and> tp_baseLoop p' = tp_baseLoop p"
  using assms(2)
proof (induction n arbitrary: m p s)
  case (Suc n)
  obtain l s1 where l: "spawn (pool_name (tp_name p) m) s = Inr (l, s1)" using assms(1) by blast
  let ?p = "p\<lparr>tp_threads := tp_threads p @ [pool_name (tp_name p) m], tp_loops := tp_loops p @ [l]\<rparr>"
  have one: "start_one spawn m (p, s) = Inr (?p, s1)"
    using l Suc.prems pool_thread_name [of m "tp_name p"] by (simp add: start_one_def pool_name_def Let_def)
  have "[m..<m + Suc n] = m # [Suc m..<Suc m + n]" by (simp add: upt_conv_Cons)
  with Suc.IH [of "Suc m" ?p s1] Suc.prems one show ?case by auto
qed simp

section \<open>Properties\<close>

text \<open>C37: Round robin. On a pool that is set up, \<open>n\<close> calls of \<open>getNextLoop\<close> never index outside the
  vector and return the loops in turn, beginning with the next one and starting over at the end; a
  pool without threads returns the base loop each time.\<close>

theorem getNextLoop_round_robin:
  assumes "pool_ok p"
  shows "\<exists>p'. picks getNextLoop n p =
      Inr (map (\<lambda>i. getAllLoops p ! ((nat (tp_next p) + i) mod length (getAllLoops p))) [0..<n], p') \<and>
    pool_ok p' \<and> getAllLoops p' = getAllLoops p"
  using pool.picks_are [OF assms, of n] by blast

definition sample_pool :: loop_pool where
  "sample_pool = \<lparr>tp_baseLoop = 0, tp_name = ''EchoServer'', tp_started = True, tp_numThreads = 3, tp_next = 0,
     tp_threads = [''EchoServer0'', ''EchoServer1'', ''EchoServer2''], tp_loops = [1, 2, 3]\<rparr>"

lemma sample_pool_ok: "pool_ok sample_pool"
  by (simp add: pool_ok_def sample_pool_def)

theorem getNextLoop_round_robin_witness:
  "\<exists>p'. picks getNextLoop 4 sample_pool = Inr ([1, 2, 3, 1], p')"
proof -
  have "map (\<lambda>i. getAllLoops sample_pool ! ((nat (tp_next sample_pool) + i) mod length (getAllLoops sample_pool))) [0..<4]
      = [1, 2, 3, 1]"
    by (simp add: sample_pool_def getAllLoops_def upt_rec)
  with getNextLoop_round_robin [OF sample_pool_ok, of 4] show ?thesis by auto
qed

text \<open>The connections are spread evenly: in \<open>k\<close> times as many calls as there are loops, each loop
  is returned exactly \<open>k\<close> times.\<close>

lemma getNextLoop_fair:
  assumes "pool_ok p"
  shows "\<exists>ls p'. picks getNextLoop (k * length (getAllLoops p)) p = Inr (ls, p') \<and>
    mset ls = repeat_mset k (mset (getAllLoops p))"
  using assms by (rule pool.picks_fair)

text \<open>\<open>start\<close>. If the threads start, the pool has as many threads and loops as were asked for
  (none for a negative number, which also skips the init callback), the \<open>i\<close>-th thread's name is the
  pool's name followed by \<open>i\<close>, complete in its buffer, so the names differ; and the pool is ready
  for \<open>getNextLoop\<close>.\<close>

lemma pool_start_threads:
  assumes "\<And>n s. \<exists>l s'. spawn n s = Inr (l, s')" and "n \<le> 2147483647"
  shows "\<exists>p' s'. pool_start spawn None (setThreadNum n (LoopPool_init base name), s) = Inr (p', s') \<and>
    tp_threads p' = map (\<lambda>i. name @ fmt_d (int i)) [0..<nat n] \<and> distinct (tp_threads p') \<and>
    length (tp_loops p') = nat n \<and> tp_started p' \<and> pool_ok p'"
proof -
  let ?p = "(setThreadNum n (LoopPool_init base name))\<lparr>tp_started := True\<rparr>"
  have "0 + nat n \<le> 2147483648" using assms(2) by simp
  from start_ones [of spawn 0 "nat n" ?p s, OF assms(1) this] obtain p' s' where
    p': "foldE (start_one spawn) [0..<0 + nat n] (?p, s) = Inr (p', s')"
      "tp_threads p' = map (pool_name name) [0..<nat n]" "length (tp_loops p') = nat n" "tp_next p' = 0" "tp_started p'"
    by (auto simp: setThreadNum_def LoopPool_init_def)
  have "distinct (map (pool_name name) [0..<nat n])"
    by (auto simp: distinct_map inj_on_def pool_name_def fmt_d_inject)
  moreover have "pool_start spawn None (setThreadNum n (LoopPool_init base name), s) = Inr (p', s')"
    using p'(1) by (simp add: pool_start_def setThreadNum_def)
  moreover have "pool_ok p'" using p'(4) by (simp add: pool_ok_def)
  ultimately show ?thesis using p' by (auto simp: pool_name_def)
qed

end
