(* ===== verification/TcpServer.thy ===== *)
theory TcpServer
  imports TcpConnection Acceptor EventLoopThreadPool
begin

text \<open>
  The server (include/TcpServer.h, src/TcpServer.cpp) and the state of the whole process: the
  loops, the connection objects by address, the callers' strings, the server and the kernel.

  The operations of the other components work on their own states: a loop, a connection with its
  loop, the acceptor with its loop. \<open>loop_view\<close>, \<open>conn_view\<close> and \<open>acceptor_view\<close> cut such a state out
  of the process, with the process itself in the record's extension, and \<open>loop_put\<close>, \<open>conn_put\<close> and
  \<open>acceptor_put\<close> write the parts back. A callback that leaves the component, as from a connection to
  the server, puts the parts back, works on the process and cuts out again.
\<close>

section \<open>State\<close>

datatype server_option = kNoReusePort | kReusePort

record tcpserver =
  ts_loop :: loop_id
  ts_ipPort :: string
  ts_name :: string
  ts_acceptor :: acceptor
  ts_threadPool :: loop_pool
  ts_numThreads :: int
  ts_started :: "32 word"
  ts_nextConnId :: int
  ts_connections :: "string \<rightharpoonup> conn_id"

record 'k process =
  pr_tid :: tid
  pr_kern :: 'k
  pr_mem :: "str_ptr \<Rightarrow> byte list option"
  pr_loops :: "loop_id \<Rightarrow> task eventloop"
  pr_conns :: "conn_id \<rightharpoonup> tcpconnection"
  pr_server :: tcpserver

text \<open>The callbacks the user gives to the server; they get the connection and the process.\<close>

record 'w server_callbacks =
  sc_connection :: "(conn_id \<Rightarrow> 'w \<Rightarrow> error + 'w) option"
  sc_message :: "(conn_id \<Rightarrow> timestamp \<Rightarrow> 'w \<Rightarrow> error + 'w) option"
  sc_writeComplete :: "(conn_id \<Rightarrow> 'w \<Rightarrow> error + 'w) option"

section \<open>Cutting components out of the process\<close>

definition upd_server :: "(tcpserver \<Rightarrow> tcpserver) \<Rightarrow> 'k process \<Rightarrow> 'k process" where
  "upd_server f w = w\<lparr>pr_server := f (pr_server w)\<rparr>"

definition loop_view :: "loop_id \<Rightarrow> 'k process \<Rightarrow> (task, 'k, 'k process) loop_st_scheme" where
  "loop_view l w = \<lparr>st_tid = pr_tid w, st_self = l, st_loop = pr_loops w l, st_kern = pr_kern w, \<dots> = w\<rparr>"

definition loop_put :: "(task, 'k, 'k process) loop_st_scheme \<Rightarrow> 'k process" where
  "loop_put s = (loop_st.more s)\<lparr>pr_kern := st_kern s,
     pr_loops := (pr_loops (loop_st.more s))(st_self s := st_loop s)\<rparr>"

definition on_loop :: "loop_id \<Rightarrow> ((task, 'k, 'k process) loop_st_scheme \<Rightarrow>
    error + (task, 'k, 'k process) loop_st_scheme) \<Rightarrow> 'k process \<Rightarrow> error + 'k process" where
  "on_loop l f w = bindE (f (loop_view l w)) (\<lambda>s. Inr (loop_put s))"

definition from_loop :: "('k process \<Rightarrow> error + 'k process) \<Rightarrow> (task, 'k, 'k process) loop_st_scheme \<Rightarrow>
    error + (task, 'k, 'k process) loop_st_scheme" where
  "from_loop f s = bindE (f (loop_put s)) (\<lambda>w. Inr (loop_view (st_self s) w))"

definition acceptor_view :: "'k process \<Rightarrow> (task, 'k, 'k process) acceptor_st_scheme" where
  "acceptor_view w = (let l = ts_loop (pr_server w) in
     \<lparr>st_tid = pr_tid w, st_self = l, st_loop = pr_loops w l, st_kern = pr_kern w,
      st_acceptor = ts_acceptor (pr_server w), \<dots> = w\<rparr>)"

definition acceptor_put :: "(task, 'k, 'k process) acceptor_st_scheme \<Rightarrow> 'k process" where
  "acceptor_put s = upd_server (\<lambda>v. v\<lparr>ts_acceptor := st_acceptor s\<rparr>)
     ((acceptor_st.more s)\<lparr>pr_kern := st_kern s,
       pr_loops := (pr_loops (acceptor_st.more s))(st_self s := st_loop s)\<rparr>)"

definition on_acceptor :: "((task, 'k, 'k process) acceptor_st_scheme \<Rightarrow>
    error + (task, 'k, 'k process) acceptor_st_scheme) \<Rightarrow> 'k process \<Rightarrow> error + 'k process" where
  "on_acceptor f w = bindE (f (acceptor_view w)) (\<lambda>s. Inr (acceptor_put s))"

definition from_acceptor :: "('k process \<Rightarrow> error + 'k process) \<Rightarrow> (task, 'k, 'k process) acceptor_st_scheme \<Rightarrow>
    error + (task, 'k, 'k process) acceptor_st_scheme" where
  "from_acceptor f s = bindE (f (acceptor_put s)) (\<lambda>w. Inr (acceptor_view w))"

text \<open>A connection object that is gone cannot be cut out.\<close>

definition conn_view :: "tcpconnection \<Rightarrow> 'k process \<Rightarrow> ('k, 'k process) conn_st_scheme" where
  "conn_view c w = \<lparr>st_tid = pr_tid w, st_self = tc_loop c, st_loop = pr_loops w (tc_loop c),
     st_kern = pr_kern w, st_conn = c, st_mem = pr_mem w, \<dots> = w\<rparr>"

definition conn_put :: "('k, 'k process) conn_st_scheme \<Rightarrow> 'k process" where
  "conn_put s = (conn_st.more s)\<lparr>pr_kern := st_kern s, pr_mem := st_mem s,
     pr_loops := (pr_loops (conn_st.more s))(st_self s := st_loop s),
     pr_conns := (pr_conns (conn_st.more s))(tc_id (st_conn s) \<mapsto> st_conn s)\<rparr>"

definition on_conn :: "conn_id \<Rightarrow> (('k, 'k process) conn_st_scheme \<Rightarrow>
    error + ('k, 'k process) conn_st_scheme) \<Rightarrow> 'k process \<Rightarrow> error + 'k process" where
  "on_conn i f w = (case pr_conns w i of
     None \<Rightarrow> Inl UseAfterFree
   | Some c \<Rightarrow> bindE (f (conn_view c w)) (\<lambda>s. Inr (conn_put s)))"

definition from_conn :: "(conn_id \<Rightarrow> 'k process \<Rightarrow> error + 'k process) \<Rightarrow> ('k, 'k process) conn_st_scheme \<Rightarrow>
    error + ('k, 'k process) conn_st_scheme" where
  "from_conn f s = (let i = tc_id (st_conn s) in
     bindE (f i (conn_put s)) (\<lambda>w. case pr_conns w i of
         None \<Rightarrow> Inl UseAfterFree | Some c \<Rightarrow> Inr (conn_view c w)))"

section \<open>Construction, start\<close>

definition TcpServer_init :: "'k sys \<Rightarrow> loop_id option \<Rightarrow> inet_address \<Rightarrow> string \<Rightarrow> server_option \<Rightarrow> 'k \<Rightarrow>
    error + (tcpserver \<times> 'k)" where
  "TcpServer_init S loop_ptr listenAddr nameArg opt k =
     (case loop_ptr of None \<Rightarrow> Inl FatalExit | Some l \<Rightarrow>
      bindE (toIpPort listenAddr) (\<lambda>ipPort.
      bindE (Acceptor_init S listenAddr (opt = kReusePort) k) (\<lambda>(a, k).
      Inr (\<lparr>ts_loop = l, ts_ipPort = ipPort, ts_name = nameArg, ts_acceptor = a,
            ts_threadPool = LoopPool_init l nameArg, ts_numThreads = 0, ts_started = 0,
            ts_nextConnId = 1, ts_connections = Map.empty\<rparr>, k))))"

text \<open>The local variable hides the member \<open>numThreads_\<close>, which stays as it is.\<close>

definition server_setThreadNum :: "int \<Rightarrow> tcpserver \<Rightarrow> tcpserver" where
  "server_setThreadNum n v = v\<lparr>ts_threadPool := setThreadNum n (ts_threadPool v)\<rparr>"

text \<open>\<open>spawn\<close> starts a thread with its loop, as in the theory EventLoopThreadPool.\<close>

definition server_start :: "'k sys \<Rightarrow> (string \<Rightarrow> 'k process \<Rightarrow> error + (loop_id \<times> 'k process)) \<Rightarrow>
    (loop_id \<Rightarrow> 'k process \<Rightarrow> error + 'k process) option \<Rightarrow> 'k process \<Rightarrow> error + 'k process" where
  "server_start S spawn threadInitCallback w =
     (let started = ts_started (pr_server w);
          w = upd_server (\<lambda>v. v\<lparr>ts_started := started + 1\<rparr>) w
      in if started = 0
         then bindE (pool_start spawn threadInitCallback (ts_threadPool (pr_server w), w)) (\<lambda>(p, w).
           on_loop (ts_loop (pr_server w))
             (runInLoop S (\<lambda>_. from_loop (on_acceptor (Acceptor_listen S))) AcceptorListen)
             (upd_server (\<lambda>v. v\<lparr>ts_threadPool := p\<rparr>) w))
         else Inr w)"

section \<open>Connections come and go\<close>

definition removeConnectionInLoop :: "'k sys \<Rightarrow> conn_id \<Rightarrow> 'k process \<Rightarrow> error + 'k process" where
  "removeConnectionInLoop S i w = (case pr_conns w i of
     None \<Rightarrow> Inl UseAfterFree
   | Some c \<Rightarrow>
       on_loop (tc_loop c) (\<lambda>s. Inr (queueInLoop S (ConnectDestroyed i) s))
         (upd_server (\<lambda>v. v\<lparr>ts_connections := (ts_connections v)(tc_name c := None)\<rparr>) w))"

definition removeConnection :: "'k sys \<Rightarrow> conn_id \<Rightarrow> 'k process \<Rightarrow> error + 'k process" where
  "removeConnection S i w =
     on_loop (ts_loop (pr_server w))
       (runInLoop S (\<lambda>_. from_loop (removeConnectionInLoop S i)) (RemoveConnectionInLoop i)) w"

text \<open>What \<open>newConnection\<close> installs in a connection. The server sets no high-water-mark callback.\<close>

definition server_conn_callbacks :: "'k sys \<Rightarrow> 'k process server_callbacks \<Rightarrow>
    ('k, 'k process) conn_st_scheme callbacks" where
  "server_conn_callbacks S ucb = \<lparr>
     cb_connection = map_option from_conn (sc_connection ucb),
     cb_message = map_option (\<lambda>f t. from_conn (\<lambda>i. f i t)) (sc_message ucb),
     cb_writeComplete = map_option from_conn (sc_writeComplete ucb),
     cb_highWaterMark = None,
     cb_close = Some (from_conn (removeConnection S))\<rparr>"

definition conn_name :: "tcpserver \<Rightarrow> int \<Rightarrow> string" where
  "conn_name v i = ts_name v @ snprintf 64 (''-'' @ ts_ipPort v @ ''#'' @ fmt_d i)"

definition local_address :: "'k sys \<Rightarrow> fd \<Rightarrow> 'k \<Rightarrow> inet_address \<times> 'k" where
  "local_address S sockfd k = (case sys_getsockname S sockfd k of
     (Done a, k) \<Rightarrow> (InetAddress_of a, k)
   | (Fail e, k) \<Rightarrow> (InetAddress_of \<lparr>sin_family = 0, sin_port = 0, sin_addr = 0\<rparr>, k))"

text \<open>\<open>self\<close> is the address of the new connection object. \<open>nextConnId_\<close> is an \<open>int\<close>: at its largest value the
  increment has no defined result.\<close>

definition newConnection :: "'k sys \<Rightarrow> 'k process server_callbacks \<Rightarrow> conn_id \<Rightarrow> fd \<Rightarrow> inet_address \<Rightarrow>
    'k process \<Rightarrow> error + 'k process" where
  "newConnection S ucb self sockfd peerAddr w =
     bindE (getNextLoop (ts_threadPool (pr_server w))) (\<lambda>(ioLoop, p).
     if ts_nextConnId (pr_server w) = 2147483647 then Inl SignedOverflow else
     let connName = conn_name (pr_server w) (ts_nextConnId (pr_server w));
         w = upd_server (\<lambda>v. v\<lparr>ts_threadPool := p, ts_nextConnId := ts_nextConnId v + 1\<rparr>) w in
     bindE (toIpPort peerAddr) (\<lambda>_.
     let (localAddr, k) = local_address S sockfd (pr_kern w) in
     bindE (TcpConnection_init S self (Some ioLoop) connName sockfd localAddr peerAddr k) (\<lambda>(c, k).
     let w = upd_server (\<lambda>v. v\<lparr>ts_connections := (ts_connections v)(connName \<mapsto> self)\<rparr>)
               (w\<lparr>pr_kern := k, pr_conns := (pr_conns w)(self \<mapsto> c)\<rparr>)
     in on_loop ioLoop (runInLoop S
          (\<lambda>_. from_loop (on_conn self (connectEstablished S (server_conn_callbacks S ucb))))
          (ConnectEstablished self)) w)))"

text \<open>The acceptor's read event, with \<open>newConnection\<close> as its callback; \<open>peerAddr\<close> starts as the
  default address.\<close>

definition acceptor_read :: "'k sys \<Rightarrow> (string \<Rightarrow> 32 word) \<Rightarrow> 'k process server_callbacks \<Rightarrow> conn_id \<Rightarrow>
    'k process \<Rightarrow> error + 'k process" where
  "acceptor_read S inet_addr ucb self =
     on_acceptor (Acceptor_handleRead S (Some (\<lambda>connfd peerAddr. from_acceptor (newConnection S ucb self connfd peerAddr)))
       (InetAddress_init inet_addr 0 ''127.0.0.1''))"

section \<open>Destruction\<close>

text \<open>The last reference to a connection is gone: the socket closes its descriptor.\<close>

definition TcpConnection_destroy :: "'k sys \<Rightarrow> conn_id \<Rightarrow> 'k process \<Rightarrow> error + 'k process" where
  "TcpConnection_destroy S i w = (case pr_conns w i of
     None \<Rightarrow> Inl UseAfterFree
   | Some c \<Rightarrow> Inr (w\<lparr>pr_kern := Socket_destroy S (tc_sockfd c) (pr_kern w), pr_conns := (pr_conns w)(i := None)\<rparr>))"

text \<open>The body of the destructor's loop: the entry's pointer is reset, then the connection is
  destroyed in its loop.\<close>

definition destroy_entry :: "'k sys \<Rightarrow> 'k process server_callbacks \<Rightarrow> string \<Rightarrow> 'k process \<Rightarrow> error + 'k process" where
  "destroy_entry S ucb name w = (case ts_connections (pr_server w) name of
     None \<Rightarrow> Inl NullPointer
   | Some i \<Rightarrow> (case pr_conns w i of
       None \<Rightarrow> Inl UseAfterFree
     | Some c \<Rightarrow>
         on_loop (tc_loop c)
           (runInLoop S (\<lambda>_. from_loop (on_conn i (connectDestroyed S (server_conn_callbacks S ucb)))) (ConnectDestroyed i))
           (upd_server (\<lambda>v. v\<lparr>ts_connections := (ts_connections v)(name := None)\<rparr>) w)))"

text \<open>The rest of the destructor, in which the main thread waits for the others, is the step relation of the
  theory ServerStop.\<close>

section \<open>Running the loops of the process\<close>

text \<open>The connection a functor belongs to, and the one it keeps alive: \<open>send\<close> and \<open>shutdown\<close> bind the
  bare \<open>this\<close>, the others a shared pointer.\<close>

fun task_conn :: "task \<Rightarrow> conn_id option" where
  "task_conn (SendInLoop i p n) = Some i"
| "task_conn (ShutdownInLoop i) = Some i"
| "task_conn (SendFileInLoop i f off n) = Some i"
| "task_conn (WriteComplete i) = Some i"
| "task_conn (HighWaterMark i n) = Some i"
| "task_conn (ConnectEstablished i) = Some i"
| "task_conn (ConnectDestroyed i) = Some i"
| "task_conn (RemoveConnectionInLoop i) = Some i"
| "task_conn AcceptorListen = None"
| "task_conn (UserTask n) = None"

fun task_ref :: "task \<Rightarrow> conn_id option" where
  "task_ref (SendInLoop i p n) = None"
| "task_ref (ShutdownInLoop i) = None"
| "task_ref t = task_conn t"

text \<open>What running a functor does; \<open>user\<close> are the functors of other code.\<close>

fun run_functor :: "'k sys \<Rightarrow> 'k process server_callbacks \<Rightarrow> (nat \<Rightarrow> 'k process \<Rightarrow> error + 'k process) \<Rightarrow>
    task \<Rightarrow> 'k process \<Rightarrow> error + 'k process" where
  "run_functor S ucb user (RemoveConnectionInLoop i) w = removeConnectionInLoop S i w"
| "run_functor S ucb user AcceptorListen w = on_acceptor (Acceptor_listen S) w"
| "run_functor S ucb user (UserTask n) w = user n w"
| "run_functor S ucb user t w =
     on_conn (the (task_conn t)) (run_task S (server_conn_callbacks S ucb) (\<lambda>_. Inr) t) w"

text \<open>From the address of a channel to the channel, and \<open>handleEvent\<close> of it. \<open>alloc\<close> is the
  allocator: the address of the next connection object.\<close>

fun with_channel :: "chan_ptr \<Rightarrow> (channel \<Rightarrow> channel) \<Rightarrow> (task, 'k, 'k process) loop_st_scheme \<Rightarrow>
    (task, 'k, 'k process) loop_st_scheme" where
  "with_channel (WakeupChannelOf l) f s =
     s\<lparr>st_loop := (st_loop s)\<lparr>el_wakeupChannel := f (el_wakeupChannel (st_loop s))\<rparr>\<rparr>"
| "with_channel (AcceptChannelOf l) f s =
     loop_st.more_update (upd_server (\<lambda>v. v\<lparr>ts_acceptor := (ts_acceptor v)\<lparr>ac_channel := f (ac_channel (ts_acceptor v))\<rparr>\<rparr>)) s"
| "with_channel (ConnChannelOf i) f s =
     loop_st.more_update (\<lambda>w. w\<lparr>pr_conns := (pr_conns w)(i := map_option (\<lambda>c. c\<lparr>tc_channel := f (tc_channel c)\<rparr>) (pr_conns w i))\<rparr>) s"

definition acceptor_callbacks :: "'k sys \<Rightarrow> (string \<Rightarrow> 32 word) \<Rightarrow> 'k process server_callbacks \<Rightarrow>
    ('k process \<Rightarrow> conn_id) \<Rightarrow> 'k process channel_callbacks" where
  "acceptor_callbacks S inet_addr ucb alloc =
     \<lparr>readCallback = Some (\<lambda>t w. acceptor_read S inet_addr ucb (alloc w) w), writeCallback = None,
      closeCallback = None, errorCallback = None\<rparr>"

fun handle_channel :: "'k sys \<Rightarrow> (string \<Rightarrow> 32 word) \<Rightarrow> 'k process server_callbacks \<Rightarrow> ('k process \<Rightarrow> conn_id) \<Rightarrow>
    chan_ptr \<Rightarrow> timestamp \<Rightarrow> 'k process \<Rightarrow> error + 'k process" where
  "handle_channel S inet_addr ucb alloc (WakeupChannelOf l) t w = on_loop l (handle_wakeup S t) w"
| "handle_channel S inet_addr ucb alloc (AcceptChannelOf l) t w =
     handleEvent (\<lambda>_ _. True) (\<lambda>w. ac_channel (ts_acceptor (pr_server w)))
       (acceptor_callbacks S inet_addr ucb alloc) t w"
| "handle_channel S inet_addr ucb alloc (ConnChannelOf i) t w =
     on_conn i (conn_handleEvent S (server_conn_callbacks S ucb) (\<lambda>j s. True) t) w"

definition process_round :: "'k sys \<Rightarrow> (string \<Rightarrow> 32 word) \<Rightarrow> 'k process server_callbacks \<Rightarrow> ('k process \<Rightarrow> conn_id) \<Rightarrow>
    (nat \<Rightarrow> 'k process \<Rightarrow> error + 'k process) \<Rightarrow> (task, 'k, 'k process) loop_st_scheme \<Rightarrow>
    error + (task, 'k, 'k process) loop_st_scheme" where
  "process_round S inet_addr ucb alloc user =
     loop_round S with_channel (\<lambda>p t. from_loop (handle_channel S inet_addr ucb alloc p t))
       (\<lambda>t. from_loop (run_functor S ucb user t))"

section \<open>Lemmas: cutting out and putting back\<close>

lemma loop_put_view [simp]: "loop_put (loop_view l w) = w"
  by (simp add: loop_put_def loop_view_def)

lemma acceptor_put_view [simp]: "acceptor_put (acceptor_view w) = w"
  by (simp add: acceptor_put_def acceptor_view_def upd_server_def Let_def)

lemma conn_put_view [simp]: "pr_conns w (tc_id c) = Some c \<Longrightarrow> conn_put (conn_view c w) = w"
  by (simp add: conn_put_def conn_view_def fun_upd_idem)

lemma loop_view_simps [simp]:
  "st_tid (loop_view l w) = pr_tid w" "st_self (loop_view l w) = l" "st_loop (loop_view l w) = pr_loops w l"
  "st_kern (loop_view l w) = pr_kern w" "loop_st.more (loop_view l w) = w"
  by (simp_all add: loop_view_def)

lemma conn_view_simps [simp]:
  "st_tid (conn_view c w) = pr_tid w" "st_self (conn_view c w) = tc_loop c"
  "st_loop (conn_view c w) = pr_loops w (tc_loop c)" "st_kern (conn_view c w) = pr_kern w"
  "st_conn (conn_view c w) = c" "st_mem (conn_view c w) = pr_mem w" "conn_st.more (conn_view c w) = w"
  by (simp_all add: conn_view_def)

lemma on_loop_from_loop [simp]: "on_loop l (from_loop f) w = f w"
  by (cases "f w") (simp_all add: on_loop_def from_loop_def)

section \<open>Consistency of the server\<close>

definition server_ok :: "tcpserver \<Rightarrow> bool" where
  "server_ok v \<longleftrightarrow> length (ts_ipPort v) \<le> 21 \<and> 1 \<le> ts_nextConnId v \<and> ts_nextConnId v \<le> 2147483647 \<and>
     pool_ok (ts_threadPool v)"

text \<open>The objects have the names of distinct numbers already given out, and the table leads from a
  name to the object of that name.\<close>

definition process_ok :: "'k process \<Rightarrow> bool" where
  "process_ok w \<longleftrightarrow> server_ok (pr_server w) \<and>
     (\<forall>i c. pr_conns w i = Some c \<longrightarrow> tc_id c = i \<and>
        (\<exists>n. 1 \<le> n \<and> n < ts_nextConnId (pr_server w) \<and> tc_name c = conn_name (pr_server w) n)) \<and>
     (\<forall>i j c d. pr_conns w i = Some c \<longrightarrow> pr_conns w j = Some d \<longrightarrow> tc_name c = tc_name d \<longrightarrow> i = j) \<and>
     (\<forall>name i. ts_connections (pr_server w) name = Some i \<longrightarrow> (\<exists>c. pr_conns w i = Some c \<and> tc_name c = name))"

lemma process_okD:
  assumes "process_ok w"
  shows "server_ok (pr_server w)"
    and "pr_conns w i = Some c \<Longrightarrow> tc_id c = i"
    and "pr_conns w i = Some c \<Longrightarrow> \<exists>n. 1 \<le> n \<and> n < ts_nextConnId (pr_server w) \<and> tc_name c = conn_name (pr_server w) n"
    and "pr_conns w i = Some c \<Longrightarrow> pr_conns w j = Some d \<Longrightarrow> tc_name c = tc_name d \<Longrightarrow> i = j"
    and "ts_connections (pr_server w) name = Some i \<Longrightarrow> \<exists>c. pr_conns w i = Some c \<and> tc_name c = name"
  using assms unfolding process_ok_def by blast+

lemma conn_name_complete:
  assumes "length (ts_ipPort v) \<le> 21" and "1 \<le> i" and "i \<le> 2147483647"
  shows "conn_name v i = ts_name v @ ''-'' @ ts_ipPort v @ ''#'' @ fmt_d i"
proof -
  have "length (fmt_d i) \<le> 11" using assms(2,3) by (intro length_fmt_d_int) simp_all
  with assms(1) show ?thesis by (simp add: conn_name_def)
qed

lemma conn_name_inject:
  assumes "length (ts_ipPort v) \<le> 21" and "1 \<le> i" "i \<le> 2147483647" and "1 \<le> j" "j \<le> 2147483647"
  shows "conn_name v i = conn_name v j \<longleftrightarrow> i = j"
  using conn_name_complete [OF assms(1-3)] conn_name_complete [OF assms(1,4,5)] by (simp add: fmt_d_inject)

text \<open>The process once the connection object exists and is in the table.\<close>

definition with_connection :: "loop_pool \<Rightarrow> tcpconnection \<Rightarrow> 'k \<Rightarrow> 'k process \<Rightarrow> 'k process" where
  "with_connection p c k w = upd_server (\<lambda>v. v\<lparr>ts_threadPool := p, ts_nextConnId := ts_nextConnId v + 1,
     ts_connections := (ts_connections v)(tc_name c \<mapsto> tc_id c)\<rparr>)
     (w\<lparr>pr_kern := k, pr_conns := (pr_conns w)(tc_id c \<mapsto> c)\<rparr>)"

lemma with_connection_simps [simp]:
  "pr_tid (with_connection p c k w) = pr_tid w" "pr_loops (with_connection p c k w) = pr_loops w"
  "pr_mem (with_connection p c k w) = pr_mem w" "pr_kern (with_connection p c k w) = k"
  "pr_conns (with_connection p c k w) = (pr_conns w)(tc_id c \<mapsto> c)"
  "ts_connections (pr_server (with_connection p c k w)) = (ts_connections (pr_server w))(tc_name c \<mapsto> tc_id c)"
  "ts_nextConnId (pr_server (with_connection p c k w)) = ts_nextConnId (pr_server w) + 1"
  "ts_threadPool (pr_server (with_connection p c k w)) = p"
  "ts_name (pr_server (with_connection p c k w)) = ts_name (pr_server w)"
  "ts_ipPort (pr_server (with_connection p c k w)) = ts_ipPort (pr_server w)"
  "ts_loop (pr_server (with_connection p c k w)) = ts_loop (pr_server w)"
  by (simp_all add: with_connection_def upd_server_def)

lemma toIpPort_returns: "\<exists>t. toIpPort x = Inr t"
  using toIpPort_eq by blast

definition new_object :: "conn_id \<Rightarrow> string \<Rightarrow> fd \<Rightarrow> tcpconnection \<Rightarrow> bool" where
  "new_object self name f c \<longleftrightarrow> tc_id c = self \<and> tc_name c = name \<and> tc_sockfd c = f \<and> tc_state c = kConnecting \<and>
     tc_channel c = Channel_init f \<and> buffer_ok (tc_inputBuffer c) \<and> readable (tc_inputBuffer c) = [] \<and>
     buffer_ok (tc_outputBuffer c) \<and> readable (tc_outputBuffer c) = []"

lemma TcpConnection_init_ok:
  "\<exists>c. TcpConnection_init S self (Some l) name f la pa k = Inr (c, setKeepAlive S f True k) \<and> tc_loop c = l \<and>
    new_object self name f c"
proof -
  obtain b where "Buffer_init kInitialSize = Inr b" "buffer_ok b" "readable b = []"
    using Buffer_init_ok [of kInitialSize] by (auto simp: kInitialSize_def vector_max_def)
  then show ?thesis by (simp add: TcpConnection_init_def new_object_def)
qed

lemma newConnection_eq:
  assumes "pool_ok (ts_threadPool (pr_server w))" and "ts_nextConnId (pr_server w) < 2147483647"
  shows "\<exists>p c k. getNextLoop (ts_threadPool (pr_server w)) = Inr (tc_loop c, p) \<and> pool_ok p \<and>
    k = setKeepAlive S sockfd True (snd (local_address S sockfd (pr_kern w))) \<and>
    new_object self (conn_name (pr_server w) (ts_nextConnId (pr_server w))) sockfd c \<and>
    newConnection S ucb self sockfd peerAddr w =
      on_loop (tc_loop c) (runInLoop S (\<lambda>_. from_loop (on_conn self (connectEstablished S (server_conn_callbacks S ucb))))
        (ConnectEstablished self)) (with_connection p c k w)"
proof -
  let ?name = "conn_name (pr_server w) (ts_nextConnId (pr_server w))"
  obtain l p where l: "getNextLoop (ts_threadPool (pr_server w)) = Inr (l, p)" "pool_ok p"
    using pool.pick [OF assms(1)] by blast
  obtain t where t: "toIpPort peerAddr = Inr t" using toIpPort_returns by blast
  obtain la k where la: "local_address S sockfd (pr_kern w) = (la, k)" by fastforce
  let ?k = "setKeepAlive S sockfd True k"
  obtain c where c: "TcpConnection_init S self (Some l) ?name sockfd la peerAddr k = Inr (c, ?k)" "tc_loop c = l"
      "new_object self ?name sockfd c"
    using TcpConnection_init_ok by metis
  have "newConnection S ucb self sockfd peerAddr w =
      on_loop (tc_loop c) (runInLoop S (\<lambda>_. from_loop (on_conn self (connectEstablished S (server_conn_callbacks S ucb))))
        (ConnectEstablished self)) (with_connection p c ?k w)"
    using c assms(2) by (simp add: newConnection_def l t la upd_server_def with_connection_def new_object_def)
  moreover have "?k = setKeepAlive S sockfd True (snd (local_address S sockfd (pr_kern w)))" by (simp add: la)
  ultimately show ?thesis using l c by metis
qed

text \<open>Running a functor or queueing it, seen from the process.\<close>

definition queued :: "'k sys \<Rightarrow> loop_id \<Rightarrow> task \<Rightarrow> 'k process \<Rightarrow> 'k process" where
  "queued S l t w = loop_put (queueInLoop S t (loop_view l w))"

lemma queued_simps [simp]:
  "pr_tid (queued S l t w) = pr_tid w" "pr_mem (queued S l t w) = pr_mem w" "pr_conns (queued S l t w) = pr_conns w"
  "pr_server (queued S l t w) = pr_server w"
  "pr_loops (queued S l t w) = (pr_loops w)(l := (pr_loops w l)
     \<lparr>el_pendingFunctors := el_pendingFunctors (pr_loops w l) @ [t]\<rparr>)"
  by (simp_all add: queued_def loop_put_def queueInLoop_def push_functor_def wakeup_def Let_def)

lemma queued_kern: "pr_kern (queued S l t w) =
    (if el_threadId (pr_loops w l) \<noteq> pr_tid w \<or> el_callingPendingFunctors (pr_loops w l)
     then snd (sys_write S (el_wakeupFd (pr_loops w l)) one_bytes (pr_kern w)) else pr_kern w)"
  by (simp add: queued_def loop_put_def queueInLoop_kern isInLoopThread_def)

lemma on_loop_queue: "on_loop l (\<lambda>s. Inr (queueInLoop S t s)) w = Inr (queued S l t w)"
  by (simp add: on_loop_def queued_def)

lemma on_loop_run: "on_loop l (runInLoop S (\<lambda>_. from_loop f) t) w =
    (if el_threadId (pr_loops w l) = pr_tid w then f w else Inr (queued S l t w))"
proof (cases "el_threadId (pr_loops w l) = pr_tid w")
  case True
  then have "runInLoop S (\<lambda>_. from_loop f) t (loop_view l w) = from_loop f (loop_view l w)"
    by (simp add: runInLoop_def isInLoopThread_def)
  then show ?thesis using True on_loop_from_loop [of l f w] by (simp add: on_loop_def)
qed (simp add: on_loop_def runInLoop_def isInLoopThread_def queued_def)

lemma with_connection_ok:
  assumes ok: "process_ok w" and n: "ts_nextConnId (pr_server w) < 2147483647"
    and c: "new_object self (conn_name (pr_server w) (ts_nextConnId (pr_server w))) f c" and p: "pool_ok p"
    and fresh: "pr_conns w self = None"
  shows "process_ok (with_connection p c k w)"
    and "ts_connections (pr_server w) (conn_name (pr_server w) (ts_nextConnId (pr_server w))) = None"
proof -
  let ?v = "pr_server w" and ?w = "with_connection p c k w"
  have srv: "length (ts_ipPort ?v) \<le> 21" "1 \<le> ts_nextConnId ?v"
    using process_okD(1) [OF ok] by (simp_all add: server_ok_def)
  have new: "tc_name d \<noteq> conn_name ?v (ts_nextConnId ?v)" if d: "pr_conns w i = Some d" for i d
  proof
    assume e: "tc_name d = conn_name ?v (ts_nextConnId ?v)"
    obtain m where "1 \<le> m" "m < ts_nextConnId ?v" "tc_name d = conn_name ?v m"
      using process_okD(3) [OF ok d] by blast
    with conn_name_inject [OF srv(1), of "ts_nextConnId ?v" m] srv(2) n e show False by simp
  qed
  show free: "ts_connections ?v (conn_name ?v (ts_nextConnId ?v)) = None"
  proof (cases "ts_connections ?v (conn_name ?v (ts_nextConnId ?v))")
    case (Some i)
    then show ?thesis using process_okD(5) [OF ok Some] new by blast
  qed
  have name: "conn_name (pr_server ?w) i = conn_name ?v i" for i
    by (simp add: conn_name_def)
  have cd: "tc_id c = self" "tc_name c = conn_name ?v (ts_nextConnId ?v)" using c by (simp_all add: new_object_def)
  show "process_ok ?w"
    unfolding process_ok_def name
  proof (intro conjI allI impI)
    show "server_ok (pr_server ?w)" using srv n p by (simp add: server_ok_def)
  next
    fix i d assume d: "pr_conns ?w i = Some d"
    show "tc_id d = i" using d cd process_okD(2) [OF ok] by (auto split: if_splits)
    show "\<exists>n. 1 \<le> n \<and> n < ts_nextConnId (pr_server ?w) \<and> tc_name d = conn_name ?v n"
    proof (cases "i = self")
      case True
      then show ?thesis using d cd srv(2) by (intro exI [of _ "ts_nextConnId ?v"]) simp
    next
      case False
      then show ?thesis using d cd process_okD(3) [OF ok, of i d] by fastforce
    qed
  next
    fix i j d e assume "pr_conns ?w i = Some d" "pr_conns ?w j = Some e" "tc_name d = tc_name e"
    then show "i = j"
      using cd new process_okD(4) [OF ok] by (auto split: if_splits)
  next
    fix name i assume "ts_connections (pr_server ?w) name = Some i"
    then show "\<exists>d. pr_conns ?w i = Some d \<and> tc_name d = name"
      using cd fresh process_okD(5) [OF ok, of name i] by (auto split: if_splits)
  qed
qed

text \<open>Taking a connection out of the table.\<close>

definition erased :: "string \<Rightarrow> 'k process \<Rightarrow> 'k process" where
  "erased name = upd_server (\<lambda>v. v\<lparr>ts_connections := (ts_connections v)(name := None)\<rparr>)"

lemma erased_ok:
  assumes ok: "process_ok w" and c: "pr_conns w i = Some c"
  shows "process_ok (erased (tc_name c) w)"
    and "ts_connections (pr_server (erased (tc_name c) w)) name = Some j \<longleftrightarrow>
      j \<noteq> i \<and> ts_connections (pr_server w) name = Some j"
proof -
  let ?w = "erased (tc_name c) w"
  have name: "conn_name (pr_server ?w) n = conn_name (pr_server w) n" for n
    by (simp add: conn_name_def erased_def upd_server_def)
  have fields: "pr_conns ?w = pr_conns w" "ts_nextConnId (pr_server ?w) = ts_nextConnId (pr_server w)"
      "server_ok (pr_server ?w) = server_ok (pr_server w)"
      "ts_connections (pr_server ?w) = (ts_connections (pr_server w))(tc_name c := None)"
    by (simp_all add: erased_def upd_server_def server_ok_def)
  show "process_ok ?w"
    using process_okD [OF ok] unfolding process_ok_def name fields by (auto split: if_splits)
  show "ts_connections (pr_server ?w) name = Some j \<longleftrightarrow> j \<noteq> i \<and> ts_connections (pr_server w) name = Some j"
  proof (cases "ts_connections (pr_server w) name = Some j")
    case True
    then obtain d where "pr_conns w j = Some d" "tc_name d = name" using process_okD(5) [OF ok] by blast
    then show ?thesis using process_okD(4) [OF ok c, of j d] c True fields by auto
  qed (simp add: fields)
qed

lemma updateChannel_frame:
  "updateChannel S p ch s = Inr (ch', s') \<Longrightarrow> \<exists>q. s' = with_poller q s"
  by (auto simp: updateChannel_eq elim!: bindE_InrE)

lemma Acceptor_listen_frame:
  assumes "Acceptor_listen S s = Inr s'"
  shows "st_tid s' = st_tid s" "st_self s' = st_self s" "acceptor_st.more s' = acceptor_st.more s"
    "ac_listenning (st_acceptor s')" "el_pendingFunctors (st_loop s') = el_pendingFunctors (st_loop s)"
  using assms by (auto simp: Acceptor_listen_def Let_def enableReading_def upd_acceptor_def with_poller_def
      dest!: updateChannel_frame elim!: bindE_InrE)

lemma listen_frame:
  assumes "on_acceptor (Acceptor_listen S) w = Inr w'"
  shows "\<exists>a. pr_server w' = (pr_server w)\<lparr>ts_acceptor := a\<rparr> \<and> ac_listenning a" "pr_tid w' = pr_tid w" "pr_conns w' = pr_conns w"
proof -
  obtain s where s: "Acceptor_listen S (acceptor_view w) = Inr s" "w' = acceptor_put s"
    using assms by (auto simp: on_acceptor_def)
  moreover have "acceptor_st.more (acceptor_view w) = w" by (simp add: acceptor_view_def Let_def)
  ultimately show "\<exists>a. pr_server w' = (pr_server w)\<lparr>ts_acceptor := a\<rparr> \<and> ac_listenning a" "pr_tid w' = pr_tid w"
    "pr_conns w' = pr_conns w"
    using Acceptor_listen_frame [OF s(1)] by (auto simp: acceptor_put_def upd_server_def)
qed

section \<open>Properties\<close>

text \<open>C14: A new connection. On a consistent server with connection numbers left (\<open>nextConnId_\<close> can be
  incremented), \<open>newConnection\<close> takes
  the next loop of the pool and makes an object in state \<open>kConnecting\<close> on the accepted descriptor;
  its name is the server's name, the listening address and the number, complete in the 64-byte
  buffer and in nobody's use, so no entry of the table is overwritten; the table stays consistent;
  and the connection is established at once when its loop belongs to the calling thread, and
  otherwise by exactly one functor queued on its loop.\<close>

theorem newConnection_adds:
  assumes "process_ok w" and "ts_nextConnId (pr_server w) < 2147483647" and "pr_conns w self = None"
  shows "\<exists>p c k. getNextLoop (ts_threadPool (pr_server w)) = Inr (tc_loop c, p) \<and>
    new_object self (ts_name (pr_server w) @ ''-'' @ ts_ipPort (pr_server w) @ ''#'' @
      fmt_d (ts_nextConnId (pr_server w))) sockfd c \<and>
    ts_connections (pr_server w) (tc_name c) = None \<and> process_ok (with_connection p c k w) \<and>
    newConnection S ucb self sockfd peerAddr w =
      (if el_threadId (pr_loops w (tc_loop c)) = pr_tid w
       then on_conn self (connectEstablished S (server_conn_callbacks S ucb)) (with_connection p c k w)
       else Inr (queued S (tc_loop c) (ConnectEstablished self) (with_connection p c k w)))"
proof -
  have srv: "length (ts_ipPort (pr_server w)) \<le> 21" "1 \<le> ts_nextConnId (pr_server w)" "pool_ok (ts_threadPool (pr_server w))"
    using assms(1) by (simp_all add: process_ok_def server_ok_def)
  note name = conn_name_complete [OF srv(1,2) less_imp_le [OF assms(2)]]
  obtain p c k where e: "getNextLoop (ts_threadPool (pr_server w)) = Inr (tc_loop c, p)" "pool_ok p"
      "new_object self (conn_name (pr_server w) (ts_nextConnId (pr_server w))) sockfd c"
      "newConnection S ucb self sockfd peerAddr w =
        on_loop (tc_loop c) (runInLoop S (\<lambda>_. from_loop (on_conn self (connectEstablished S (server_conn_callbacks S ucb))))
          (ConnectEstablished self)) (with_connection p c k w)"
    using newConnection_eq [OF srv(3) assms(2)] by blast
  have "ts_connections (pr_server w) (tc_name c) = None" "process_ok (with_connection p c k w)"
    using with_connection_ok [OF assms(1,2) e(3,2) assms(3)] e(3) by (simp_all add: new_object_def)
  then show ?thesis using e(1,3,4) unfolding name on_loop_run by (auto intro!: exI [of _ p] exI [of _ c] exI [of _ k])
qed

text \<open>C15: Removal. \<open>removeConnection\<close> runs in the main loop's thread, directly or as one queued
  functor. There it takes exactly the given connection out of the table, whatever its name, keeps
  the table consistent, and queues one \<open>connectDestroyed\<close> on the connection's own loop, which keeps
  the object alive until then.\<close>

theorem removeConnection_erases:
  assumes "process_ok w" and "pr_conns w i = Some c"
  shows "removeConnectionInLoop S i w = Inr (queued S (tc_loop c) (ConnectDestroyed i) (erased (tc_name c) w)) \<and>
    (\<forall>name j. ts_connections (pr_server (erased (tc_name c) w)) name = Some j \<longleftrightarrow>
       j \<noteq> i \<and> ts_connections (pr_server w) name = Some j) \<and>
    process_ok (erased (tc_name c) w) \<and>
    removeConnection S i w =
      (if el_threadId (pr_loops w (ts_loop (pr_server w))) = pr_tid w then removeConnectionInLoop S i w
       else Inr (queued S (ts_loop (pr_server w)) (RemoveConnectionInLoop i) w))"
  using assms erased_ok [OF assms]
  by (simp add: removeConnectionInLoop_def removeConnection_def on_loop_queue on_loop_run erased_def)



definition same_started :: "'k process \<Rightarrow> 'k process \<Rightarrow> bool" where
  "same_started w w' \<longleftrightarrow> ts_started (pr_server w') = ts_started (pr_server w)"

definition spawn_keeps :: "(string \<Rightarrow> 'k process \<Rightarrow> error + (loop_id \<times> 'k process)) \<Rightarrow> bool" where
  "spawn_keeps spawn \<longleftrightarrow> (\<forall>name w. holdsE (\<lambda>_. True) (\<lambda>(l, w'). same_started w w') (spawn name w))"

definition hook_keeps :: "(loop_id \<Rightarrow> 'k process \<Rightarrow> error + 'k process) option \<Rightarrow> bool" where
  "hook_keeps cb \<longleftrightarrow> (\<forall>f l w. cb = Some f \<longrightarrow> holdsE (\<lambda>_. True) (same_started w) (f l w))"

lemma pool_start_started:
  fixes w :: "'a process"
  assumes "spawn_keeps spawn" and "hook_keeps cb"
  shows "holdsE (\<lambda>_. True) (\<lambda>y. same_started w (snd y)) (pool_start spawn cb (p, w))"
  unfolding pool_start_def prod.case
proof (rule holdsE_bind)
  show "holdsE (\<lambda>_. True) (\<lambda>y. same_started w (snd y))
      (foldE (start_one spawn) [0..<nat (tp_numThreads p)] (p\<lparr>tp_started := True\<rparr>, w))"
  proof (rule foldE_invariant)
    fix i and x :: "loop_pool \<times> 'a process" assume "same_started w (snd x)"
    then obtain p' w' where x: "x = (p', w')" "same_started w w'" by (cases x) auto
    show "holdsE (\<lambda>_. True) (\<lambda>y. same_started w (snd y)) (start_one spawn i x)"
      unfolding start_one_def x prod.case Let_def
      by (rule holdsE_bind [OF assms(1) [unfolded spawn_keeps_def, rule_format]])
        (use x(2) in \<open>auto simp: same_started_def\<close>)
  qed (simp add: same_started_def)
next
  fix x :: "loop_pool \<times> 'a process" assume "same_started w (snd x)"
  then obtain p' w' where x: "x = (p', w')" "same_started w w'" by (cases x) auto
  have "holdsE (\<lambda>_. True) (\<lambda>y. same_started w (snd y)) (bindE (f l w') (\<lambda>w. Inr (p', w)))" if "cb = Some f" for f l
    by (rule holdsE_bind [OF assms(2) [unfolded hook_keeps_def, rule_format, OF that]]) (use x(2) in \<open>simp add: same_started_def\<close>)
  then show "holdsE (\<lambda>_. True) (\<lambda>y. same_started w (snd y))
      (case x of (p, s) \<Rightarrow> (case cb of None \<Rightarrow> Inr (p, s)
       | Some f \<Rightarrow> if tp_numThreads p = 0 then bindE (f (tp_baseLoop p) s) (\<lambda>s. Inr (p, s)) else Inr (p, s)))"
    using x by (simp split: option.split)
qed

lemma server_start_first:
  assumes "ts_started (pr_server w) = 0"
    and "spawn_keeps spawn" and "hook_keeps cb"
  shows "holdsE (\<lambda>_. True) (\<lambda>w'. ts_started (pr_server w') = 1) (server_start S spawn cb w)"
proof -
  let ?w = "upd_server (\<lambda>v. v\<lparr>ts_started := 0 + 1\<rparr>) w"
  have w: "ts_started (pr_server ?w) = 1" by (simp add: upd_server_def)
  have "holdsE (\<lambda>_. True) (\<lambda>w'. ts_started (pr_server w') = 1)
      (on_loop l (runInLoop S (\<lambda>_. from_loop (on_acceptor (Acceptor_listen S))) AcceptorListen) w1)"
    if "ts_started (pr_server w1) = 1" for l w1
  proof (cases "on_acceptor (Acceptor_listen S) w1")
    case (Inr w2)
    with listen_frame(1) [OF Inr] that show ?thesis by (auto simp: on_loop_run)
  qed (use that in \<open>simp add: on_loop_run\<close>)
  note listen = this
  show ?thesis
    unfolding server_start_def assms(1) Let_def if_P [OF refl]
    by (rule holdsE_bind [OF pool_start_started [OF assms(2,3)]])
      (use w in \<open>auto simp: same_started_def upd_server_def intro!: listen\<close>)
qed

lemma start_again:
  "ts_started (pr_server w) \<noteq> 0 \<Longrightarrow>
    server_start S spawn cb w = Inr (upd_server (\<lambda>v. v\<lparr>ts_started := ts_started v + 1\<rparr>) w)"
  by (simp add: server_start_def upd_server_def)

lemma starts_again:
  "ts_started (pr_server w) \<noteq> 0 \<Longrightarrow> unat (ts_started (pr_server w)) + n < 2 ^ 32 \<Longrightarrow>
    rounds (server_start S spawn cb) n w = Inr (upd_server (\<lambda>v. v\<lparr>ts_started := ts_started v + of_nat n\<rparr>) w)"
proof (induction n arbitrary: w)
  case 0
  then show ?case by (simp add: upd_server_def)
next
  case (Suc n)
  let ?w = "upd_server (\<lambda>v. v\<lparr>ts_started := ts_started v + 1\<rparr>) w"
  have u: "unat (ts_started (pr_server ?w)) = unat (ts_started (pr_server w)) + 1"
    using Suc.prems(2) by (simp add: upd_server_def unat_add_lem [THEN iffD1])
  then have "ts_started (pr_server ?w) \<noteq> 0" by (metis add_is_0 one_neq_zero unat_0)
  then show ?case
    using Suc.IH [of ?w] Suc.prems u by (simp add: start_again upd_server_def algebra_simps)
qed

text \<open>\<open>start\<close> is idempotent: of up to \<open>2^32 - 1\<close> calls only the first starts the pool and listens;
  the others change nothing but the counter. (The threads and the init hook started by the first
  call must leave the counter alone.)\<close>

lemma server_starts_once:
  assumes "ts_started (pr_server w) = 0" and "n < 2 ^ 32 - 1"
    and "spawn_keeps spawn" and "hook_keeps cb"
  shows "rounds (server_start S spawn cb) (Suc n) w =
    bindE (server_start S spawn cb w) (\<lambda>w'. Inr (upd_server (\<lambda>v. v\<lparr>ts_started := 1 + of_nat n\<rparr>) w'))"
proof -
  have "rounds (server_start S spawn cb) n w' = Inr (upd_server (\<lambda>v. v\<lparr>ts_started := 1 + of_nat n\<rparr>) w')"
    if "server_start S spawn cb w = Inr w'" for w'
  proof -
    have "ts_started (pr_server w') = 1" by (rule holdsED [OF server_start_first [OF assms(1,3,4)] that])
    then show ?thesis using starts_again [of w' n S spawn cb] assms(2) by (simp add: upd_server_def)
  qed
  then show ?thesis by (auto intro!: bindE_cong)
qed

text \<open>A server with one I/O loop, for the witnesses.\<close>

definition sample_server :: tcpserver where
  "sample_server = \<lparr>ts_loop = 0, ts_ipPort = ''127.0.0.1:80'', ts_name = ''E'',
     ts_acceptor = \<lparr>ac_sockfd = 5, ac_channel = Channel_init 5, ac_listenning = False\<rparr>,
     ts_threadPool = \<lparr>tp_baseLoop = 0, tp_name = ''E'', tp_started = True, tp_numThreads = 1, tp_next = 0,
       tp_threads = [''E0''], tp_loops = [1]\<rparr>,
     ts_numThreads = 0, ts_started = 0, ts_nextConnId = 1, ts_connections = Map.empty\<rparr>"

definition sample_process :: "sim process" where
  "sample_process = \<lparr>pr_tid = 100, pr_kern = sim_init, pr_mem = Map.empty,
     pr_loops = (\<lambda>l. (sample_loop [])\<lparr>el_threadId := 100 + int l\<rparr>), pr_conns = Map.empty, pr_server = sample_server\<rparr>"

lemma sample_process_ok: "process_ok sample_process"
  by (simp add: process_ok_def server_ok_def sample_process_def sample_server_def pool_ok_def)

definition no_server_callbacks :: "'w server_callbacks" where
  "no_server_callbacks = \<lparr>sc_connection = None, sc_message = None, sc_writeComplete = None\<rparr>"

theorem newConnection_adds_witness:
  "\<exists>w. newConnection sim_sys no_server_callbacks 9 7 (InetAddress_of \<lparr>sin_family = 2, sin_port = 0, sin_addr = 0\<rparr>) sample_process = Inr w \<and>
     ts_connections (pr_server w) = [''E-127.0.0.1:80#1'' \<mapsto> 9] \<and>
     el_pendingFunctors (pr_loops w 1) = [ConnectEstablished 9]"
proof -
  let ?w = sample_process
  have d: "ts_nextConnId (pr_server ?w) < 2147483647" "pr_conns ?w 9 = None"
    by (simp_all add: sample_process_def sample_server_def)
  have one: "fmt_d 1 = ''1''" by code_simp
  have l: "getNextLoop (ts_threadPool (pr_server ?w)) = Inr (l, p) \<Longrightarrow> l = 1" for l p
    by (simp add: sample_process_def sample_server_def getNextLoop_def Let_def)
  obtain p c k where c: "getNextLoop (ts_threadPool (pr_server ?w)) = Inr (tc_loop c, p)"
      "new_object 9 (ts_name (pr_server ?w) @ ''-'' @ ts_ipPort (pr_server ?w) @ ''#'' @ fmt_d (ts_nextConnId (pr_server ?w))) 7 c"
      "newConnection sim_sys no_server_callbacks 9 7 (InetAddress_of \<lparr>sin_family = 2, sin_port = 0, sin_addr = 0\<rparr>) ?w =
        (if el_threadId (pr_loops ?w (tc_loop c)) = pr_tid ?w
         then on_conn 9 (connectEstablished sim_sys (server_conn_callbacks sim_sys no_server_callbacks)) (with_connection p c k ?w)
         else Inr (queued sim_sys (tc_loop c) (ConnectEstablished 9) (with_connection p c k ?w)))"
    using newConnection_adds [OF sample_process_ok d] by blast
  have lc: "tc_loop c = 1" using c(1) by (rule l)
  show ?thesis
    using c(2,3) lc by (simp add: new_object_def sample_process_def sample_server_def sample_loop_def one)
qed

theorem removeConnection_erases_witness:
  "\<exists>w w'. process_ok w \<and> ts_connections (pr_server w) = [''E-127.0.0.1:80#1'' \<mapsto> 9] \<and>
     removeConnectionInLoop sim_sys 9 w = Inr w' \<and> ts_connections (pr_server w') = Map.empty"
proof -
  obtain b where b: "Buffer_init kInitialSize = Inr b" "buffer_ok b" "readable b = []"
    using Buffer_init_ok [of kInitialSize] by (auto simp: kInitialSize_def vector_max_def)
  have one: "fmt_d 1 = ''1''" by code_simp
  obtain c where c: "tc_loop c = 1" "new_object 9 (conn_name sample_server 1) 7 c"
    using TcpConnection_init_ok [of sim_sys 9 1 "conn_name sample_server 1" 7] by blast
  obtain p where p: "pool_ok p" using sample_pool_ok by blast
  let ?w = "with_connection p c sim_init sample_process"
  have s: "pr_server sample_process = sample_server" "pr_conns sample_process 9 = None" "ts_nextConnId sample_server = 1"
    by (simp_all add: sample_process_def sample_server_def)
  have n: "conn_name sample_server 1 = ''E-127.0.0.1:80#1''"
    by (subst conn_name_complete) (simp_all add: sample_server_def one)
  have ok: "process_ok ?w"
    by (rule with_connection_ok(1) [OF sample_process_ok _ _ p]) (use s c in simp_all)
  have o: "pr_conns ?w 9 = Some c" using c by (simp add: new_object_def)
  have t: "tc_id c = 9" "tc_name c = ''E-127.0.0.1:80#1''" using c n by (simp_all add: new_object_def)
  have e: "removeConnectionInLoop sim_sys 9 ?w =
      Inr (queued sim_sys (tc_loop c) (ConnectDestroyed 9) (erased (tc_name c) ?w))"
    using removeConnection_erases [OF ok o, of sim_sys] by blast
  have before: "ts_connections (pr_server ?w) = [''E-127.0.0.1:80#1'' \<mapsto> 9]"
    by (simp add: t s(1)) (simp add: sample_server_def)
  then have "ts_connections (pr_server (queued sim_sys (tc_loop c) (ConnectDestroyed 9) (erased (tc_name c) ?w))) = Map.empty"
    by (simp add: erased_def upd_server_def t)
  with ok before e show ?thesis by blast
qed

end
