(* ===== verification/ConnFrame.thy ===== *)
theory ConnFrame
  imports TcpServer
begin

text \<open>
  What the operations of a connection leave alone, whatever state the connection is in: the rest of
  the process, the other descriptors and the identity of the connection. The functors they queue
  are the connection's own and go to its own loop.
\<close>

definition posted :: "conn_id \<Rightarrow> task \<Rightarrow> bool" where
  "posted i t \<longleftrightarrow> t = WriteComplete i \<or> (\<exists>n. t = HighWaterMark i n) \<or> (\<exists>f off n. t = SendFileInLoop i f off n)"

definition same_ident :: "tcpconnection \<Rightarrow> tcpconnection \<Rightarrow> bool" where
  "same_ident c c' \<longleftrightarrow> tc_id c' = tc_id c \<and> tc_name c' = tc_name c \<and> tc_loop c' = tc_loop c \<and>
     tc_sockfd c' = tc_sockfd c \<and> state_rank (tc_state c) \<le> state_rank (tc_state c')"

definition same_regs :: "'k view \<Rightarrow> fd \<Rightarrow> epoller \<times> 'k \<Rightarrow> epoller \<times> 'k \<Rightarrow> bool" where
  "same_regs V f q q' \<longleftrightarrow> ep_epollfd (fst q') = ep_epollfd (fst q) \<and>
     (\<forall>g. g \<noteq> f \<longrightarrow> ep_channels (fst q') g = ep_channels (fst q) g \<and> v_fin V (snd q') g = v_fin V (snd q) g) \<and>
     (\<forall>ep g. ep \<noteq> ep_epollfd (fst q) \<or> g \<noteq> f \<longrightarrow> v_reg V (snd q') ep g = v_reg V (snd q) ep g)"

definition local_change :: "'k view \<Rightarrow> ('k, 'z) conn_st_scheme \<Rightarrow> ('k, 'z) conn_st_scheme \<Rightarrow> bool" where
  "local_change V s s' \<longleftrightarrow>
     conn_st.more s' = conn_st.more s \<and> st_tid s' = st_tid s \<and> st_self s' = st_self s \<and>
     same_ident (st_conn s) (st_conn s') \<and>
     el_threadId (st_loop s') = el_threadId (st_loop s) \<and> el_wakeupFd (st_loop s') = el_wakeupFd (st_loop s) \<and>
     same_regs V (tc_sockfd (st_conn s)) (st_poller s) (st_poller s') \<and>
     (\<forall>g. g \<noteq> tc_sockfd (st_conn s) \<longrightarrow> g \<noteq> el_wakeupFd (st_loop s) \<longrightarrow> v_sent V (st_kern s') g = v_sent V (st_kern s) g) \<and>
     (\<exists>ts. pend s' = pend s @ ts \<and> (\<forall>t\<in>set ts. posted (tc_id (st_conn s)) t))"

text \<open>How the registration and the state of the connection may change: a channel once registered
  stays known to the poller, nobody but \<open>handleClose\<close> and \<open>connectDestroyed\<close> takes the connection down,
  and one that is down and unknown stays so.\<close>

definition index_kept :: "tcpconnection \<Rightarrow> tcpconnection \<Rightarrow> bool" where
  "index_kept c c' \<longleftrightarrow> (ch_index (tc_channel c) \<noteq> kNew \<longrightarrow> ch_index (tc_channel c') \<noteq> kNew)"

definition quiet :: "tcpconnection \<Rightarrow> tcpconnection \<Rightarrow> bool" where
  "quiet c c' \<longleftrightarrow> (tc_state c' = kDisconnected \<longrightarrow> tc_state c = kDisconnected \<and>
     (ch_index (tc_channel c) = kNew \<longrightarrow> ch_index (tc_channel c') = kNew))"

definition steady :: "'k view \<Rightarrow> ('k, 'z) conn_st_scheme \<Rightarrow> ('k, 'z) conn_st_scheme \<Rightarrow> bool" where
  "steady V s s' \<longleftrightarrow> local_change V s s' \<and> index_kept (st_conn s) (st_conn s') \<and> quiet (st_conn s) (st_conn s')"

section \<open>The relations compose\<close>

lemma same_ident_refl [simp]: "same_ident c c"
  by (simp add: same_ident_def)

lemma same_ident_trans: "same_ident c c1 \<Longrightarrow> same_ident c1 c2 \<Longrightarrow> same_ident c c2"
  by (simp add: same_ident_def)

lemma same_regs_refl [simp]: "same_regs V f q q"
  by (simp add: same_regs_def)

lemma same_regs_trans: "same_regs V f q q1 \<Longrightarrow> same_regs V f q1 q2 \<Longrightarrow> same_regs V f q q2"
  by (simp add: same_regs_def)

lemma same_but_regs: "same_but V f q q' \<Longrightarrow> same_regs V f q q' \<and> v_sent V (snd q') = v_sent V (snd q)"
  by (simp add: same_but_def same_regs_def)

lemma index_kept_refl [simp]: "index_kept c c"
  by (simp add: index_kept_def)

lemma index_kept_trans: "index_kept c c1 \<Longrightarrow> index_kept c1 c2 \<Longrightarrow> index_kept c c2"
  by (simp add: index_kept_def)

lemma quiet_refl [simp]: "quiet c c"
  by (simp add: quiet_def)

lemma quiet_trans: "quiet c c1 \<Longrightarrow> quiet c1 c2 \<Longrightarrow> quiet c c2"
  by (auto simp: quiet_def)

lemma local_refl [simp]: "local_change V s s"
  by (simp add: local_change_def)

lemma local_trans:
  assumes "local_change V s s1" and "local_change V s1 s2"
  shows "local_change V s s2"
proof -
  have i: "tc_id (st_conn s1) = tc_id (st_conn s)" "tc_sockfd (st_conn s1) = tc_sockfd (st_conn s)"
    using assms(1) by (simp_all add: local_change_def same_ident_def)
  obtain ts ts' where "pend s1 = pend s @ ts" "\<forall>t\<in>set ts. posted (tc_id (st_conn s)) t"
      "pend s2 = pend s1 @ ts'" "\<forall>t\<in>set ts'. posted (tc_id (st_conn s)) t"
    using assms i unfolding local_change_def by metis
  then have "\<exists>ts. pend s2 = pend s @ ts \<and> (\<forall>t\<in>set ts. posted (tc_id (st_conn s)) t)"
    by (intro exI [of _ "ts @ ts'"]) auto
  moreover have "same_regs V (tc_sockfd (st_conn s)) (st_poller s) (st_poller s2)"
    using assms i same_regs_trans unfolding local_change_def by metis
  moreover have "same_ident (st_conn s) (st_conn s2)"
    using assms same_ident_trans unfolding local_change_def by metis
  moreover have "\<forall>g. g \<noteq> tc_sockfd (st_conn s) \<longrightarrow> g \<noteq> el_wakeupFd (st_loop s) \<longrightarrow> v_sent V (st_kern s2) g = v_sent V (st_kern s) g"
    using assms i by (simp add: local_change_def)
  ultimately show ?thesis using assms by (simp add: local_change_def)
qed

lemma steady_refl [simp]: "steady V s s"
  by (simp add: steady_def)

lemma steady_trans: "steady V s s1 \<Longrightarrow> steady V s1 s2 \<Longrightarrow> steady V s s2"
  by (auto simp: steady_def intro: local_trans index_kept_trans quiet_trans)

lemma steady_ident: "steady V s s' \<Longrightarrow> same_ident (st_conn s) (st_conn s')"
  by (simp add: steady_def local_change_def)

section \<open>Single changes\<close>

lemma steady_queue:
  assumes "write_doc S V" and "posted (tc_id (st_conn s)) t"
  shows "steady V s (queueInLoop S t s)"
  using assms by (simp add: steady_def local_change_def same_regs_def queue_view)

lemma steady_queue_after:
  assumes "write_doc S V" and "steady V s u" and "posted (tc_id (st_conn s)) t"
  shows "steady V s (queueInLoop S t u)"
  using assms(3) steady_trans [OF assms(2) steady_queue [OF assms(1)]] steady_ident [OF assms(2)]
  by (simp add: same_ident_def)

lemma steady_queue_if:
  assumes "write_doc S V" and "steady V s u" and "b \<Longrightarrow> posted (tc_id (st_conn s)) t"
  shows "steady V s (if b then queueInLoop S t u else u)"
  using steady_queue_after [OF assms(1,2)] assms by simp

lemma steady_kern:
  assumes "v_reg V k = v_reg V (st_kern s)"
    and "\<forall>g. g \<noteq> tc_sockfd (st_conn s) \<longrightarrow> v_fin V k g = v_fin V (st_kern s) g \<and> v_sent V k g = v_sent V (st_kern s) g"
  shows "steady V s (s\<lparr>st_kern := k\<rparr>)"
  using assms by (simp add: steady_def local_change_def same_regs_def)

lemma steady_upd:
  assumes "same_ident (st_conn s) (f (st_conn s))" "index_kept (st_conn s) (f (st_conn s))" "quiet (st_conn s) (f (st_conn s))"
  shows "steady V s (upd_conn f s)"
  using assms by (simp add: steady_def local_change_def)

lemma steady_buffer [simp]:
  "steady V s (upd_conn (\<lambda>c. c\<lparr>tc_inputBuffer := b\<rparr>) s)" "steady V s (upd_conn (\<lambda>c. c\<lparr>tc_outputBuffer := g (tc_outputBuffer c)\<rparr>) s)"
  by (rule steady_upd; simp add: same_ident_def index_kept_def quiet_def)+

lemma steady_mem [simp]: "steady V s (s\<lparr>st_mem := m\<rparr>)"
  by (simp add: steady_def local_change_def pend_def)

text \<open>The channel's registration, as far as the operations need it.\<close>

definition linked :: "'k view \<Rightarrow> ('k, 'z) conn_st_scheme \<Rightarrow> bool" where
  "linked V s \<longleftrightarrow> known V (st_poller s) (self_ptr s) (tc_channel (st_conn s)) \<and>
     ch_fd (tc_channel (st_conn s)) = tc_sockfd (st_conn s)"

lemma conn_ok_linked: "conn_ok V s \<Longrightarrow> linked V s"
  by (simp add: conn_ok_def conn_core_def ep_synced_def linked_def)

lemma known_reg: "v_reg V k' = v_reg V k \<Longrightarrow> known V (po, k') p ch = known V (po, k) p ch"
  by (simp add: known_def interest_def)

lemma linked_queue [simp]: "write_doc S V \<Longrightarrow> linked V (queueInLoop S t s) = linked V s"
  by (simp add: linked_def known_reg [OF queue_view(3)])

lemma linked_kern: "v_reg V k = v_reg V (st_kern s) \<Longrightarrow> linked V (s\<lparr>st_kern := k\<rparr>) = linked V s"
  by (simp add: linked_def known_reg [of V k "st_kern s"])

lemma linked_simps [simp]:
  "linked V (upd_conn (\<lambda>c. c\<lparr>tc_inputBuffer := b\<rparr>) s) = linked V s"
  "linked V (upd_conn (\<lambda>c. c\<lparr>tc_outputBuffer := b\<rparr>) s) = linked V s"
  "linked V (upd_conn (\<lambda>c. c\<lparr>tc_outputBuffer := g (tc_outputBuffer c)\<rparr>) s) = linked V s"
  "linked V (setState x s) = linked V s"
  "linked V (s\<lparr>st_mem := m\<rparr>) = linked V s"
  by (simp_all add: linked_def self_ptr_def setState_def)

text \<open>An operation of the channel is local; it never makes the channel new.\<close>

lemma on_channel_local:
  assumes "epoll_ctl_doc S V" and "linked V s"
    and "on_channel (\<lambda>p ch. updateChannel S p (ch\<lparr>ch_events := g ch\<rparr>)) s = Inr s'"
  shows "local_change V s s'" "index_kept (st_conn s) (st_conn s')" "tc_state (st_conn s') = tc_state (st_conn s)"
proof -
  let ?ch = "tc_channel (st_conn s)\<lparr>ch_events := g (tc_channel (st_conn s))\<rparr>"
  have kn: "known V (st_poller s) (self_ptr s) ?ch" using assms(2) by (simp add: linked_def)
  obtain ch s1 where u: "updateChannel S (self_ptr s) ?ch s = Inr (ch, s1)" "s' = upd_conn (\<lambda>c. c\<lparr>tc_channel := ch\<rparr>) s1"
    using assms(3) by (auto simp: on_channel_def)
  from holdsED [OF updateChannel_st [OF assms(1) kn] u(1)] obtain q where
    "s1 = with_poller q s" "same_but V (ch_fd ?ch) (st_poller s) q" "ch = set_index (next_index ?ch) ?ch" by auto
  then show "local_change V s s'" "index_kept (st_conn s) (st_conn s')" "tc_state (st_conn s') = tc_state (st_conn s)"
    using u(2) assms(2) same_but_regs [of V "tc_sockfd (st_conn s)" "st_poller s" q]
    by (simp_all add: local_change_def same_ident_def index_kept_def linked_def
        next_index_def index_defs)
qed

lemma on_channel_steady:
  assumes "epoll_ctl_doc S V" and "linked V s" and "tc_state (st_conn s) \<noteq> kDisconnected"
    and "on_channel (\<lambda>p ch. updateChannel S p (ch\<lparr>ch_events := g ch\<rparr>)) s = Inr s'"
  shows "steady V s s'" "tc_state (st_conn s') = tc_state (st_conn s)"
  using on_channel_local [OF assms(1,2,4)] assms(3) by (simp_all add: steady_def quiet_def)

lemma on_channel_remove_local:
  assumes "epoll_ctl_doc S V" and "linked V s"
  shows "\<exists>s'. on_channel (removeChannel S) s = Inr s' \<and> local_change V s s' \<and>
    ch_index (tc_channel (st_conn s')) = kNew \<and> tc_state (st_conn s') = tc_state (st_conn s)"
proof -
  have kn: "known V (st_poller s) (self_ptr s) (tc_channel (st_conn s))" using assms(2) by (simp add: linked_def)
  obtain q where q: "removeChannel S (self_ptr s) (tc_channel (st_conn s)) s = Inr (set_index kNew (tc_channel (st_conn s)), with_poller q s)"
     "same_but V (ch_fd (tc_channel (st_conn s))) (st_poller s) q"
    using removeChannel_st [OF assms(1) kn] by blast
  then show ?thesis
    using assms(2) same_but_regs [OF q(2)] by (simp add: on_channel_def local_change_def same_ident_def linked_def)
qed

section \<open>The operations\<close>

lemma send_direct_steady:
  assumes "write_doc S V" and "send_direct S cbs d s = (n, r, e, s1)"
    and l: "linked V s"
  shows "steady V s s1" and "linked V s1" and "tc_state (st_conn s1) = tc_state (st_conn s)"
proof -
  have fd: "ch_fd (tc_channel (st_conn s)) = tc_sockfd (st_conn s)" using l by (simp add: linked_def)
  let ?w = "sys_write S (ch_fd (tc_channel (st_conn s))) d (st_kern s)"
  have k: "steady V s (s\<lparr>st_kern := snd ?w\<rparr>)" "linked V (s\<lparr>st_kern := snd ?w\<rparr>) = linked V s"
    using write_other [OF assms(1)] fd by (simp_all add: steady_kern linked_kern)
  have p: "posted (tc_id (st_conn s)) (WriteComplete (tc_id (st_conn s)))" by (simp add: posted_def)
  have "steady V s s1 \<and> linked V s1 \<and> tc_state (st_conn s1) = tc_state (st_conn s)"
  proof (cases "\<not> isWriting (tc_channel (st_conn s)) \<and> readableBytes (tc_outputBuffer (st_conn s)) = 0")
    case True
    obtain x k1 where w: "?w = (x, k1)" by fastforce
    show ?thesis
      using assms(2) True k l p steady_queue_after [OF assms(1) k(1) p]
      by (auto simp: send_direct_def Let_def w assms(1) split: io.splits)
  qed (use assms(2) l in \<open>auto simp: send_direct_def Let_def split: if_splits\<close>)
  then show "steady V s s1" "linked V s1" "tc_state (st_conn s1) = tc_state (st_conn s)" by auto
qed

lemma send_buffered_steady:
  assumes docs: "write_doc S V" "epoll_ctl_doc S V" and l: "linked V s" and up: "tc_state (st_conn s) \<noteq> kDisconnected"
    and r: "send_buffered S cbs d n rem s = Inr s'"
  shows "steady V s s'"
proof -
  let ?mark = "HighWaterMark (tc_id (st_conn s)) (readableBytes (tc_outputBuffer (st_conn s)) + rem)"
  let ?b = "tc_highWaterMark (st_conn s) \<le> readableBytes (tc_outputBuffer (st_conn s)) + rem \<and>
      readableBytes (tc_outputBuffer (st_conn s)) < tc_highWaterMark (st_conn s) \<and> cb_highWaterMark cbs \<noteq> None"
  let ?s = "if ?b then queueInLoop S ?mark s else s"
  have q: "steady V s ?s" by (rule steady_queue_if [OF docs(1)]) (simp_all add: posted_def)
  obtain b where b: "(let s = upd_conn (\<lambda>c. c\<lparr>tc_outputBuffer := b\<rparr>) ?s in
       if \<not> isWriting (tc_channel (st_conn s)) then on_channel (enableWriting S) s else Inr s) = Inr s'"
    using r by (auto simp: send_buffered_def Let_def)
  let ?u = "upd_conn (\<lambda>c. c\<lparr>tc_outputBuffer := b\<rparr>) ?s"
  have u: "steady V s ?u" by (rule steady_trans [OF q steady_buffer(2)])
  have lu: "linked V ?u" using l docs(1) by simp
  have up': "tc_state (st_conn ?u) \<noteq> kDisconnected" using up by simp
  show ?thesis
  proof (cases "isWriting (tc_channel (st_conn ?u))")
    case True
    then show ?thesis using b u by (simp add: Let_def)
  next
    case False
    then have "on_channel (enableWriting S) ?u = Inr s'" using b by (simp add: Let_def)
    from on_channel_steady(1) [OF docs(2) lu up' this [unfolded channel_ops_eta]] u show ?thesis
      by (rule steady_trans [rotated])
  qed
qed

lemma sendInLoop_steady:
  assumes docs: "write_doc S V" "epoll_ctl_doc S V" and l: "linked V s" and r: "sendInLoop S cbs d s = Inr s'"
  shows "steady V s s'"
proof (cases "tc_state (st_conn s) = kDisconnected")
  case False
  obtain n rem e s1 where d: "send_direct S cbs d s = (n, rem, e, s1)" by (metis prod_cases4)
  note s1 = send_direct_steady [OF docs(1) d l]
  show ?thesis
  proof (cases "\<not> e \<and> 0 < rem")
    case True
    then have "send_buffered S cbs d n rem s1 = Inr s'" using r False d by (simp add: sendInLoop_def)
    from send_buffered_steady [OF docs s1(2) _ this] False s1 steady_trans show ?thesis by metis
  qed (use r False d s1 in \<open>auto simp: sendInLoop_def\<close>)
qed (use r in \<open>simp add: sendInLoop_def\<close>)

lemma shutdownInLoop_steady:
  assumes "shutdown_doc S V" and "shutdownInLoop S s = Inr s'"
  shows "steady V s s'"
proof -
  obtain r k where w: "sys_shutdown_wr S (tc_sockfd (st_conn s)) (st_kern s) = (r, k)" by fastforce
  from assms(1) [unfolded shutdown_doc_def, rule_format, OF w] assms(2) steady_kern [of V k s]
  show ?thesis by (auto simp: shutdownInLoop_def shutdownWrite_def w split: if_splits)
qed

lemma sendFileInLoop_steady:
  assumes "write_doc S V" "sendfile_doc S V"
  shows "steady V s (sendFileInLoop S cbs f off n s)"
proof -
  obtain r off' k where w: "sys_sendfile S (tc_sockfd (st_conn s)) f off (unat n) (st_kern s) = (r, off', k)"
    by (metis prod_cases3)
  have k: "steady V s (s\<lparr>st_kern := k\<rparr>)"
    using assms(2) [unfolded sendfile_doc_def, rule_format, OF w] by (intro steady_kern) (auto split: io.splits)
  have p: "posted (tc_id (st_conn s)) (WriteComplete (tc_id (st_conn s)))"
    "posted (tc_id (st_conn s)) (SendFileInLoop (tc_id (st_conn s)) f o' m)" for o' m by (simp_all add: posted_def)
  note q = steady_queue_if [OF assms(1)]
  show ?thesis
    using w k p steady_queue [OF assms(1) p(2)] q [OF k] q [OF q [OF k]]
    by (auto simp: sendFileInLoop_def Let_def split: io.splits)
qed

lemma handleError_steady:
  assumes "so_error_doc S V" and "handleError S s = Inr s'"
  shows "steady V s s'"
proof -
  obtain r k where w: "sys_so_error S (ch_fd (tc_channel (st_conn s))) (st_kern s) = (r, k)" by fastforce
  from assms(1) [unfolded so_error_doc_def, rule_format, OF w] assms(2) steady_kern [of V k s]
  show ?thesis by (auto simp: handleError_def w)
qed

lemma handleWrite_steady:
  assumes S: "kernel_doc S V" and ok: "conn_ok V s" and r: "handleWrite S cbs s = Inr s'"
  shows "steady V s s'"
proof (cases "isWriting (tc_channel (st_conn s))")
  case True
  note docs = kernel_docD [OF S]
  obtain x k where w: "writeFd S (ch_fd (tc_channel (st_conn s))) (tc_outputBuffer (st_conn s)) (st_kern s) = Inr (x, k)"
    using r True by (auto simp: handleWrite_def)
  then have w': "snd (sys_write S (ch_fd (tc_channel (st_conn s))) (readable (tc_outputBuffer (st_conn s))) (st_kern s)) = k"
    using ok by (simp add: writeFd_def conn_ok_def conn_core_def peek_all)
  have fd: "ch_fd (tc_channel (st_conn s)) = tc_sockfd (st_conn s)" using conn_ok_linked [OF ok] by (simp add: linked_def)
  have reg: "v_reg V k = v_reg V (st_kern s)" "v_fin V k = v_fin V (st_kern s)"
      "\<And>g. g \<noteq> tc_sockfd (st_conn s) \<Longrightarrow> v_sent V k g = v_sent V (st_kern s) g"
    using write_other [OF docs(2)] unfolding fd [symmetric] w' [symmetric] by blast+
  let ?s = "s\<lparr>st_kern := k\<rparr>"
  have k: "steady V s ?s" "linked V ?s" using reg conn_ok_linked [OF ok] by (simp_all add: steady_kern linked_kern)
  show ?thesis
  proof (cases "\<exists>n>0. x = Done n \<and> readableBytes (retrieve (of_nat n) (tc_outputBuffer (st_conn s))) = 0")
    case False
    have "s' = ?s \<or> (\<exists>n. s' = upd_conn (\<lambda>c. c\<lparr>tc_outputBuffer := retrieve (of_nat n) (tc_outputBuffer c)\<rparr>) ?s)"
    proof (cases x)
      case (Done n)
      show ?thesis
      proof (cases "0 < n")
        case pos: True
        then have "readableBytes (retrieve (of_nat n) (tc_outputBuffer (st_conn s))) \<noteq> 0" using False Done by blast
        then have "upd_conn (\<lambda>c. c\<lparr>tc_outputBuffer := retrieve (of_nat n) (tc_outputBuffer c)\<rparr>) ?s = s'"
          using r True w Done pos by (simp add: handleWrite_def Let_def)
        then show ?thesis by blast
      qed (use r True w Done in \<open>simp add: handleWrite_def\<close>)
    qed (use r True w in \<open>simp add: handleWrite_def\<close>)
    then show ?thesis using k(1) steady_trans [OF k(1) steady_buffer(2)] by blast
  next
    case n: True
    then obtain n where n: "x = Done n" "0 < n" "readableBytes (retrieve (of_nat n) (tc_outputBuffer (st_conn s))) = 0" by blast
    let ?u = "upd_conn (\<lambda>c. c\<lparr>tc_outputBuffer := retrieve (of_nat n) (tc_outputBuffer c)\<rparr>) ?s"
    have u: "steady V s ?u" "linked V ?u" using k steady_trans [OF k(1) steady_buffer(2)] by simp_all
    have up: "tc_state (st_conn ?u) \<noteq> kDisconnected" using ok True by (auto simp: conn_ok_def live_def)
    obtain s1 where s1: "on_channel (disableWriting S) ?u = Inr s1"
        "(let s = (if cb_writeComplete cbs \<noteq> None then queueInLoop S (WriteComplete (tc_id (st_conn s1))) s1 else s1)
          in if tc_state (st_conn s) = kDisconnecting then shutdownInLoop S s else Inr s) = Inr s'"
      using r True w n by (auto simp: handleWrite_def Let_def)
    have t1: "steady V s s1" using on_channel_steady(1) [OF docs(5) u(2) up s1(1) [unfolded channel_ops_eta]] u(1)
      by (blast intro: steady_trans)
    let ?t = "if cb_writeComplete cbs \<noteq> None then queueInLoop S (WriteComplete (tc_id (st_conn s1))) s1 else s1"
    have t2: "steady V s ?t"
      using steady_ident [OF t1] by (intro steady_queue_if [OF docs(2) t1]) (simp add: posted_def same_ident_def)
    show ?thesis
    proof (cases "tc_state (st_conn ?t) = kDisconnecting")
      case True
      then have "shutdownInLoop S ?t = Inr s'" using s1(2) unfolding Let_def by (rule if_P [THEN subst])
      then show ?thesis using t2 shutdownInLoop_steady [OF docs(3)] steady_trans by blast
    next
      case False
      then have "s' = ?t" using s1(2) unfolding Let_def if_not_P [OF False] by simp
      then show ?thesis using t2 by simp
    qed
  qed
qed (use r in \<open>simp add: handleWrite_def\<close>)

lemma send_steady:
  assumes S: "kernel_doc S V" and ok: "conn_ok V s" and loop: "isInLoopThread s" and r: "send S cbs other p s = Inr s'"
  shows "steady V s s'"
  using r loop sendInLoop_steady [OF kernel_docD(2,5) [OF S] conn_ok_linked [OF ok]]
  by (auto simp: send_def split: if_splits option.splits)

lemma setState_steady:
  assumes "state_rank (tc_state (st_conn s)) \<le> state_rank x" and "x \<noteq> kDisconnected"
  shows "steady V s (setState x s)"
  using assms unfolding setState_def by (intro steady_upd) (simp_all add: same_ident_def index_kept_def quiet_def)

lemma shutdown_steady:
  assumes S: "kernel_doc S V" and loop: "isInLoopThread s" and r: "shutdown S cbs other s = Inr s'"
  shows "steady V s s'"
proof (cases "tc_state (st_conn s) = kConnected")
  case True
  have "isInLoopThread (setState kDisconnecting s)" using loop by (simp add: setState_def)
  then have "shutdownInLoop S (setState kDisconnecting s) = Inr s'"
    using r True by (simp add: shutdown_def shutdown_go_def runInLoop_def)
  from steady_trans [OF setState_steady shutdownInLoop_steady [OF kernel_docD(3) [OF S] this]] True
  show ?thesis by simp
qed (use r in \<open>simp add: shutdown_def\<close>)

lemma sendFile_steady:
  assumes S: "kernel_doc S V" and loop: "isInLoopThread s" and r: "sendFile S cbs other f off n s = Inr s'"
  shows "steady V s s'"
  using r loop sendFileInLoop_steady [OF kernel_docD(2,8) [OF S]] by (auto simp: sendFile_def split: if_splits)

end
