(* ===== verification/ConnProperties.thy ===== *)
theory ConnProperties
  imports TcpConnection
begin

text \<open>
  The properties of a TCP connection: what holds over its whole life, what sending, writing,
  reading, shutting down and destroying do, and what the code does that it does not mean to. The definitions and the lemmas are in the theory TcpConnection.
\<close>

section \<open>The contract of the user's callbacks\<close>

text \<open>
  A user of the class installs callbacks. What the connection relies on is that they keep its
  invariant, as every operation of the class does; then every run keeps it.
\<close>

locale connection_user =
  fixes S :: "'k sys" and V :: "'k view" and cbs :: "('k, 'z) conn_st_scheme callbacks"
  assumes callbacks: "kernel_doc S V \<Longrightarrow> good_callbacks V cbs"
begin

lemma run_ok:
  "kernel_doc S V \<Longrightarrow> conn_ok V s0 \<Longrightarrow> conn_run S cbs other s0 n False s \<Longrightarrow> conn_ok V s \<and> evolves V s0 s"
  by (rule conn_run_ok [OF _ callbacks])

lemma event_ok:
  "kernel_doc S V \<Longrightarrow> conn_ok V s \<Longrightarrow> keeps V s (conn_handleEvent S cbs alive t s)"
  by (rule conn_handleEvent_ok [OF _ callbacks])

end

text \<open>A connection nobody listens to.\<close>

definition no_callbacks :: "('k, 'z) conn_st_scheme callbacks" where
  "no_callbacks = \<lparr>cb_connection = None, cb_message = None, cb_writeComplete = None,
     cb_highWaterMark = None, cb_close = None\<rparr>"

lemma good_no_callbacks: "good_callbacks V no_callbacks"
  by (simp add: good_callbacks_def no_callbacks_def)

section \<open>A connection for the witnesses\<close>

definition buffer_with :: "byte list \<Rightarrow> buffer" where
  "buffer_with d = \<lparr>buf_data = replicate 8 0 @ d @ replicate 4 0, buf_reader = 8,
     buf_writer = 8 + of_nat (length d)\<rparr>"

definition sample_events :: "byte list \<Rightarrow> events" where
  "sample_events d = (if d = [] then kReadEvent else kReadEvent OR kWriteEvent)"

definition sample_conn :: "conn_state \<Rightarrow> byte list \<Rightarrow> sim \<Rightarrow> sim conn_st" where
  "sample_conn x d k = \<lparr>st_tid = 100, st_self = 0,
     st_loop = (sample_loop [])\<lparr>el_poller := \<lparr>ep_channels = [7 \<mapsto> ConnChannelOf 1], ep_epollfd = 3,
       ep_events_size = 16\<rparr>\<rparr>,
     st_kern = k\<lparr>sim_reg := (\<lambda>_ _. None)(3 := [7 \<mapsto> (sample_events d, ConnChannelOf 1)])\<rparr>,
     st_conn = \<lparr>tc_id = 1, tc_loop = 0, tc_name = ''c'', tc_state = x, tc_reading = True, tc_sockfd = 7,
       tc_channel = (Channel_init 7)\<lparr>ch_events := sample_events d, ch_index := kAdded\<rparr>,
       tc_localAddr = InetAddress_of \<lparr>sin_family = 2, sin_port = 0, sin_addr = 0\<rparr>,
       tc_peerAddr = InetAddress_of \<lparr>sin_family = 2, sin_port = 0, sin_addr = 0\<rparr>,
       tc_highWaterMark = 64 * 1024 * 1024, tc_inputBuffer = buffer_with [],
       tc_outputBuffer = buffer_with d\<rparr>,
     st_mem = [0 \<mapsto> [1, 2, 3]]\<rparr>"

lemma buffer_with_ok:
  assumes "length d < 1000"
  shows "buffer_ok (buffer_with d)" "readable (buffer_with d) = d"
proof -
  have "unat (8 + of_nat (length d) :: size_t) = 8 + length d"
    using assms by (simp add: unat_add_size unat_of_nat_size)
  then show "buffer_ok (buffer_with d)" "readable (buffer_with d) = d"
    using assms by (simp_all add: buffer_with_def buffer_ok_def readable_def vector_max_def)
qed

lemma sample_conn_ok:
  assumes "length d < 1000" and "x = kConnected \<or> x = kDisconnecting" and "\<not> sim_fin k 7"
  shows "conn_ok sim_view (sample_conn x d k)"
proof -
  have w: "isWriting (Channel_init 7\<lparr>ch_events := sample_events d, ch_index := i\<rparr>) \<longleftrightarrow> d \<noteq> []" for i
    by (simp add: isWriting_bit sample_events_def bit_or_iff write_bit)
  show ?thesis
    using assms buffer_with_ok [OF assms(1)] buffer_with_ok [of "[]"] w
    by (simp add: conn_ok_def conn_core_def sample_conn_def live_def fin_sent_def ep_synced_def known_def
        interest_def self_ptr_def sample_loop_def Channel_init_def index_defs) auto
qed

section \<open>Properties\<close>

text \<open>C1: The life of a connection. Whatever sequence of poll events, calls of \<open>send\<close>, \<open>shutdown\<close> and
  \<open>sendFile\<close> in the loop's thread, queued tasks, and tests, stores and queueings of such calls in other threads
  a connection goes through, if the callbacks keep the invariant and no thread's \<open>shutdown\<close>, having tested the
  state before, stores \<open>kDisconnecting\<close> after the loop has closed the connection: write interest is on exactly
  while a live connection has output waiting; the kernel's registration is the one the channel asks for; the write
  end is shut only when no output waits or the connection is down; the state only moves forward; and
  the bytes accepted before stay in the stream, in order and unduplicated, the part already
  given to the kernel only growing. (What such a late store does is \<open>shutdown_races_with_close\<close>.)\<close>

theorem connection_invariant:
  assumes "kernel_doc S V" and "good_callbacks V cbs" and "conn_ok V s0" and "conn_run S cbs other s0 n False s"
  shows "(isWriting (tc_channel (st_conn s)) \<longleftrightarrow> live (st_conn s) \<and> readable (tc_outputBuffer (st_conn s)) \<noteq> []) \<and>
    registration_matches V (st_poller s) (self_ptr s) (tc_channel (st_conn s)) \<and>
    (fin_sent V s \<longrightarrow> tc_state (st_conn s) = kDisconnected \<or>
       tc_state (st_conn s) = kDisconnecting \<and> readable (tc_outputBuffer (st_conn s)) = []) \<and>
    state_rank (tc_state (st_conn s0)) \<le> state_rank (tc_state (st_conn s)) \<and>
    prefix (out_stream V s0) (out_stream V s) \<and>
    prefix (v_sent V (st_kern s0) (tc_sockfd (st_conn s0))) (v_sent V (st_kern s) (tc_sockfd (st_conn s0)))"
proof -
  have "conn_ok V s" "evolves V s0 s" using conn_run_ok [OF assms] by auto
  then show ?thesis
    by (auto simp: conn_ok_def conn_core_def evolves_def intro: ep_synced_matches)
qed

text \<open>A send of three bytes of which the kernel takes one.\<close>

lemma sample_send:
  "\<exists>s. send sim_sys no_callbacks (\<lambda>t. Inr) 0 (sample_conn kConnected [] (sim_init\<lparr>sim_writes := [Done 1]\<rparr>)) = Inr s \<and>
     isWriting (tc_channel (st_conn s))"
  apply (simp add: send_def sample_conn_def sample_loop_def isInLoopThread_def sendInLoop_def send_direct_def
      isWriting_bit sample_events_def write_bit Let_def readableBytes_def buffer_with_def sim_write_def
      Channel_init_def sim_init_def vector_size_def no_callbacks_def)
  apply (simp add: send_buffered_def readableBytes_def data_slice_def no_callbacks_def)
  apply (simp add: Let_def append_buf_def ensureWritableBytes_def writableBytes_def buffer_with_def
      vector_size_def copy_in_def isWriting_bit write_bit)
  apply (simp add: on_channel_def enableWriting_def updateChannel_def poller_updateChannel_def
      poller_update_def self_ptr_def index_defs isNoneEvent_def event_defs bit_numeral_rec)
  done

theorem connection_invariant_witness:
  "\<exists>s. conn_run sim_sys no_callbacks (\<lambda>t. Inr) (sample_conn kConnected [] (sim_init\<lparr>sim_writes := [Done 1]\<rparr>)) 0 False s \<and>
     live (st_conn s) \<and> readable (tc_outputBuffer (st_conn s)) \<noteq> []"
proof -
  let ?s = "sample_conn kConnected [] (sim_init\<lparr>sim_writes := [Done 1]\<rparr>)"
  have ok: "conn_ok sim_view ?s" by (rule sample_conn_ok) (simp_all add: sim_init_def)
  obtain s where s: "send sim_sys no_callbacks (\<lambda>t. Inr) 0 ?s = Inr s" "isWriting (tc_channel (st_conn s))"
    using sample_send by blast
  have run: "conn_run sim_sys no_callbacks (\<lambda>t. Inr) ?s 0 False s"
    by (rule run_send [OF run_start, where p = 0 and d = "[1, 2, 3]"])
      (use s in \<open>simp_all add: sample_conn_def memory_block_def vector_max_def isInLoopThread_def sample_loop_def\<close>)
  from connection_invariant [OF sim_kernel_doc good_no_callbacks ok run] s run show ?thesis by blast
qed

text \<open>C13: \<open>sendInLoop\<close>. On a connection that is up, all the bytes enter the stream, behind what was
  there, however much of them the direct write takes; only when the connection is down, or the
  direct write fails with \<open>EPIPE\<close> or \<open>ECONNRESET\<close>, none do. The write-complete callback is queued
  exactly when one write took everything, the high-water-mark callback exactly when buffering the
  rest takes the output from below the mark to it or past it, with the new size.\<close>

theorem sendInLoop_stream:
  assumes "kernel_doc S V" and "conn_ok V s" and "memory_block data" and "tc_state (st_conn s) \<noteq> kConnecting"
  shows "holdsE conn_error (\<lambda>s'. conn_ok V s' \<and>
      out_stream V s' = out_stream V s @ (if send_rejected S data s then [] else data) \<and>
      el_pendingFunctors (st_loop s') = el_pendingFunctors (st_loop s) @ send_posts S cbs data s)
    (sendInLoop S cbs data s)"
  by (rule holdsE_mono [OF sendInLoop_ok [OF assms]]) (simp_all add: pend_def)

theorem sendInLoop_stream_witness:
  "\<exists>s'. sendInLoop sim_sys no_callbacks [1, 2, 3]
       (sample_conn kConnected [] (sim_init\<lparr>sim_writes := [Done 1]\<rparr>)) = Inr s' \<and>
     out_stream sim_view s' = [1, 2, 3]"
proof -
  let ?s = "sample_conn kConnected [] (sim_init\<lparr>sim_writes := [Done 1]\<rparr>)"
  have ok: "conn_ok sim_view ?s" by (rule sample_conn_ok) (simp_all add: sim_init_def)
  obtain s' where "send sim_sys no_callbacks (\<lambda>t. Inr) 0 ?s = Inr s'" using sample_send by blast
  then have r: "sendInLoop sim_sys no_callbacks [1, 2, 3] ?s = Inr s'"
    by (simp add: send_def sample_conn_def isInLoopThread_def sample_loop_def)
  have "out_stream sim_view ?s = []" "\<not> send_rejected sim_sys [1, 2, 3] ?s"
    using buffer_with_ok [of "[]"]
    by (simp_all add: out_stream_def sample_conn_def sim_init_def send_rejected_def write_result_def
        sim_write_def fatal_write_def)
  with holdsED [OF sendInLoop_stream [OF sim_kernel_doc ok] r] r show ?thesis
    by (simp add: memory_block_def vector_max_def sample_conn_def)
qed

lemma handleRead_cases:
  assumes "kernel_doc S V" and "conn_ok V s"
    and "sys_readv S (ch_fd (tc_channel (st_conn s))) (readFd_iov (tc_inputBuffer (st_conn s))) (st_kern s) = (r, k)"
  shows "conn_handleRead S cbs t s = Inl LengthError \<or>
    (\<exists>b. buffer_ok b \<and>
       (case r of
          Done d \<Rightarrow> readable b = readable (tc_inputBuffer (st_conn s)) @ d \<and>
            conn_handleRead S cbs t s =
              (if d \<noteq> [] then call_read (cb_message cbs) t else handleClose S cbs)
                (upd_conn (\<lambda>c. c\<lparr>tc_inputBuffer := b\<rparr>) (s\<lparr>st_kern := k\<rparr>))
        | Fail e \<Rightarrow> conn_handleRead S cbs t s = handleError S (s\<lparr>st_kern := k\<rparr>)))"
proof -
  let ?f = "ch_fd (tc_channel (st_conn s))" and ?b = "tc_inputBuffer (st_conn s)"
  have bok: "buffer_ok ?b" using assms(2) by (simp add: conn_ok_def conn_core_def)
  have same: "upd_conn (\<lambda>c. c\<lparr>tc_inputBuffer := ?b\<rparr>) (s\<lparr>st_kern := k\<rparr>) = s\<lparr>st_kern := k\<rparr>"
    by (simp add: upd_conn_def)
  show ?thesis
  proof (cases "readFd S ?f ?b (st_kern s)")
    case (Inl e)
    then show ?thesis
      using readFd_ok [OF bok kernel_docD(1) [OF assms(1)] assms(3)] by (simp add: conn_handleRead_def)
  next
    case (Inr x)
    obtain n b k' where x: "x = (n, b, k')" by (metis prod_cases3)
    have "buffer_ok b" "k' = k" "case r of Done d \<Rightarrow> n = Done (length d) \<and> readable b = readable ?b @ d
        | Fail e \<Rightarrow> n = Fail e \<and> b = ?b"
      using holdsED [OF readFd_ok [OF bok kernel_docD(1) [OF assms(1)] assms(3)] Inr] by (auto simp: x)
    then show ?thesis
      using Inr by (cases r) (auto simp: conn_handleRead_def x Let_def same intro!: exI [of _ b])
  qed
qed

text \<open>C20: \<open>handleRead\<close> on every branch. The bytes the kernel delivers go behind the unread input
  and the message callback runs once on the result; an end of file closes the connection; an error
  only looks up \<open>SO_ERROR\<close>. The one other outcome is the vector's length error.\<close>

theorem handleRead_delivers:
  assumes "kernel_doc S V" and "conn_ok V s"
    and "sys_readv S (ch_fd (tc_channel (st_conn s))) (readFd_iov (tc_inputBuffer (st_conn s))) (st_kern s) = (r, k)"
  shows "conn_handleRead S cbs t s = Inl LengthError \<or>
    (\<exists>b. buffer_ok b \<and>
       (case r of
          Done d \<Rightarrow> readable b = readable (tc_inputBuffer (st_conn s)) @ d \<and>
            conn_handleRead S cbs t s =
              (if d \<noteq> [] then call_read (cb_message cbs) t else handleClose S cbs)
                (upd_conn (\<lambda>c. c\<lparr>tc_inputBuffer := b\<rparr>) (s\<lparr>st_kern := k\<rparr>))
        | Fail e \<Rightarrow> conn_handleRead S cbs t s = handleError S (s\<lparr>st_kern := k\<rparr>)))"
  using assms by (rule handleRead_cases)

theorem handleRead_delivers_witness:
  "\<exists>b. readable b = [5, 6] \<and>
     conn_handleRead sim_sys no_callbacks Timestamp_default
       (sample_conn kConnected [] (sim_init\<lparr>sim_reads := [Done [5, 6]]\<rparr>)) =
     Inr (upd_conn (\<lambda>c. c\<lparr>tc_inputBuffer := b\<rparr>) (sample_conn kConnected [] (sim_init\<lparr>sim_got := (\<lambda>_. [])(7 := [5, 6])\<rparr>)))"
proof -
  let ?s = "sample_conn kConnected [] (sim_init\<lparr>sim_reads := [Done [5, 6]]\<rparr>)"
  have ok: "conn_ok sim_view ?s" by (rule sample_conn_ok) (simp_all add: sim_init_def)
  let ?k = "st_kern (sample_conn kConnected [] (sim_init\<lparr>sim_got := (\<lambda>_. [])(7 := [5, 6])\<rparr>))"
  have w: "sys_readv sim_sys (ch_fd (tc_channel (st_conn ?s))) (readFd_iov (tc_inputBuffer (st_conn ?s)))
      (st_kern ?s) = (Done [5, 6], ?k)"
    by (simp add: sample_conn_def sim_readv_def sim_init_def readFd_iov_def extrabuf_size_def Channel_init_def)
  have st: "?s\<lparr>st_kern := ?k\<rparr> = sample_conn kConnected [] (sim_init\<lparr>sim_got := (\<lambda>_. [])(7 := [5, 6])\<rparr>)"
    by (simp add: sample_conn_def)
  have i: "readable (tc_inputBuffer (st_conn ?s)) = []"
    using buffer_with_ok [of "[]"] by (simp add: sample_conn_def)
  have fits: "conn_handleRead sim_sys no_callbacks Timestamp_default ?s \<noteq> Inl LengthError"
    by (simp add: conn_handleRead_def readFd_def sample_conn_def sim_readv_def sim_init_def readFd_iov_def
        extrabuf_size_def buffer_with_def writableBytes_def vector_size_def copy_in_def Let_def
        no_callbacks_def)
  from handleRead_delivers [OF sim_kernel_doc ok w, of no_callbacks Timestamp_default] fits
  show ?thesis by (auto simp: st i no_callbacks_def)
qed

section \<open>Shutting down\<close>

definition accepts :: "'k sys \<Rightarrow> 'k view \<Rightarrow> fd \<Rightarrow> bool" where
  "accepts S V f \<longleftrightarrow> (\<forall>k d. \<not> v_fin V k f \<longrightarrow> d \<noteq> [] \<longrightarrow> (\<exists>n>0. fst (sys_write S f d k) = Done n))"

lemma flush_rounds:
  assumes S: "kernel_doc S V" and w: "accepts S V f" "shutdown_works S f"
  shows "conn_ok V s \<Longrightarrow> tc_sockfd (st_conn s) = f \<Longrightarrow> tc_state (st_conn s) = kDisconnecting \<Longrightarrow>
    (readable (tc_outputBuffer (st_conn s)) = [] \<Longrightarrow> fin_sent V s) \<Longrightarrow>
    length (readable (tc_outputBuffer (st_conn s))) \<le> n \<Longrightarrow>
    holdsE conn_error (\<lambda>s'. v_fin V (st_kern s') f \<and> v_sent V (st_kern s') f = out_stream V s)
      (rounds (handleWrite S cbs) n s)"
proof (induction n arbitrary: s)
  case 0
  then show ?case by (simp add: out_stream_def fin_sent_def)
next
  case (Suc n)
  show ?case
  proof (cases "readable (tc_outputBuffer (st_conn s)) = []")
    case True
    then have "handleWrite S cbs s = Inr s"
      using Suc.prems(1) by (simp add: conn_ok_def handleWrite_def)
    with Suc.IH [OF Suc.prems(1-4)] True show ?thesis by simp
  next
    case False
    have wr: "isWriting (tc_channel (st_conn s))" and nofin: "\<not> fin_sent V s"
      using Suc.prems(1,3) False by (auto simp: conn_ok_def live_def)
    obtain m where m: "0 < m" "write_result S (readable (tc_outputBuffer (st_conn s))) s = Done m"
      using w(1) nofin False Suc.prems(2) unfolding accepts_def write_result_def fin_sent_def by blast
    have "holdsE conn_error (\<lambda>s'. v_fin V (st_kern s') f \<and> v_sent V (st_kern s') f = out_stream V s)
        (bindE (handleWrite S cbs s) (rounds (handleWrite S cbs) n))"
    proof (rule holdsE_bind [OF handleWrite_ok [OF S Suc.prems(1), of cbs]])
      fix s1
      assume s1: "conn_ok V s1 \<and> evolves V s s1 \<and> out_stream V s1 = out_stream V s \<and> write_effect S V s s1"
      then have "readable (tc_outputBuffer (st_conn s1)) = drop m (readable (tc_outputBuffer (st_conn s)))"
        using wr m by (simp add: write_effect_def write_count_def)
      then have "length (readable (tc_outputBuffer (st_conn s1))) \<le> n" using m Suc.prems(5) by simp
      moreover have "fin_sent V s1" if "readable (tc_outputBuffer (st_conn s1)) = []"
        using s1 that wr False Suc.prems(2,3) w(2) by (auto simp: write_effect_def)
      moreover have "tc_sockfd (st_conn s1) = f" "tc_state (st_conn s1) = kDisconnecting"
        using s1 Suc.prems(2,3) by (auto simp: evolves_def write_effect_def)
      ultimately show "holdsE conn_error (\<lambda>s'. v_fin V (st_kern s') f \<and> v_sent V (st_kern s') f = out_stream V s)
          (rounds (handleWrite S cbs) n s1)"
        using Suc.IH [of s1] s1 by simp
    qed
    then show ?thesis by simp
  qed
qed

text \<open>C18: \<open>shutdown\<close> with output waiting loses nothing. The write end stays open, and as long as the
  kernel takes at least one byte at each write event, after as many write events as there were
  bytes waiting the kernel has been given the whole stream and then, not before, the write end is
  shut. (The one other outcome is a fatal error of \<open>epoll_ctl\<close>.)\<close>

theorem shutdown_flushes:
  assumes "kernel_doc S V" and "conn_ok V s" and "accepts S V (tc_sockfd (st_conn s))"
    and "shutdown_works S (tc_sockfd (st_conn s))"
    and "tc_state (st_conn s) = kConnected" and "readable (tc_outputBuffer (st_conn s)) \<noteq> []" and "isInLoopThread s"
  shows "\<exists>s1. shutdown S cbs other s = Inr s1 \<and> \<not> v_fin V (st_kern s1) (tc_sockfd (st_conn s)) \<and> tc_state (st_conn s1) = kDisconnecting \<and>
    holdsE conn_error (\<lambda>s'. v_fin V (st_kern s') (tc_sockfd (st_conn s)) \<and>
        v_sent V (st_kern s') (tc_sockfd (st_conn s)) = out_stream V s)
      (rounds (handleWrite S cbs) (length (readable (tc_outputBuffer (st_conn s)))) s1)"
proof -
  let ?s = "setState kDisconnecting s"
  have wr: "isWriting (tc_channel (st_conn s))" and nofin: "\<not> fin_sent V s"
    using assms(2,5,6) by (auto simp: conn_ok_def live_def)
  have sh: "shutdown S cbs other s = Inr ?s"
    using assms(5,7) wr by (simp add: shutdown_def shutdown_go_def runInLoop_def shutdownInLoop_def setState_def)
  have ok: "conn_ok V ?s" using shutdown_ok [OF assms(1,2) sh] by simp
  have str: "out_stream V ?s = out_stream V s" by (simp add: setState_def out_stream_def)
  have "holdsE conn_error (\<lambda>s'. v_fin V (st_kern s') (tc_sockfd (st_conn s)) \<and>
        v_sent V (st_kern s') (tc_sockfd (st_conn s)) = out_stream V ?s)
      (rounds (handleWrite S cbs) (length (readable (tc_outputBuffer (st_conn s)))) ?s)"
    by (rule flush_rounds [OF assms(1,3,4) ok]) (use assms(6) in \<open>simp_all add: setState_def\<close>)
  with sh nofin show ?thesis by (simp add: str) (simp add: setState_def fin_sent_def)
qed

theorem shutdown_flushes_witness:
  "\<exists>s1. shutdown greedy_sys no_callbacks (\<lambda>t. Inr) (sample_conn kConnected [1, 2, 3] sim_init) = Inr s1 \<and>
     \<not> sim_fin (st_kern s1) 7 \<and>
     holdsE conn_error (\<lambda>s'. sim_fin (st_kern s') 7 \<and> sim_sent (st_kern s') 7 = [1, 2, 3])
       (rounds (handleWrite greedy_sys no_callbacks) 3 s1)"
proof -
  let ?s = "sample_conn kConnected [1, 2, 3] sim_init"
  have ok: "conn_ok sim_view ?s" by (rule sample_conn_ok) (simp_all add: sim_init_def)
  have r: "readable (tc_outputBuffer (st_conn ?s)) = [1, 2, 3]"
    using buffer_with_ok [of "[1, 2, 3]"] by (simp add: sample_conn_def)
  have f: "tc_sockfd (st_conn ?s) = 7" by (simp add: sample_conn_def)
  have a: "accepts greedy_sys sim_view 7" "shutdown_works greedy_sys 7"
    by (simp_all add: accepts_def shutdown_works_def greedy_sys_def sim_write_def)
  have o: "out_stream sim_view ?s = [1, 2, 3]" using r by (simp add: out_stream_def) (simp add: sample_conn_def sim_init_def)
  have "tc_state (st_conn ?s) = kConnected" "isInLoopThread ?s"
    by (simp_all add: sample_conn_def isInLoopThread_def sample_loop_def)
  from shutdown_flushes [OF greedy_kernel_doc ok a [folded f] this(1) _ this(2),
      of no_callbacks "\<lambda>t. Inr", unfolded o r f]
  show ?thesis by (auto simp: numeral_3_eq_3)
qed

text \<open>C34: \<open>shutdown\<close> from another thread races with the close of the connection. A thread has tested
  \<open>state_\<close> while the connection was up; the loop then closes it with output waiting; the thread's
  store takes the state back from \<open>kDisconnected\<close> to \<open>kDisconnecting\<close>, and the task it queues, when the loop runs it, shuts
  the write end although output waits, and will wait for ever, since write interest is off. Nothing
  of what \<open>connection_invariant\<close> says of the state and the write end holds any more.\<close>

theorem shutdown_races_with_close:
  assumes "kernel_doc S V" and "good_callbacks V cbs" and "conn_ok V s0" and "conn_run S cbs other s0 (Suc n) False s"
    and "tc_state (st_conn s) = kDisconnected" and "readable (tc_outputBuffer (st_conn s)) \<noteq> []"
    and "\<not> isInLoopThread s" and "shutdown_works S (tc_sockfd (st_conn s))"
  shows "\<exists>s1 s2. shutdown_go S cbs other s = Inr s1 \<and> conn_run S cbs other s0 n True s1 \<and>
    tc_state (st_conn s1) = kDisconnecting \<and>
    el_pendingFunctors (st_loop s1) = el_pendingFunctors (st_loop s) @ [ShutdownInLoop (tc_id (st_conn s))] \<and>
    run_task S cbs other (ShutdownInLoop (tc_id (st_conn s))) (s1\<lparr>st_tid := el_threadId (st_loop s1)\<rparr>) = Inr s2 \<and>
    conn_run S cbs other s0 n True s2 \<and> fin_sent V s2 \<and> tc_state (st_conn s2) = kDisconnecting \<and>
    readable (tc_outputBuffer (st_conn s2)) = readable (tc_outputBuffer (st_conn s)) \<and> \<not> isWriting (tc_channel (st_conn s2))"
proof -
  have ok: "conn_ok V s" using conn_run_ok [OF assms(1-4)] by simp
  let ?s1 = "queueInLoop S (ShutdownInLoop (tc_id (st_conn s))) (setState kDisconnecting s)"
  have go: "shutdown_go S cbs other s = Inr ?s1"
    using assms(7) by (simp add: shutdown_go_def runInLoop_def setState_def)
  have r1: "conn_run S cbs other s0 n True ?s1" using run_shutdown_store [OF assms(4,7) go] assms(5) by simp
  let ?t = "?s1\<lparr>st_tid := el_threadId (st_loop ?s1)\<rparr>"
  have "?s1\<lparr>st_tid := el_threadId (st_loop ?s1), st_mem := st_mem ?s1\<rparr> = ?t" by simp
  then have rt: "conn_run S cbs other s0 n True ?t" using run_thread [OF r1] by metis
  have nw: "\<not> isWriting (tc_channel (st_conn s))" using ok assms(5) by (auto simp: conn_ok_def live_def)
  have c: "st_conn ?t = st_conn s\<lparr>tc_state := kDisconnecting\<rparr>" by (simp add: setState_def)
  let ?s2 = "?t\<lparr>st_kern := shutdownWrite S (tc_sockfd (st_conn s)) (st_kern ?t)\<rparr>"
  have t: "run_task S cbs other (ShutdownInLoop (tc_id (st_conn s))) ?t = Inr ?s2"
    using nw by (simp add: shutdownInLoop_def setState_def)
  have r2: "conn_run S cbs other s0 n True ?s2" by (rule run_queued [OF rt _ t]) (simp add: setState_def)
  have "fin_sent V ?s2"
  proof -
    obtain r k where w: "sys_shutdown_wr S (tc_sockfd (st_conn s)) (st_kern ?t) = (r, k)" by fastforce
    moreover have "r = Done ()" using assms(8) w by (auto simp: shutdown_works_def dest: spec [where x = "st_kern ?t"])
    ultimately have "v_fin V k (tc_sockfd (st_conn s))"
      using kernel_docD(3) [OF assms(1), unfolded shutdown_doc_def, rule_format, OF w] by simp
    then show ?thesis using w by (simp add: fin_sent_def shutdownWrite_def setState_def)
  qed
  then show ?thesis
    using go r1 t r2 nw c by (intro exI [of _ ?s1] exI [of _ ?s2]) (simp add: setState_def)
qed

text \<open>A hang-up of a connection with three bytes waiting.\<close>

lemma sample_hangup:
  "\<exists>s. conn_handleEvent sim_sys no_callbacks (\<lambda>_ _. True) Timestamp_default
      (upd_conn (\<lambda>c. c\<lparr>tc_channel := set_revents EPOLLHUP (tc_channel c)\<rparr>) (sample_conn kConnected [1, 2, 3] sim_init)) = Inr s \<and>
    tc_state (st_conn s) = kDisconnected \<and> tc_outputBuffer (st_conn s) = buffer_with [1, 2, 3] \<and>
    tc_id (st_conn s) = 1 \<and> tc_sockfd (st_conn s) = 7 \<and> el_threadId (st_loop s) = 100"
proof -
  have b: "EPOLLHUP \<noteq> 0" "EPOLLHUP AND EPOLLIN = 0" "EPOLLHUP AND EPOLLERR = 0"
      "EPOLLHUP AND (EPOLLIN OR EPOLLPRI) = 0" "EPOLLHUP AND EPOLLOUT = 0"
    by (simp_all add: event_defs)
  let ?s = "setState kDisconnected (upd_conn (\<lambda>c. c\<lparr>tc_channel := set_revents EPOLLHUP (tc_channel c)\<rparr>) (sample_conn kConnected [1, 2, 3] sim_init))"
  obtain s where s: "on_channel (disableAll sim_sys) ?s = Inr s" "tc_state (st_conn s) = kDisconnected"
      "tc_outputBuffer (st_conn s) = buffer_with [1, 2, 3]" "ch_revents (tc_channel (st_conn s)) = EPOLLHUP"
      "tc_id (st_conn s) = 1" "tc_sockfd (st_conn s) = 7" "el_threadId (st_loop s) = 100"
    by (simp add: on_channel_def disableAll_def updateChannel_def poller_updateChannel_def poller_update_def self_ptr_def index_defs
        isNoneEvent_def event_defs sample_conn_def setState_def upd_conn_def set_revents_def Channel_init_def set_index_def sample_loop_def)
  have "handleClose sim_sys no_callbacks (upd_conn (\<lambda>c. c\<lparr>tc_channel := set_revents EPOLLHUP (tc_channel c)\<rparr>) (sample_conn kConnected [1, 2, 3] sim_init)) = Inr s"
    using s(1) by (simp add: handleClose_def no_callbacks_def)
  moreover have "ch_revents (tc_channel (st_conn (upd_conn (\<lambda>c. c\<lparr>tc_channel := set_revents EPOLLHUP (tc_channel c)\<rparr>) (sample_conn kConnected [1, 2, 3] sim_init)))) = EPOLLHUP"
      "\<not> ch_tied (tc_channel (st_conn (upd_conn (\<lambda>c. c\<lparr>tc_channel := set_revents EPOLLHUP (tc_channel c)\<rparr>) (sample_conn kConnected [1, 2, 3] sim_init))))"
    by (simp_all add: upd_conn_def set_revents_def sample_conn_def Channel_init_def)
  ultimately have "conn_handleEvent sim_sys no_callbacks (\<lambda>_ _. True) Timestamp_default
      (upd_conn (\<lambda>c. c\<lparr>tc_channel := set_revents EPOLLHUP (tc_channel c)\<rparr>) (sample_conn kConnected [1, 2, 3] sim_init)) = Inr s"
    by (simp add: conn_handleEvent_def handleEvent_def handleEventWithGuard_def conn_callbacks_def b s(4) del: upd_conn_simps)
  then show ?thesis using s by blast
qed

theorem shutdown_races_with_close_witness:
  "\<exists>s s1 s2. conn_run sim_sys no_callbacks (\<lambda>t. Inr) (sample_conn kConnected [1, 2, 3] sim_init) 1 False s \<and>
     shutdown_go sim_sys no_callbacks (\<lambda>t. Inr) s = Inr s1 \<and>
     run_task sim_sys no_callbacks (\<lambda>t. Inr) (ShutdownInLoop 1) (s1\<lparr>st_tid := 100\<rparr>) = Inr s2 \<and>
     sim_fin (st_kern s2) 7 \<and> readable (tc_outputBuffer (st_conn s2)) = [1, 2, 3]"
proof -
  let ?u = "sample_conn kConnected [1, 2, 3] sim_init"
  let ?a = "?u\<lparr>st_tid := 200, st_mem := st_mem ?u\<rparr>"
  have ok: "conn_ok sim_view ?u" by (rule sample_conn_ok) (simp_all add: sim_init_def)
  have "conn_run sim_sys no_callbacks (\<lambda>t. Inr) ?u 1 False ?a"
    by (simp only: One_nat_def) (rule run_shutdown_test [OF run_thread [OF run_start]],
      simp_all add: sample_conn_def isInLoopThread_def sample_loop_def)
  moreover have "?a\<lparr>st_tid := 100, st_mem := st_mem ?a\<rparr> = ?u" by (simp add: sample_conn_def)
  ultimately have again: "conn_run sim_sys no_callbacks (\<lambda>t. Inr) ?u 1 False ?u" using run_thread by metis
  obtain s where s: "conn_handleEvent sim_sys no_callbacks (\<lambda>_ _. True) Timestamp_default
        (upd_conn (\<lambda>c. c\<lparr>tc_channel := set_revents EPOLLHUP (tc_channel c)\<rparr>) ?u) = Inr s"
      "tc_state (st_conn s) = kDisconnected" "tc_outputBuffer (st_conn s) = buffer_with [1, 2, 3]"
      "tc_id (st_conn s) = 1" "tc_sockfd (st_conn s) = 7" "el_threadId (st_loop s) = 100"
    using sample_hangup by blast
  let ?v = "s\<lparr>st_tid := 200, st_mem := st_mem s\<rparr>"
  have run: "conn_run sim_sys no_callbacks (\<lambda>t. Inr) ?u (Suc 0) False ?v"
    using run_thread [OF run_event [OF again s(1)], of "st_mem s" 200] by simp
  have r: "readable (tc_outputBuffer (st_conn ?v)) = [1, 2, 3]" using buffer_with_ok [of "[1, 2, 3]"] s(3) by simp
  have w: "shutdown_works sim_sys (tc_sockfd (st_conn ?v))" by (simp add: shutdown_works_def)
  have d: "tc_state (st_conn ?v) = kDisconnected" "\<not> isInLoopThread ?v" using s by (simp_all add: isInLoopThread_def)
  obtain s1 s2 where g: "shutdown_go sim_sys no_callbacks (\<lambda>t. Inr) ?v = Inr s1"
      "run_task sim_sys no_callbacks (\<lambda>t. Inr) (ShutdownInLoop 1) (s1\<lparr>st_tid := el_threadId (st_loop s1)\<rparr>) = Inr s2"
      "fin_sent sim_view s2" "readable (tc_outputBuffer (st_conn s2)) = [1, 2, 3]"
    using shutdown_races_with_close [OF sim_kernel_doc good_no_callbacks ok run d(1) _ d(2) w] r s(4) by auto
  have "st_loop s1 = (st_loop s)\<lparr>el_pendingFunctors := el_pendingFunctors (st_loop s1)\<rparr>" "tc_sockfd (st_conn s1) = 7"
    using g(1) d(2) s(5) by (auto simp: shutdown_go_def runInLoop_def setState_def queueInLoop_def push_functor_def wakeup_def isInLoopThread_def Let_def)
  then have "el_threadId (st_loop s1) = 100" "tc_sockfd (st_conn s2) = 7"
    using s(6) g(2) by (metis eventloop.select_convs(3) eventloop.surjective eventloop.update_convs(10), auto simp: shutdownInLoop_def split: if_splits)
  then show ?thesis using run g by (intro exI [of _ ?v] exI [of _ s1] exI [of _ s2]) (simp add: fin_sent_def)
qed

text \<open>C22: \<open>send\<close> from another thread hands over an address, not the bytes. It queues one task with
  the address and length of the caller's string. If the string is gone when the loop runs the
  task, the task reads freed memory; if its bytes have been overwritten, the new bytes are sent; only
  if the string is still there unchanged is the task \<open>sendInLoop\<close> of the argument.\<close>

theorem send_other_thread:
  assumes "tc_state (st_conn s) = kConnected" and "\<not> isInLoopThread s" and "st_mem s p = Some d"
  shows "\<exists>s1. send S cbs other p s = Inr s1 \<and> st_conn s1 = st_conn s \<and>
    el_pendingFunctors (st_loop s1) = el_pendingFunctors (st_loop s) @ [SendInLoop (tc_id (st_conn s)) p (length d)] \<and>
    (\<forall>s2. run_task S cbs other (SendInLoop (tc_id (st_conn s)) p (length d)) s2 =
      (case st_mem s2 p of None \<Rightarrow> Inl UseAfterFree
       | Some d' \<Rightarrow> if length d \<le> length d' then sendInLoop S cbs (take (length d) d') s2 else Inl OutOfBounds))"
  using assms by (auto simp: send_def runInLoop_def read_string_def split: option.splits)

theorem send_other_thread_witness:
  "\<exists>s1. send sim_sys no_callbacks (\<lambda>t. Inr) 0 (sample_conn kConnected [] sim_init\<lparr>st_tid := 200\<rparr>) = Inr s1 \<and>
     run_task sim_sys no_callbacks (\<lambda>t. Inr) (hd (el_pendingFunctors (st_loop s1)))
       (s1\<lparr>st_tid := 100, st_mem := (st_mem s1)(0 := None)\<rparr>) = Inl UseAfterFree"
proof -
  let ?s = "sample_conn kConnected [] sim_init\<lparr>st_tid := 200\<rparr>"
  have "tc_state (st_conn ?s) = kConnected" "\<not> isInLoopThread ?s" "st_mem ?s 0 = Some [1, 2, 3]"
    and none: "el_pendingFunctors (st_loop ?s) = []"
    by (simp_all add: sample_conn_def isInLoopThread_def sample_loop_def)
  from send_other_thread [OF this(1-3), of sim_sys no_callbacks "\<lambda>t. Inr"] obtain s1 where
    s1: "send sim_sys no_callbacks (\<lambda>t. Inr) 0 ?s = Inr s1"
      "el_pendingFunctors (st_loop s1) = [SendInLoop (tc_id (st_conn ?s)) 0 (length [1, 2, 3 :: byte])]"
    and later: "\<And>s2 :: sim conn_st. run_task sim_sys no_callbacks (\<lambda>t. Inr)
        (SendInLoop (tc_id (st_conn ?s)) 0 (length [1, 2, 3 :: byte])) s2 =
      (case st_mem s2 0 of None \<Rightarrow> Inl UseAfterFree | Some d' \<Rightarrow> if length [1, 2, 3 :: byte] \<le> length d'
        then sendInLoop sim_sys no_callbacks (take (length [1, 2, 3 :: byte]) d') s2 else Inl OutOfBounds)"
    unfolding none append_Nil by blast
  show ?thesis
    using s1 later [of "s1\<lparr>st_tid := 100, st_mem := (st_mem s1)(0 := None)\<rparr>"] by auto
qed

section \<open>Sending files\<close>

text \<open>No progress is possible: the connection is not half closed, and either output is waiting that
  will not go, or the file has no bytes at the offset.\<close>

definition stuck_file :: "'k sys \<Rightarrow> fd \<Rightarrow> int \<Rightarrow> size_t \<Rightarrow> ('k, 'z) conn_st_scheme \<Rightarrow> bool" where
  "stuck_file S g off n s \<longleftrightarrow> tc_state (st_conn s) \<noteq> kDisconnecting \<and> n \<noteq> 0 \<and>
     (tries_write s \<longrightarrow> (\<forall>k. \<exists>k'. sys_sendfile S (tc_sockfd (st_conn s)) g off (unat n) k = (Done 0, off, k')))"

lemma stuck_requeues:
  assumes "stuck_file S g off n s"
  shows "\<exists>k. sendFileInLoop S cbs g off n s =
    queueInLoop S (SendFileInLoop (tc_id (st_conn s)) g off n) (s\<lparr>st_kern := k\<rparr>)"
proof (cases "tries_write s")
  case True
  then obtain k where "sys_sendfile S (tc_sockfd (st_conn s)) g off (unat n) (st_kern s) = (Done 0, off, k)"
    using assms by (auto simp: stuck_file_def)
  with True assms show ?thesis
    by (intro exI [of _ k]) (simp add: sendFileInLoop_def stuck_file_def tries_write_def Let_def word_gt_0)
next
  case False
  with assms show ?thesis
    by (intro exI [of _ "st_kern s"]) (auto simp: sendFileInLoop_def stuck_file_def tries_write_def Let_def word_gt_0)
qed

lemma stuck_conn: "st_conn s' = st_conn s \<Longrightarrow> stuck_file S g off n s' = stuck_file S g off n s"
  by (simp add: stuck_file_def tries_write_def)

text \<open>C35: \<open>sendFileInLoop\<close> can keep the loop busy for ever. On a connection that went down with output
  still waiting (its state is \<open>kDisconnected\<close>, and the function tests for \<open>kDisconnecting\<close>), or with a
  count that reaches past the end of the file, the task queues itself again without progress:
  after any number of rounds the same task is in the queue.\<close>

theorem sendFile_never_ends:
  assumes "stuck_file S g off n s" and "el_pendingFunctors (st_loop s) = [SendFileInLoop (tc_id (st_conn s)) g off n]"
  shows "\<exists>s'. rounds (doPendingFunctors (run_task S cbs other)) m s = Inr s' \<and> st_conn s' = st_conn s \<and>
    el_pendingFunctors (st_loop s') = [SendFileInLoop (tc_id (st_conn s)) g off n]"
  using assms
proof (induction m arbitrary: s)
  case (Suc m)
  let ?s = "swap_begin s"
  have c: "st_conn ?s = st_conn s" by (simp add: swap_begin_def)
  obtain k where k: "sendFileInLoop S cbs g off n ?s =
      queueInLoop S (SendFileInLoop (tc_id (st_conn ?s)) g off n) (?s\<lparr>st_kern := k\<rparr>)"
    using stuck_requeues [of S g off n ?s cbs] Suc.prems(1) stuck_conn [OF c] by blast
  let ?s1 = "drain_end (sendFileInLoop S cbs g off n ?s)"
  have one: "doPendingFunctors (run_task S cbs other) s = Inr ?s1"
    by (simp add: doPendingFunctors_eq Suc.prems(2))
  have c1: "st_conn ?s1 = st_conn s" by (simp add: k drain_end_def c)
  have p1: "el_pendingFunctors (st_loop ?s1) = [SendFileInLoop (tc_id (st_conn s)) g off n]"
    by (simp add: k drain_end_def) (simp add: swap_begin_def)
  from Suc.IH [of ?s1] Suc.prems(1) stuck_conn [OF c1] c1 p1 one show ?case by simp
qed simp

text \<open>The connection went down with three bytes waiting and a file task in the queue.\<close>

definition down_conn :: "sim conn_st" where
  "down_conn = push_functor (SendFileInLoop 1 9 0 10) (upd_conn (\<lambda>c. c\<lparr>tc_state := kDisconnected,
     tc_channel := (Channel_init 7)\<lparr>ch_index := kDeleted\<rparr>\<rparr>) (sample_conn kConnected [1, 2, 3] sim_init))"

theorem sendFile_never_ends_witness:
  "\<exists>s'. rounds (doPendingFunctors (run_task sim_sys no_callbacks (\<lambda>t. Inr))) 5 down_conn = Inr s' \<and>
     el_pendingFunctors (st_loop s') = [SendFileInLoop 1 9 0 10]"
proof -
  have c: "tc_state (st_conn down_conn) = kDisconnected" "tc_id (st_conn down_conn) = 1"
      "tc_outputBuffer (st_conn down_conn) = buffer_with [1, 2, 3]"
    by (simp_all add: down_conn_def) (simp_all add: sample_conn_def)
  have b: "readableBytes (buffer_with [1, 2, 3]) \<noteq> 0"
    using buffer_with_ok [of "[1, 2, 3]"] readableBytes_0_iff by auto
  have stuck: "stuck_file sim_sys 9 0 10 down_conn"
    using b by (simp add: stuck_file_def c tries_write_def)
  have p: "el_pendingFunctors (st_loop down_conn) = [SendFileInLoop (tc_id (st_conn down_conn)) 9 0 10]"
    unfolding c by (simp add: down_conn_def) (simp add: sample_conn_def sample_loop_def)
  from sendFile_never_ends [OF stuck p, of no_callbacks "\<lambda>t. Inr" 5]
  show ?thesis by (auto simp: c)
qed

section \<open>Closing\<close>

text \<open>A state that counts the calls of the close callback.\<close>

record 'k counted_st = "'k conn_st" +
  st_closed :: nat

definition count_close :: "('k, 'z) counted_st_scheme callbacks" where
  "count_close = \<lparr>cb_connection = None, cb_message = None, cb_writeComplete = None,
     cb_highWaterMark = None, cb_close = Some (\<lambda>s. Inr (s\<lparr>st_closed := st_closed s + 1\<rparr>))\<rparr>"

lemma handleClose_counts:
  fixes s :: "('k, 'z) counted_st_scheme"
  assumes S: "kernel_doc S V" and ok: "conn_ok V s"
  shows "holdsE conn_error (\<lambda>s'. conn_ok V s' \<and> st_closed s' = st_closed s + 1 \<and>
      ch_revents (tc_channel (st_conn s')) = ch_revents (tc_channel (st_conn s)))
    (handleClose S count_close s)"
proof -
  let ?s = "setState kDisconnected s"
  have core: "conn_core V ?s" using ok by (simp add: conn_ok_def conn_core_def setState_def)
  have "holdsE conn_error (\<lambda>s'. conn_ok V s' \<and> st_closed s' = st_closed s \<and>
      ch_revents (tc_channel (st_conn s')) = ch_revents (tc_channel (st_conn s)))
    (on_channel (disableAll S) ?s)"
  proof (rule holdsE_mono [OF on_channel_ops(4) [OF kernel_docD(5) [OF S] core]])
    fix s' assume c: "chan_changed V kNoneEvent ?s s'"
    have "st_closed s' = st_closed s" using c
      by (auto simp: chan_changed_def upd_conn_def with_poller_def setState_def)
    then show "conn_ok V s' \<and> st_closed s' = st_closed s \<and>
        ch_revents (tc_channel (st_conn s')) = ch_revents (tc_channel (st_conn s))"
      using chan_changed_effect [OF c core] by (auto simp: conn_ok_def live_def setState_def)
  qed (simp add: conn_error_def)
  then show ?thesis
    unfolding handleClose_def
    by (rule holdsE_bind) (auto simp: count_close_def conn_ok_def conn_core_def out_stream_def fin_sent_def self_ptr_def)
qed

lemma conn_ok_read:
  assumes "kernel_doc S V" and "conn_ok V s" and "buffer_ok b"
    and w: "sys_readv S f lens (st_kern s) = (r, k)"
  shows "conn_ok V (upd_conn (\<lambda>c. c\<lparr>tc_inputBuffer := b\<rparr>) (s\<lparr>st_kern := k\<rparr>))"
proof -
  note d = kernel_docD(1) [OF assms(1), unfolded readv_doc_def, rule_format, OF w]
  have "keeps V s (Inr (s\<lparr>st_kern := k\<rparr>))" by (rule keeps_same_view) (use d assms(2) in auto)
  then show ?thesis
    using assms(3) by (simp add: keeps_Inr conn_ok_def conn_core_def fin_sent_def live_def)
qed

lemma handleRead_eof_counts:
  fixes s :: "('k, 'z) counted_st_scheme"
  assumes S: "kernel_doc S V" and ok: "conn_ok V s" and eof: "\<forall>f lens k. \<exists>k'. sys_readv S f lens k = (Done [], k')"
  shows "holdsE conn_error (\<lambda>s'. st_closed s' = st_closed s + 1 \<and>
      ch_revents (tc_channel (st_conn s')) = ch_revents (tc_channel (st_conn s)))
    (conn_handleRead S count_close t s)"
proof -
  let ?f = "ch_fd (tc_channel (st_conn s))" and ?lens = "readFd_iov (tc_inputBuffer (st_conn s))"
  obtain k where k: "sys_readv S ?f ?lens (st_kern s) = (Done [], k)" using eof by blast
  from handleRead_cases [OF S ok k, of count_close t] show ?thesis
  proof (elim disjE exE conjE)
    fix b assume b: "buffer_ok b"
    let ?s = "upd_conn (\<lambda>c. c\<lparr>tc_inputBuffer := b\<rparr>) (s\<lparr>st_kern := k\<rparr>)"
    assume "case Done [] of
        Done d \<Rightarrow> readable b = readable (tc_inputBuffer (st_conn s)) @ d \<and>
          conn_handleRead S count_close t s =
            (if d \<noteq> [] then call_read (cb_message count_close) t else handleClose S count_close) ?s
      | Fail e \<Rightarrow> conn_handleRead S count_close t s = handleError S (s\<lparr>st_kern := k\<rparr>)"
    then have "conn_handleRead S count_close t s = handleClose S count_close ?s" by simp
    moreover have "st_closed ?s = st_closed s" by (simp add: upd_conn_def)
    ultimately show ?thesis
      using handleClose_counts [OF S conn_ok_read [OF S ok b k]] by (auto elim!: holdsE_mono)
  qed (simp add: conn_error_def)
qed

text \<open>C36: A hang-up that comes with urgent data closes twice. For \<open>EPOLLHUP\<close> without \<open>EPOLLIN\<close> but
  with \<open>EPOLLPRI\<close>, the dispatcher calls \<open>handleClose\<close> and then \<open>handleRead\<close>, which finds the end of
  file and calls \<open>handleClose\<close> again; neither looks at the state, so the close callback, which
  removes the connection from the server, runs twice.\<close>

theorem hangup_closes_twice:
  fixes s :: "('k, 'z) counted_st_scheme"
  assumes "kernel_doc S V" and "conn_ok V s"
    and "ch_revents (tc_channel (st_conn s)) = EPOLLHUP OR EPOLLPRI"
    and "\<not> ch_tied (tc_channel (st_conn s)) \<or> (\<exists>c. ch_tie (tc_channel (st_conn s)) = Some c \<and> alive c s)"
    and "\<forall>f lens k. \<exists>k'. sys_readv S f lens k = (Done [], k')"
  shows "holdsE conn_error (\<lambda>s'. st_closed s' = st_closed s + 2) (conn_handleEvent S count_close alive t s)"
proof -
  note read = handleRead_eof_counts [OF assms(1) _ assms(5), of _ t]
  have bits: "(EPOLLHUP OR EPOLLPRI) AND EPOLLHUP \<noteq> 0" "(EPOLLHUP OR EPOLLPRI) AND EPOLLIN = 0"
      "(EPOLLHUP OR EPOLLPRI) AND EPOLLERR = 0" "(EPOLLHUP OR EPOLLPRI) AND (EPOLLIN OR EPOLLPRI) \<noteq> 0"
      "(EPOLLHUP OR EPOLLPRI) AND EPOLLOUT = 0"
    by (simp_all add: event_defs)
  let ?P = "\<lambda>n (s' :: ('k, 'z) counted_st_scheme). conn_ok V s' \<and> st_closed s' = st_closed s + n \<and>
      ch_revents (tc_channel (st_conn s')) = EPOLLHUP OR EPOLLPRI"
  have "holdsE conn_error (\<lambda>s'. st_closed s' = st_closed s + 2)
      (handleEventWithGuard (\<lambda>s. tc_channel (st_conn s)) (conn_callbacks S count_close) t s)"
    unfolding handleEventWithGuard_def
  proof (rule holdsE_bind)
    show "holdsE conn_error (?P 1) (if ch_revents (tc_channel (st_conn s)) AND EPOLLHUP \<noteq> 0 \<and>
        ch_revents (tc_channel (st_conn s)) AND EPOLLIN = 0
        then call (closeCallback (conn_callbacks S count_close)) s else Inr s)"
      using handleClose_counts [OF assms(1,2)] bits by (simp add: assms(3) conn_callbacks_def)
  next
    fix s1 assume s1: "?P 1 s1"
    let ?read = "bindE (if ch_revents (tc_channel (st_conn s1)) AND (EPOLLIN OR EPOLLPRI) \<noteq> 0
        then call_read (readCallback (conn_callbacks S count_close)) t s1 else Inr s1)
        (\<lambda>s. if ch_revents (tc_channel (st_conn s)) AND EPOLLOUT \<noteq> 0
             then call (writeCallback (conn_callbacks S count_close)) s else Inr s)"
    have "holdsE conn_error (\<lambda>s'. st_closed s' = st_closed s + 2) ?read"
      by (rule holdsE_bind [where P = "\<lambda>s'. st_closed s' = st_closed s + 2 \<and>
            ch_revents (tc_channel (st_conn s')) = EPOLLHUP OR EPOLLPRI"])
        (use read [of s1] s1 bits in \<open>auto simp: conn_callbacks_def elim!: holdsE_mono\<close>)
    then show "holdsE conn_error (\<lambda>s'. st_closed s' = st_closed s + 2)
        (bindE (if ch_revents (tc_channel (st_conn s1)) AND EPOLLERR \<noteq> 0
            then call (errorCallback (conn_callbacks S count_close)) s1 else Inr s1) (\<lambda>s.
         bindE (if ch_revents (tc_channel (st_conn s)) AND (EPOLLIN OR EPOLLPRI) \<noteq> 0
            then call_read (readCallback (conn_callbacks S count_close)) t s else Inr s) (\<lambda>s.
         if ch_revents (tc_channel (st_conn s)) AND EPOLLOUT \<noteq> 0
         then call (writeCallback (conn_callbacks S count_close)) s else Inr s)))"
      using s1 bits by simp
  qed
  then show ?thesis
    using assms(4) by (auto simp: conn_handleEvent_def handleEvent_def)
qed

text \<open>A kernel with nothing but ends of file to read.\<close>

definition eof_sys :: "sim sys" where
  "eof_sys = sim_sys\<lparr>sys_readv := (\<lambda>f lens k. (Done [], k))\<rparr>"

lemma eof_kernel_doc: "kernel_doc eof_sys sim_view"
  using sim_kernel_doc
  by (simp add: kernel_doc_def eof_sys_def readv_doc_def write_doc_def epipe_doc_def shutdown_doc_def
      so_error_doc_def epoll_ctl_doc_def epoll_wait_doc_def sendfile_doc_def)

lemma extend_simps:
  "st_conn (conn_st.extend s z) = st_conn s" "st_kern (conn_st.extend s z) = st_kern s"
  "st_loop (conn_st.extend s z) = st_loop s"
  by (simp_all add: conn_st.defs)

lemma conn_ok_extend: "conn_ok V (conn_st.extend s z) = conn_ok V s"
  by (simp add: conn_ok_def conn_core_def fin_sent_def self_ptr_def extend_simps)

definition hangup_conn :: "sim counted_st" where
  "hangup_conn = conn_st.extend (upd_conn (\<lambda>c. c\<lparr>tc_channel := set_revents (EPOLLHUP OR EPOLLPRI) (tc_channel c)\<rparr>)
     (sample_conn kConnected [] sim_init)) (counted_st.fields 0)"

theorem hangup_closes_twice_witness:
  "holdsE conn_error (\<lambda>s'. st_closed s' = 2)
     (conn_handleEvent eof_sys count_close (\<lambda>_ _. True) Timestamp_default hangup_conn)"
proof -
  have "conn_ok sim_view (sample_conn kConnected [] sim_init)"
    by (rule sample_conn_ok) (simp_all add: sim_init_def)
  then have ok: "conn_ok sim_view hangup_conn"
    by (simp add: hangup_conn_def conn_ok_extend revents_ok)
  have "st_closed hangup_conn = 0" by (simp add: hangup_conn_def conn_st.defs counted_st.defs)
  moreover have "ch_revents (tc_channel (st_conn hangup_conn)) = EPOLLHUP OR EPOLLPRI"
      "\<not> ch_tied (tc_channel (st_conn hangup_conn))"
    by (simp_all add: hangup_conn_def extend_simps set_revents_def) (simp add: sample_conn_def Channel_init_def)
  moreover have "\<forall>f lens k. \<exists>k'. sys_readv eof_sys f lens k = (Done [], k')"
    by (simp add: eof_sys_def)
  ultimately show ?thesis
    using hangup_closes_twice [OF eof_kernel_doc ok, of "\<lambda>_ _. True" Timestamp_default]
    by (simp add: numeral_2_eq_2)
qed

text \<open>C21: After \<open>connectDestroyed\<close> the loop knows nothing of the channel: the kernel does not watch the
  descriptor, the poller's table has no entry for it, and the channel is new again; so the
  connection object can be freed. This holds from every state the connection can be in.\<close>

theorem connectDestroyed_unregisters:
  assumes "kernel_doc S V" and "good_callbacks V cbs" and "conn_ok V s"
  shows "holdsE conn_error (\<lambda>s'. interest V (st_poller s') (tc_sockfd (st_conn s)) = None \<and>
      ep_channels (el_poller (st_loop s')) (tc_sockfd (st_conn s)) = None \<and>
      ch_index (tc_channel (st_conn s')) = kNew \<and> tc_state (st_conn s') \<noteq> kConnected)
    (connectDestroyed S cbs s)"
proof -
  have rem: "holdsE conn_error (\<lambda>s'. interest V (st_poller s') f = None \<and> ep_channels (el_poller (st_loop s')) f = None \<and>
      ch_index (tc_channel (st_conn s')) = kNew \<and> tc_state (st_conn s') \<noteq> kConnected) (on_channel (removeChannel S) s1)"
    if ok1: "conn_ok V s1" and f: "tc_sockfd (st_conn s1) = f" "tc_state (st_conn s1) \<noteq> kConnected" for s1 f
  proof -
    have kn: "known V (st_poller s1) (self_ptr s1) (tc_channel (st_conn s1))" "ch_fd (tc_channel (st_conn s1)) = f"
      using ok1 f by (auto simp: conn_ok_def conn_core_def ep_synced_def)
    obtain q where "removeChannel S (self_ptr s1) (tc_channel (st_conn s1)) s1 =
          Inr (set_index kNew (tc_channel (st_conn s1)), with_poller q s1)"
        "known V q (self_ptr s1) (set_index kNew (tc_channel (st_conn s1)))"
        "interest V q f = None"
      using removeChannel_st [OF kernel_docD(5) [OF assms(1)] kn(1)] kn(2) by auto
    then show ?thesis using kn(2) f by (auto simp: on_channel_def known_def index_defs)
  qed
  show ?thesis
  proof (cases "tc_state (st_conn s) = kConnected")
    case True
    have "holdsE conn_error (\<lambda>s'. conn_ok V s' \<and> tc_sockfd (st_conn s') = tc_sockfd (st_conn s) \<and>
        tc_state (st_conn s') \<noteq> kConnected)
      (bindE (on_channel (disableAll S) (setState kDisconnected s)) (call (cb_connection cbs)))"
    proof (rule holdsE_bind [OF take_down_ok [OF kernel_docD(5) [OF assms(1)] assms(3)]])
      fix s1 assume s1: "conn_ok V s1 \<and> evolves V s s1 \<and> tc_state (st_conn s1) = kDisconnected \<and>
        out_stream V s1 = out_stream V s \<and> pend s1 = pend s"
      then have "holdsE conn_error (\<lambda>s'. conn_ok V s' \<and> evolves V s1 s') (call (cb_connection cbs) s1)"
        using keeps_callback(1) [OF assms(2), of s1] by (simp add: keeps_def)
      then show "holdsE conn_error (\<lambda>s'. conn_ok V s' \<and> tc_sockfd (st_conn s') = tc_sockfd (st_conn s) \<and>
          tc_state (st_conn s') \<noteq> kConnected) (call (cb_connection cbs) s1)"
        by (rule holdsE_mono) (use s1 in \<open>auto simp: evolves_def\<close>)
    qed
    then show ?thesis
      using True rem unfolding connectDestroyed_def by (auto intro: holdsE_bind)
  next
    case False
    then show ?thesis using rem [OF assms(3)] by (simp add: connectDestroyed_def)
  qed
qed

theorem connectDestroyed_unregisters_witness:
  "holdsE conn_error (\<lambda>s'. interest sim_view (st_poller s') 7 = None \<and> ch_index (tc_channel (st_conn s')) = kNew)
     (connectDestroyed sim_sys no_callbacks (sample_conn kDisconnecting [1, 2] sim_init))"
proof -
  let ?s = "sample_conn kDisconnecting [1, 2] sim_init"
  have ok: "conn_ok sim_view ?s" by (rule sample_conn_ok) (simp_all add: sim_init_def)
  have f: "tc_sockfd (st_conn ?s) = 7" by (simp add: sample_conn_def)
  show ?thesis
    by (rule holdsE_mono [OF connectDestroyed_unregisters [OF sim_kernel_doc good_no_callbacks ok, unfolded f]]) auto
qed

end
