(* ===== verification/ConnMoves.thy ===== *)
theory ConnMoves
  imports ConnFrame ConnProperties
begin

text \<open>
  What one connection's operations do to the whole process. Under \<open>moves\<close>, from an object \<open>c\<close> in
  \<open>w\<close> to the object \<open>c'\<close> in \<open>w'\<close>, only what belongs to the connection changes: its descriptor's
  registration, its entry of the table, the functors it leaves. Every handler of a connection
  (read, write, close, error, establish, destroy) with the callbacks of a user that keeps the same
  contract (\<open>good_user\<close>) moves its own connection only.
\<close>

section \<open>The process while one connection works\<close>

definition pending :: "'k process \<Rightarrow> loop_id \<Rightarrow> task list" where
  "pending w l = el_pendingFunctors (pr_loops w l)"

text \<open>The functors an operation of a connection may leave, and where.\<close>

definition posts :: "tcpconnection \<Rightarrow> loop_id \<Rightarrow> loop_id \<Rightarrow> task \<Rightarrow> bool" where
  "posts c main l t \<longleftrightarrow>
     (l = tc_loop c \<and> (posted (tc_id c) t \<or> t = ConnectDestroyed (tc_id c) \<and> tc_state c = kDisconnected)) \<or>
     (l = main \<and> t = RemoveConnectionInLoop (tc_id c) \<and> tc_state c = kDisconnected)"

definition same_loop :: "'k process \<Rightarrow> 'k process \<Rightarrow> loop_id \<Rightarrow> bool" where
  "same_loop w w' l \<longleftrightarrow> el_threadId (pr_loops w' l) = el_threadId (pr_loops w l) \<and>
     el_wakeupFd (pr_loops w' l) = el_wakeupFd (pr_loops w l) \<and>
     ep_epollfd (el_poller (pr_loops w' l)) = ep_epollfd (el_poller (pr_loops w l))"

definition same_fds :: "'k view \<Rightarrow> tcpconnection \<Rightarrow> 'k process \<Rightarrow> 'k process \<Rightarrow> bool" where
  "same_fds V c w w' \<longleftrightarrow>
     (\<forall>l g. l \<noteq> tc_loop c \<or> g \<noteq> tc_sockfd c \<longrightarrow> ep_channels (el_poller (pr_loops w' l)) g = ep_channels (el_poller (pr_loops w l)) g) \<and>
     (\<forall>ep g. ep \<noteq> ep_epollfd (el_poller (pr_loops w (tc_loop c))) \<or> g \<noteq> tc_sockfd c \<longrightarrow>
        v_reg V (pr_kern w') ep g = v_reg V (pr_kern w) ep g) \<and>
     (\<forall>g. g \<noteq> tc_sockfd c \<longrightarrow> v_fin V (pr_kern w') g = v_fin V (pr_kern w) g) \<and>
     (\<forall>g. g \<noteq> tc_sockfd c \<longrightarrow> g \<noteq> el_wakeupFd (pr_loops w (tc_loop c)) \<longrightarrow> g \<noteq> el_wakeupFd (pr_loops w (ts_loop (pr_server w))) \<longrightarrow>
        v_sent V (pr_kern w') g = v_sent V (pr_kern w) g)"

definition same_table :: "tcpconnection \<Rightarrow> 'k process \<Rightarrow> tcpconnection \<Rightarrow> 'k process \<Rightarrow> bool" where
  "same_table c w c' w' \<longleftrightarrow> pr_server w' = pr_server w \<or>
     pr_server w' = (pr_server w)\<lparr>ts_connections := (ts_connections (pr_server w))(tc_name c := None)\<rparr> \<and>
     tc_state c' = kDisconnected \<and> ConnectDestroyed (tc_id c) \<in> set (pending w' (tc_loop c))"

text \<open>The connection's stream: what is sent stays, what is accepted and waits in the buffer stays behind it,
  and a write end that is shut stays so. (The base loop's wakeup descriptor is written to, too.)\<close>

definition flows :: "'k view \<Rightarrow> tcpconnection \<Rightarrow> 'k process \<Rightarrow> tcpconnection \<Rightarrow> 'k process \<Rightarrow> bool" where
  "flows V c w c' w' \<longleftrightarrow> (v_fin V (pr_kern w) (tc_sockfd c) \<longrightarrow> v_fin V (pr_kern w') (tc_sockfd c)) \<and>
     (tc_sockfd c \<noteq> el_wakeupFd (pr_loops w (ts_loop (pr_server w))) \<longrightarrow>
        prefix (v_sent V (pr_kern w) (tc_sockfd c)) (v_sent V (pr_kern w') (tc_sockfd c)) \<and>
        prefix (v_sent V (pr_kern w) (tc_sockfd c) @ readable (tc_outputBuffer c))
          (v_sent V (pr_kern w') (tc_sockfd c) @ readable (tc_outputBuffer c')))"

text \<open>The object \<open>c\<close> has become \<open>c'\<close> and the process \<open>w\<close> has become \<open>w'\<close>: nothing else has changed
  than what belongs to the connection.\<close>

definition moves :: "'k view \<Rightarrow> tcpconnection \<Rightarrow> 'k process \<Rightarrow> tcpconnection \<Rightarrow> 'k process \<Rightarrow> bool" where
  "moves V c w c' w' \<longleftrightarrow> pr_tid w' = pr_tid w \<and>
     pr_conns w (tc_id c) = Some c \<and> pr_conns w' = (pr_conns w)(tc_id c \<mapsto> c') \<and> same_ident c c' \<and>
     same_table c w c' w' \<and> same_fds V c w w' \<and> flows V c w c' w' \<and>
     (\<forall>l. same_loop w w' l \<and> (\<exists>ts. pending w' l = pending w l @ ts \<and> (\<forall>t\<in>set ts. posts c' (ts_loop (pr_server w)) l t)))"

lemma posts_mono: "posts c main l t \<Longrightarrow> same_ident c c' \<Longrightarrow> posts c' main l t"
  by (cases "tc_state c'") (auto simp: posts_def same_ident_def)

lemma same_ident_down: "same_ident c c' \<Longrightarrow> tc_state c = kDisconnected \<Longrightarrow> tc_state c' = kDisconnected"
  by (cases "tc_state c'") (auto simp: same_ident_def)

lemma same_loop_refl [simp]: "same_loop w w l"
  by (simp add: same_loop_def)

lemma same_fds_refl [simp]: "same_fds V c w w"
  by (simp add: same_fds_def)

lemma flows_refl [simp]: "flows V c w c w"
  by (simp add: flows_def)

lemma movesD:
  assumes "moves V c w c' w'"
  shows "pr_tid w' = pr_tid w" "pr_conns w (tc_id c) = Some c" "pr_conns w' = (pr_conns w)(tc_id c \<mapsto> c')"
    "pr_conns w' (tc_id c') = Some c'"
    "same_ident c c'" "same_table c w c' w'" "same_fds V c w w'" "same_loop w w' l"
    "tc_id c' = tc_id c" "tc_name c' = tc_name c" "tc_loop c' = tc_loop c" "tc_sockfd c' = tc_sockfd c"
    "ts_loop (pr_server w') = ts_loop (pr_server w)"
    "\<exists>ts. pending w' l = pending w l @ ts \<and> (\<forall>t\<in>set ts. posts c' (ts_loop (pr_server w)) l t)"
    "set (pending w l) \<subseteq> set (pending w' l)" "flows V c w c' w'"
proof -
  show "\<exists>ts. pending w' l = pending w l @ ts \<and> (\<forall>t\<in>set ts. posts c' (ts_loop (pr_server w)) l t)"
    using assms by (simp add: moves_def)
  then show "set (pending w l) \<subseteq> set (pending w' l)" by auto
qed (use assms in \<open>auto simp: moves_def same_ident_def same_table_def\<close>)

lemma moves_refl: "pr_conns w (tc_id c) = Some c \<Longrightarrow> moves V c w c w"
  by (simp add: moves_def fun_upd_idem same_table_def)

lemma moves_trans:
  assumes "moves V c w c1 w1" and "moves V c1 w1 c2 w2"
  shows "moves V c w c2 w2"
proof -
  note m1 = movesD [OF assms(1)] and m2 = movesD [OF assms(2)]
  have "same_table c w c2 w2"
    using m1(6,10) m2(6,9,11,15) m1(9,11) same_ident_down [OF m2(5)] unfolding same_table_def by auto
  moreover have "same_fds V c w w2"
    using m1(7,8,11,12,13) m2(7) unfolding same_fds_def same_loop_def by simp
  moreover have "flows V c w c2 w2"
    using m1(8,12,13,16) m2(16) unfolding flows_def same_loop_def by (auto intro: prefix_order.trans)
  moreover have "same_loop w w2 l" for l
    using m1(8) m2(8) by (simp add: same_loop_def)
  moreover have "\<exists>ts. pending w2 l = pending w l @ ts \<and> (\<forall>t\<in>set ts. posts c2 (ts_loop (pr_server w)) l t)" for l
  proof -
    obtain ts ts' where "pending w1 l = pending w l @ ts" "\<forall>t\<in>set ts. posts c1 (ts_loop (pr_server w)) l t"
        "pending w2 l = pending w1 l @ ts'" "\<forall>t\<in>set ts'. posts c2 (ts_loop (pr_server w)) l t"
      using m1(14) [of l] m2(14) [of l] m1(13) by auto
    then show ?thesis using posts_mono [OF _ m2(5)] by (intro exI [of _ "ts @ ts'"]) auto
  qed
  ultimately show ?thesis
    using m1 m2 same_ident_trans [OF m1(5) m2(5)] by (simp add: moves_def)
qed

text \<open>Seen from the connection's state: \<open>seated\<close> is being cut out of a process, in the thread of the loop.\<close>

definition seated :: "('k, 'k process) conn_st_scheme \<Rightarrow> bool" where
  "seated s \<longleftrightarrow> st_self s = tc_loop (st_conn s) \<and> st_tid s = pr_tid (conn_st.more s) \<and> isInLoopThread s"

lemma conn_put_simps [simp]:
  "pr_tid (conn_put s) = pr_tid (conn_st.more s)" "pr_kern (conn_put s) = st_kern s" "pr_mem (conn_put s) = st_mem s"
  "pr_loops (conn_put s) = (pr_loops (conn_st.more s))(st_self s := st_loop s)"
  "pr_conns (conn_put s) = (pr_conns (conn_st.more s))(tc_id (st_conn s) \<mapsto> st_conn s)"
  "pr_server (conn_put s) = pr_server (conn_st.more s)"
  by (simp_all add: conn_put_def)

lemma moves_local:
  assumes l: "local_change V s s'" and s: "seated s" and e: "evolves V s s'"
  shows "moves V (st_conn s) (conn_put s) (st_conn s') (conn_put s')"
proof -
  have f: "conn_st.more s' = conn_st.more s" "st_tid s' = st_tid s" "st_self s' = st_self s"
     "same_ident (st_conn s) (st_conn s')"
     "el_threadId (st_loop s') = el_threadId (st_loop s)" "el_wakeupFd (st_loop s') = el_wakeupFd (st_loop s)"
     "same_regs V (tc_sockfd (st_conn s)) (st_poller s) (st_poller s')"
     "\<exists>ts. pend s' = pend s @ ts \<and> (\<forall>t\<in>set ts. posted (tc_id (st_conn s)) t)"
     "\<And>g. g \<noteq> tc_sockfd (st_conn s) \<Longrightarrow> g \<noteq> el_wakeupFd (st_loop s) \<Longrightarrow> v_sent V (st_kern s') g = v_sent V (st_kern s) g"
    using l by (simp_all add: local_change_def)
  have i: "tc_id (st_conn s') = tc_id (st_conn s)" "tc_loop (st_conn s') = tc_loop (st_conn s)" using f(4) by (simp_all add: same_ident_def)
  have r: "ep_epollfd (el_poller (st_loop s')) = ep_epollfd (el_poller (st_loop s))"
     "\<And>g. g \<noteq> tc_sockfd (st_conn s) \<Longrightarrow> ep_channels (el_poller (st_loop s')) g = ep_channels (el_poller (st_loop s)) g \<and>
        v_fin V (st_kern s') g = v_fin V (st_kern s) g"
     "\<And>ep g. ep \<noteq> ep_epollfd (el_poller (st_loop s)) \<or> g \<noteq> tc_sockfd (st_conn s) \<Longrightarrow> v_reg V (st_kern s') ep g = v_reg V (st_kern s) ep g"
    using f(7) by (simp_all add: same_regs_def)
  obtain ts where ts: "pend s' = pend s @ ts" "\<forall>t\<in>set ts. posted (tc_id (st_conn s)) t" using f(8) by blast
  have self: "st_self s = tc_loop (st_conn s)" using s by (simp add: seated_def)
  have "same_fds V (st_conn s) (conn_put s) (conn_put s')"
    using r f self by (simp add: same_fds_def)
  moreover have "flows V (st_conn s) (conn_put s) (st_conn s') (conn_put s')"
    using e by (auto simp: flows_def evolves_def out_stream_def fin_sent_def)
  moreover have "same_loop (conn_put s) (conn_put s') l" for l
    using r f by (simp add: same_loop_def)
  moreover have "\<exists>ts. pending (conn_put s') l = pending (conn_put s) l @ ts \<and>
      (\<forall>t\<in>set ts. posts (st_conn s') (ts_loop (pr_server (conn_put s))) l t)" for l
    using ts f self i
    by (cases "l = st_self s") (auto simp: pending_def pend_def posts_def intro!: exI [of _ ts])
  ultimately show "moves V (st_conn s) (conn_put s) (st_conn s') (conn_put s')"
    using f i by (simp add: moves_def same_table_def)
qed

lemma local_seated:
  assumes "local_change V s s'" and "seated s"
  shows "seated s'"
  using assms by (simp add: local_change_def same_ident_def seated_def isInLoopThread_def)

text \<open>The object's invariant does not see the rest of the process.\<close>

lemma conn_ok_parts:
  assumes "st_conn s' = st_conn s" "st_kern s' = st_kern s" "st_loop s' = st_loop s"
  shows "conn_ok V s' = conn_ok V s"
  using assms by (simp add: conn_ok_def conn_core_def fin_sent_def self_ptr_def)

lemma view_put_ok: "seated s \<Longrightarrow> conn_ok V (conn_view (st_conn s) (conn_put s)) = conn_ok V s"
  by (rule conn_ok_parts) (simp_all add: seated_def)

lemma seated_view: "pr_tid w = el_threadId (pr_loops w (tc_loop c)) \<Longrightarrow> seated (conn_view c w)"
  by (simp add: seated_def isInLoopThread_def)

lemma seated_thread: "seated s \<Longrightarrow> pr_tid (conn_put s) = el_threadId (pr_loops (conn_put s) (tc_loop (st_conn s)))"
  by (simp add: seated_def isInLoopThread_def)

lemma conn_ok_wakeup: "conn_ok V s \<Longrightarrow> tc_sockfd (st_conn s) \<noteq> el_wakeupFd (st_loop s)"
  by (simp add: conn_ok_def conn_core_def)

section \<open>Leaving the server\<close>

definition leaving :: "(loop_id \<Rightarrow> task list) \<Rightarrow> tcpconnection \<Rightarrow> 'k process \<Rightarrow> bool" where
  "leaving q c w \<longleftrightarrow> RemoveConnectionInLoop (tc_id c) \<in> set (q (ts_loop (pr_server w))) \<or>
     ConnectDestroyed (tc_id c) \<in> set (q (tc_loop c)) \<and> ts_connections (pr_server w) (tc_name c) \<noteq> Some (tc_id c)"

definition progress :: "'k view \<Rightarrow> tcpconnection \<Rightarrow> 'k process \<Rightarrow> tcpconnection \<Rightarrow> 'k process \<Rightarrow> bool" where
  "progress V c w c' w' \<longleftrightarrow> moves V c w c' w' \<and> index_kept c c' \<and> (quiet c c' \<or> leaving (pending w') c' w')"

lemma leaving_mono:
  assumes "moves V c w c' w'" and "leaving q c w" and "\<And>l. set (q l) \<subseteq> set (q' l)"
  shows "leaving q' c' w'"
proof -
  have "ts_connections (pr_server w') (tc_name c) \<noteq> Some (tc_id c)"
    if "ts_connections (pr_server w) (tc_name c) \<noteq> Some (tc_id c)"
    using movesD(6) [OF assms(1)] that by (auto simp: same_table_def)
  then show ?thesis using assms(2,3) movesD [OF assms(1)] unfolding leaving_def by auto
qed

lemma progress_refl: "pr_conns w (tc_id c) = Some c \<Longrightarrow> progress V c w c w"
  by (simp add: progress_def moves_refl)

lemma progress_trans:
  assumes "progress V c w c1 w1" and "progress V c1 w1 c2 w2"
  shows "progress V c w c2 w2"
  using assms leaving_mono [of V c1 w1 c2 w2 "pending w1" "pending w2"] movesD(15) [of V c1 w1 c2 w2]
  by (auto simp: progress_def intro: moves_trans index_kept_trans quiet_trans)

lemma progress_steady:
  assumes "steady V s s'" and "seated s" and "evolves V s s'"
  shows "progress V (st_conn s) (conn_put s) (st_conn s') (conn_put s')"
  using assms by (simp add: steady_def progress_def moves_local)

lemma queued_conn_ok:
  assumes "write_doc S V"
  shows "conn_ok V (conn_view c (queued S l t w)) = conn_ok V (conn_view c w)"
proof -
  have k: "v_reg V (pr_kern (queued S l t w)) = v_reg V (pr_kern w)" "v_fin V (pr_kern (queued S l t w)) = v_fin V (pr_kern w)"
    using write_other [OF assms] by (simp_all add: queued_kern)
  show ?thesis
    by (simp add: conn_ok_def conn_core_def fin_sent_def self_ptr_def k ep_synced_reg [OF k(1)])
qed

lemma queued_moves:
  assumes "write_doc S V" and "pr_conns w (tc_id c) = Some c" and "posts c (ts_loop (pr_server w)) l t"
    and "tc_sockfd c \<noteq> el_wakeupFd (pr_loops w (tc_loop c))"
  shows "moves V c w c (queued S l t w)"
proof -
  have "l = tc_loop c \<or> l = ts_loop (pr_server w)" using assms(3) by (auto simp: posts_def)
  then show ?thesis
    using assms write_other [OF assms(1)]
    by (auto simp: moves_def same_table_def same_fds_def flows_def same_loop_def queued_kern pending_def)
qed

lemma removal_moves:
  assumes "write_doc S V" and "pr_conns w (tc_id c) = Some c" and "tc_state c = kDisconnected"
    and "tc_sockfd c \<noteq> el_wakeupFd (pr_loops w (tc_loop c))"
  shows "\<exists>w'. removeConnectionInLoop S (tc_id c) w = Inr w' \<and> moves V c w c w' \<and> leaving (pending w') c w' \<and>
    conn_ok V (conn_view c w') = conn_ok V (conn_view c w)"
proof -
  let ?w = "queued S (tc_loop c) (ConnectDestroyed (tc_id c)) (erased (tc_name c) w)"
  have e: "removeConnectionInLoop S (tc_id c) w = Inr ?w"
    using assms(2) by (simp add: removeConnectionInLoop_def on_loop_queue erased_def)
  have s: "pr_kern (erased (tc_name c) w) = pr_kern w" "pr_loops (erased (tc_name c) w) = pr_loops w"
    "pr_tid (erased (tc_name c) w) = pr_tid w" "pr_conns (erased (tc_name c) w) = pr_conns w"
    "pr_server (erased (tc_name c) w) = (pr_server w)\<lparr>ts_connections := (ts_connections (pr_server w))(tc_name c := None)\<rparr>"
    by (simp_all add: erased_def upd_server_def)
  have "moves V c w c ?w"
    using assms write_other [OF assms(1)]
    by (auto simp: moves_def same_table_def same_fds_def flows_def same_loop_def queued_kern pending_def posts_def s)
  moreover have "leaving (pending ?w) c ?w" by (simp add: leaving_def pending_def s)
  moreover have "conn_ok V (conn_view c ?w) = conn_ok V (conn_view c w)"
    unfolding queued_conn_ok [OF assms(1)] by (rule conn_ok_parts) (simp_all add: s)
  ultimately show ?thesis using e by blast
qed

lemma removeConnection_moves:
  assumes "write_doc S V" and "pr_conns w (tc_id c) = Some c" and "tc_state c = kDisconnected"
    and "tc_sockfd c \<noteq> el_wakeupFd (pr_loops w (tc_loop c))"
  shows "\<exists>w'. removeConnection S (tc_id c) w = Inr w' \<and> moves V c w c w' \<and> leaving (pending w') c w' \<and>
    conn_ok V (conn_view c w') = conn_ok V (conn_view c w)"
proof (cases "el_threadId (pr_loops w (ts_loop (pr_server w))) = pr_tid w")
  case True
  then show ?thesis using removal_moves [OF assms] by (simp add: removeConnection_def on_loop_run)
next
  case False
  let ?w = "queued S (ts_loop (pr_server w)) (RemoveConnectionInLoop (tc_id c)) w"
  have "moves V c w c ?w" using assms by (intro queued_moves) (simp_all add: posts_def)
  moreover have "leaving (pending ?w) c ?w" by (simp add: leaving_def pending_def)
  ultimately show ?thesis
    using False queued_conn_ok [OF assms(1)] by (simp add: removeConnection_def on_loop_run)
qed

section \<open>Handlers of a connection in the process\<close>

text \<open>The contract of the server's user: a callback keeps the connection's invariant and changes no
  more than the connection's operations do.\<close>

definition own_callback :: "'k view \<Rightarrow> (conn_id \<Rightarrow> 'k process \<Rightarrow> error + 'k process) \<Rightarrow> bool" where
  "own_callback V f \<longleftrightarrow> (\<forall>i c w. pr_conns w i = Some c \<longrightarrow> tc_id c = i \<longrightarrow> conn_ok V (conn_view c w) \<longrightarrow>
     pr_tid w = el_threadId (pr_loops w (tc_loop c)) \<longrightarrow>
     holdsE conn_error (\<lambda>w'. \<exists>c'. conn_ok V (conn_view c' w') \<and> moves V c w c' w' \<and> index_kept c c' \<and> quiet c c') (f i w))"

definition good_user :: "'k view \<Rightarrow> 'k process server_callbacks \<Rightarrow> bool" where
  "good_user V ucb \<longleftrightarrow> (\<forall>f. sc_connection ucb = Some f \<longrightarrow> own_callback V f) \<and>
     (\<forall>f t. sc_message ucb = Some f \<longrightarrow> own_callback V (\<lambda>i. f i t)) \<and>
     (\<forall>f. sc_writeComplete ucb = Some f \<longrightarrow> own_callback V f)"

text \<open>A handler that ends leaves the connection as it was found: sound, and up or on its way out.\<close>

definition step_of :: "'k view \<Rightarrow> (tcpconnection \<Rightarrow> 'k process \<Rightarrow> tcpconnection \<Rightarrow> 'k process \<Rightarrow> bool) \<Rightarrow>
    ('k, 'k process) conn_st_scheme \<Rightarrow> error + ('k, 'k process) conn_st_scheme \<Rightarrow> bool" where
  "step_of V R s m \<longleftrightarrow> holdsE conn_error (\<lambda>s'. conn_ok V s' \<and> seated s' \<and> R (st_conn s) (conn_put s) (st_conn s') (conn_put s')) m"

definition calm :: "'k view \<Rightarrow> tcpconnection \<Rightarrow> 'k process \<Rightarrow> tcpconnection \<Rightarrow> 'k process \<Rightarrow> bool" where
  "calm V c w c' w' \<longleftrightarrow> moves V c w c' w' \<and> index_kept c c' \<and> quiet c c'"

abbreviation handled :: "'k view \<Rightarrow> ('k, 'k process) conn_st_scheme \<Rightarrow> error + ('k, 'k process) conn_st_scheme \<Rightarrow> bool" where
  "handled V \<equiv> step_of V (progress V)"

lemma calm_progress: "calm V c w c' w' \<Longrightarrow> progress V c w c' w'"
  by (simp add: calm_def progress_def)

lemma handled_refl: "conn_ok V s \<Longrightarrow> seated s \<Longrightarrow> handled V s (Inr s)"
  by (simp add: step_of_def progress_refl)

lemma handled_bind:
  assumes "handled V s m" and "\<And>s'. conn_ok V s' \<Longrightarrow> seated s' \<Longrightarrow> handled V s' (f s')"
  shows "handled V s (bindE m f)"
  unfolding step_of_def
  by (rule holdsE_bind [OF assms(1) [unfolded step_of_def]])
    (auto intro: holdsE_mono [OF assms(2) [unfolded step_of_def]] progress_trans)

lemma handled_mono: "step_of V R s m \<Longrightarrow> (\<And>c w c' w'. R c w c' w' \<Longrightarrow> R' c w c' w') \<Longrightarrow> step_of V R' s m"
  by (auto simp: step_of_def elim: holdsE_mono)

text \<open>The connection's own operations.\<close>

lemma steady_seated: "steady V s s' \<Longrightarrow> seated s \<Longrightarrow> seated s'"
  using local_seated by (auto simp: steady_def)

lemma steady_calm: "steady V s s' \<Longrightarrow> seated s \<Longrightarrow> evolves V s s' \<Longrightarrow> calm V (st_conn s) (conn_put s) (st_conn s') (conn_put s')"
  by (simp add: steady_def calm_def moves_local)

lemma step_of_keeps:
  assumes "keeps V s m" and "\<And>s'. m = Inr s' \<Longrightarrow> steady V s s'" and "seated s"
  shows "step_of V (calm V) s m"
  using assms by (cases m) (auto simp: keeps_def step_of_def intro: steady_seated steady_calm)

lemma handled_keeps:
  assumes "keeps V s m" and "\<And>s'. m = Inr s' \<Longrightarrow> steady V s s'" and "seated s"
  shows "handled V s m"
  by (rule handled_mono [OF step_of_keeps [OF assms]]) (auto intro: calm_progress)

text \<open>A callback.\<close>

lemma callback_calm:
  assumes f: "own_callback V f" and ok: "conn_ok V s" and s: "seated s"
  shows "step_of V (calm V) s (from_conn f s)"
proof -
  let ?i = "tc_id (st_conn s)" and ?w = "conn_put s"
  have o: "pr_conns ?w ?i = Some (st_conn s)" by simp
  have "holdsE conn_error (\<lambda>w'. \<exists>c'. conn_ok V (conn_view c' w') \<and> moves V (st_conn s) ?w c' w' \<and>
      index_kept (st_conn s) c' \<and> quiet (st_conn s) c') (f ?i ?w)"
    using f [unfolded own_callback_def, rule_format, OF o refl] view_put_ok [OF s] ok seated_thread [OF s] by simp
  then show ?thesis
  proof (cases "f ?i ?w")
    case (Inr w')
    then obtain c' where c': "conn_ok V (conn_view c' w')" "moves V (st_conn s) ?w c' w'"
        "index_kept (st_conn s) c'" "quiet (st_conn s) c'"
      using \<open>holdsE _ _ _\<close> by auto
    note m = movesD [OF c'(2)]
    have look: "pr_conns w' ?i = Some c'" using m(4,9) by simp
    have "pr_tid w' = el_threadId (pr_loops w' (tc_loop c'))"
      using seated_thread [OF s] m(1,8,11) by (simp add: same_loop_def)
    then have "seated (conn_view c' w')" by (rule seated_view)
    moreover have "conn_put (conn_view c' w') = w'" using look m(9) by (simp add: conn_put_view)
    ultimately show ?thesis using c' Inr look by (simp add: step_of_def from_conn_def Let_def calm_def)
  qed (simp add: step_of_def from_conn_def Let_def)
qed

lemma callback_handled:
  assumes "own_callback V f" and "conn_ok V s" and "seated s"
  shows "handled V s (from_conn f s)"
  by (rule handled_mono [OF callback_calm [OF assms]]) (auto intro: calm_progress)

lemma call_handled:
  assumes "\<And>f. cb = Some f \<Longrightarrow> own_callback V f" and "conn_ok V s" and "seated s"
  shows "step_of V (calm V) s (call (map_option from_conn cb) s)"
  using assms moves_refl [of "conn_put s" "st_conn s" V]
  by (cases cb) (auto simp: callback_calm step_of_def [of V _ _ "Inr s"] calm_def)

text \<open>\<open>handleClose\<close>: the connection goes down, the user is told, and the server starts to remove it.\<close>

lemma handleClose_handled:
  assumes S: "kernel_doc S V" and u: "good_user V ucb" and ok: "conn_ok V s" and s: "seated s"
  shows "handled V s (handleClose S (server_conn_callbacks S ucb) s)"
proof -
  note docs = kernel_docD [OF S]
  let ?R = "\<lambda>c w c' w'. moves V c w c' w' \<and> index_kept c c' \<and> tc_state c' = kDisconnected"
  let ?d = "setState kDisconnected s"
  have d: "local_change V s ?d" "index_kept (st_conn s) (st_conn ?d)"
    by (cases "tc_state (st_conn s)", simp_all add: local_change_def same_ident_def index_kept_def setState_def)
  have ld: "linked V ?d" using conn_ok_linked [OF ok] by simp
  have "step_of V ?R s (on_channel (disableAll S) ?d)"
    unfolding step_of_def
  proof (rule holdsE_mono [OF holdsE_conj [OF take_down_ok [OF docs(5) ok], of "\<lambda>s'. on_channel (disableAll S) ?d = Inr s'"]])
    show "holdsE conn_error (\<lambda>s'. on_channel (disableAll S) ?d = Inr s') (on_channel (disableAll S) ?d)"
      using take_down_ok [OF docs(5) ok] by (cases "on_channel (disableAll S) ?d") auto
  next
    fix s' assume a: "(conn_ok V s' \<and> evolves V s s' \<and> tc_state (st_conn s') = kDisconnected \<and>
        out_stream V s' = out_stream V s \<and> pend s' = pend s) \<and> on_channel (disableAll S) ?d = Inr s'"
    then have "on_channel (\<lambda>p ch. updateChannel S p (ch\<lparr>ch_events := kNoneEvent\<rparr>)) ?d = Inr s'" by (simp add: channel_ops_eta)
    note l = on_channel_local [OF docs(5) ld this]
    have "local_change V s s'" using local_trans [OF d(1) l(1)] .
    then show "conn_ok V s' \<and> seated s' \<and> ?R (st_conn s) (conn_put s) (st_conn s') (conn_put s')"
      using a s l(2) d(2) index_kept_trans moves_local local_seated by blast
  qed
  then have 1: "holdsE conn_error (\<lambda>s'. conn_ok V s' \<and> seated s' \<and> ?R (st_conn s) (conn_put s) (st_conn s') (conn_put s'))
      (on_channel (disableAll S) ?d)" by (simp add: step_of_def)
  have 2: "holdsE conn_error (\<lambda>s'. conn_ok V s' \<and> seated s' \<and> ?R (st_conn s) (conn_put s) (st_conn s') (conn_put s'))
      (call (cb_connection (server_conn_callbacks S ucb)) s1)"
    if a: "conn_ok V s1 \<and> seated s1 \<and> ?R (st_conn s) (conn_put s) (st_conn s1) (conn_put s1)" for s1
  proof -
    have "step_of V (calm V) s1 (call (cb_connection (server_conn_callbacks S ucb)) s1)"
      using u a by (simp add: server_conn_callbacks_def good_user_def call_handled)
    then show ?thesis
      unfolding step_of_def
      by (rule holdsE_mono) (use a in \<open>auto simp: calm_def intro: moves_trans index_kept_trans same_ident_down dest: movesD(5)\<close>)
  qed
  have 3: "holdsE conn_error (\<lambda>s'. conn_ok V s' \<and> seated s' \<and> progress V (st_conn s) (conn_put s) (st_conn s') (conn_put s'))
      (call (cb_close (server_conn_callbacks S ucb)) s2)"
    if a: "conn_ok V s2 \<and> seated s2 \<and> ?R (st_conn s) (conn_put s) (st_conn s2) (conn_put s2)" for s2
  proof -
    let ?c = "st_conn s2" and ?w = "conn_put s2"
    obtain w' where w': "removeConnection S (tc_id ?c) ?w = Inr w'" "moves V ?c ?w ?c w'" "leaving (pending w') ?c w'"
        "conn_ok V (conn_view ?c w') = conn_ok V (conn_view ?c ?w)"
      using removeConnection_moves [OF docs(2), of ?w ?c] a conn_ok_wakeup [of V s2] by (auto simp: seated_def)
    note m = movesD [OF w'(2)]
    have look: "pr_conns w' (tc_id ?c) = Some ?c" using m(4) .
    have "pr_tid w' = el_threadId (pr_loops w' (tc_loop ?c))"
      using seated_thread [of s2] a m(1,8) by (simp add: same_loop_def)
    then have "seated (conn_view ?c w')" by (rule seated_view)
    moreover have "conn_put (conn_view ?c w') = w'" using look by (simp add: conn_put_view)
    moreover have "conn_ok V (conn_view ?c w')" using w'(4) view_put_ok [of s2 V] a by simp
    moreover have "progress V (st_conn s) (conn_put s) ?c w'"
      using a w' by (auto simp: progress_def intro: moves_trans)
    ultimately show ?thesis
      using w'(1) look by (simp add: server_conn_callbacks_def from_conn_def Let_def)
  qed
  show ?thesis
    unfolding step_of_def handleClose_def by (rule holdsE_bind [OF 1], rule holdsE_bind [OF 2], assumption, rule 3)
qed

lemma handled_after:
  assumes "steady V s s1" and "evolves V s s1" and "seated s" and "conn_ok V s1" and "seated s1 \<Longrightarrow> handled V s1 m"
  shows "handled V s m"
proof -
  have "seated s1" using steady_seated assms(1,3) by blast
  moreover from this have "handled V s1 m" by (rule assms(5))
  moreover have "progress V (st_conn s) (conn_put s) (st_conn s1) (conn_put s1)" by (rule progress_steady) fact+
  ultimately show ?thesis unfolding step_of_def by (auto elim!: holdsE_mono intro: progress_trans)
qed

lemma handleRead_handled:
  assumes S: "kernel_doc S V" and u: "good_user V ucb" and ok: "conn_ok V s" and s: "seated s"
  shows "handled V s (conn_handleRead S (server_conn_callbacks S ucb) t s)"
proof -
  note docs = kernel_docD [OF S]
  let ?cbs = "server_conn_callbacks S ucb" and ?f = "ch_fd (tc_channel (st_conn s))"
  obtain r k where w: "sys_readv S ?f (readFd_iov (tc_inputBuffer (st_conn s))) (st_kern s) = (r, k)" by fastforce
  note d = docs(1) [unfolded readv_doc_def, rule_format, OF w]
  have k: "steady V s (s\<lparr>st_kern := k\<rparr>)" using d by (intro steady_kern) auto
  have kok: "conn_ok V (s\<lparr>st_kern := k\<rparr>)" "evolves V s (s\<lparr>st_kern := k\<rparr>)" using keeps_same_view [of V k s] d ok by (simp_all add: keeps_Inr)
  from handleRead_cases [OF S ok w, of ?cbs t] show ?thesis
  proof (elim disjE exE conjE)
    fix b assume b: "buffer_ok b" and c: "case r of
        Done d \<Rightarrow> readable b = readable (tc_inputBuffer (st_conn s)) @ d \<and> conn_handleRead S ?cbs t s =
          (if d \<noteq> [] then call_read (cb_message ?cbs) t else handleClose S ?cbs)
            (upd_conn (\<lambda>c. c\<lparr>tc_inputBuffer := b\<rparr>) (s\<lparr>st_kern := k\<rparr>))
      | Fail e \<Rightarrow> conn_handleRead S ?cbs t s = handleError S (s\<lparr>st_kern := k\<rparr>)"
    let ?s = "upd_conn (\<lambda>c. c\<lparr>tc_inputBuffer := b\<rparr>) (s\<lparr>st_kern := k\<rparr>)"
    have s1: "steady V s ?s" by (rule steady_trans [OF k steady_buffer(1)])
    have ok1: "conn_ok V ?s" by (rule conn_ok_read [OF S ok b w])
    have ev1: "evolves V s ?s" by (rule evolves_trans [OF kok(2)]) (simp add: evolves_def out_stream_def fin_sent_def)
    have m: "handled V ?s (call_read (cb_message ?cbs) t ?s)" if "seated ?s"
      using u ok1 that callback_handled [of V "\<lambda>i. f i t" ?s for f] handled_refl [OF ok1 that]
      by (cases "sc_message ucb") (auto simp: server_conn_callbacks_def good_user_def)
    show ?thesis
    proof (cases r)
      case (Done d)
      have "handled V s (if d \<noteq> [] then call_read (cb_message ?cbs) t ?s else handleClose S ?cbs ?s)"
        by (rule handled_after [OF s1 ev1 s ok1]) (use m handleClose_handled [OF S u ok1] in auto)
      then show ?thesis using c Done by (simp split: if_splits)
    next
      case (Fail e)
      have "handled V s (handleError S (s\<lparr>st_kern := k\<rparr>))"
        by (rule handled_after [OF k kok(2) s kok(1)], rule handled_keeps [OF handleError_ok [OF S kok(1)] handleError_steady [OF docs(4)]])
      then show ?thesis using c Fail by simp
    qed
  qed (simp add: step_of_def conn_error_def)
qed

lemma handleWrite_handled:
  assumes S: "kernel_doc S V" and ok: "conn_ok V s" and s: "seated s"
  shows "handled V s (handleWrite S cbs s)"
proof (rule handled_keeps [OF _ handleWrite_steady [OF S ok] s])
  show "keeps V s (handleWrite S cbs s)"
    unfolding keeps_def by (rule holdsE_mono [OF handleWrite_ok [OF S ok]]) auto
qed

lemma handleEvent_handled:
  assumes S: "kernel_doc S V" and u: "good_user V ucb" and ok: "conn_ok V s" and s: "seated s"
  shows "handled V s (conn_handleEvent S (server_conn_callbacks S ucb) alive t s)"
proof -
  note docs = kernel_docD [OF S]
  have "handled V s (handleEventWithGuard (\<lambda>s. tc_channel (st_conn s)) (conn_callbacks S (server_conn_callbacks S ucb)) t s)"
    unfolding handleEventWithGuard_def conn_callbacks_def
    using ok s
    by (intro handled_bind)
      (auto intro: handled_refl handleClose_handled [OF S u] handleRead_handled [OF S u] handleWrite_handled [OF S]
        handled_keeps [OF handleError_ok [OF S] handleError_steady [OF docs(4)]])
  then show ?thesis
    using ok s by (auto simp: conn_handleEvent_def handleEvent_def handled_refl split: option.splits)
qed

text \<open>Establishing: the result is past \<open>kConnecting\<close>.\<close>

lemma connectEstablished_split:
  "connectEstablished S cbs s = bindE (connectEstablished S no_callbacks s) (call (cb_connection cbs))"
  by (simp add: connectEstablished_def no_callbacks_def Let_def bindE_assoc)

lemma connectEstablished_steady:
  assumes S: "kernel_doc S V" and ok: "conn_ok V s" and new: "tc_state (st_conn s) = kConnecting"
    and r: "connectEstablished S no_callbacks s = Inr s'"
  shows "steady V s s'" "tc_state (st_conn s') = kConnected"
proof -
  let ?u = "upd_conn (\<lambda>c. c\<lparr>tc_channel := Channel_tie (tc_id c) (tc_channel c)\<rparr>) (setState kConnected s)"
  have u: "on_channel (enableReading S) ?u = Inr s'" using r by (auto simp: connectEstablished_def no_callbacks_def Let_def)
  have su: "steady V s ?u"
    by (rule steady_trans [OF setState_steady steady_upd])
      (simp_all add: new same_ident_def index_kept_def quiet_def)
  have st: "tc_state (st_conn ?u) = kConnected" by (simp add: setState_def)
  have "linked V (setState kConnected s)" using conn_ok_linked [OF ok] by simp
  then have lu: "linked V ?u" by (auto simp: linked_def known_def self_ptr_def)
  from on_channel_steady [OF kernel_docD(5) [OF S] lu _ u [unfolded channel_ops_eta]] st su
  show "steady V s s'" "tc_state (st_conn s') = kConnected" by (auto intro: steady_trans)
qed

lemma connectEstablished_handled:
  assumes S: "kernel_doc S V" and u: "good_user V ucb" and ok: "conn_ok V s" and s: "seated s"
    and new: "tc_state (st_conn s) = kConnecting"
  shows "step_of V (\<lambda>c w c' w'. progress V c w c' w' \<and> tc_state c' \<noteq> kConnecting) s
    (connectEstablished S (server_conn_callbacks S ucb) s)"
  unfolding step_of_def connectEstablished_split [of S "server_conn_callbacks S ucb"]
proof (rule holdsE_bind)
  show "holdsE conn_error (\<lambda>s'. conn_ok V s' \<and> seated s' \<and> steady V s s' \<and> evolves V s s' \<and> tc_state (st_conn s') = kConnected)
      (connectEstablished S no_callbacks s)"
    using connectEstablished_ok [OF S good_no_callbacks ok new] connectEstablished_steady [OF S ok new] s
    by (cases "connectEstablished S no_callbacks s") (auto simp: keeps_def intro: steady_seated)
next
  fix s1 assume s1: "conn_ok V s1 \<and> seated s1 \<and> steady V s s1 \<and> evolves V s s1 \<and> tc_state (st_conn s1) = kConnected"
  have "step_of V (calm V) s1 (call (cb_connection (server_conn_callbacks S ucb)) s1)"
    using u s1 by (simp add: server_conn_callbacks_def good_user_def call_handled)
  then show "holdsE conn_error (\<lambda>s'. conn_ok V s' \<and> seated s' \<and>
      progress V (st_conn s) (conn_put s) (st_conn s') (conn_put s') \<and> tc_state (st_conn s') \<noteq> kConnecting)
      (call (cb_connection (server_conn_callbacks S ucb)) s1)"
    unfolding step_of_def
  proof (rule holdsE_mono)
    fix s' assume a: "conn_ok V s' \<and> seated s' \<and> calm V (st_conn s1) (conn_put s1) (st_conn s') (conn_put s')"
    then have "progress V (st_conn s1) (conn_put s1) (st_conn s') (conn_put s')" by (simp add: calm_progress)
    moreover have "tc_state (st_conn s') \<noteq> kConnecting"
      using a s1 movesD(5) [of V "st_conn s1" "conn_put s1" "st_conn s'" "conn_put s'"] by (auto simp: calm_def same_ident_def)
    ultimately show "conn_ok V s' \<and> seated s' \<and>
        progress V (st_conn s) (conn_put s) (st_conn s') (conn_put s') \<and> tc_state (st_conn s') \<noteq> kConnecting"
      using a s1 progress_steady [of V s s1] s progress_trans by blast
  qed
qed

text \<open>Destroying a connection that is down: its channel is forgotten.\<close>

lemma connectDestroyed_handled:
  assumes S: "kernel_doc S V" and ok: "conn_ok V s" and s: "seated s" and down: "tc_state (st_conn s) = kDisconnected"
  shows "step_of V (\<lambda>c w c' w'. moves V c w c' w' \<and> tc_state c' = kDisconnected \<and> ch_index (tc_channel c') = kNew) s
    (connectDestroyed S cbs s)"
proof -
  obtain s' where s': "on_channel (removeChannel S) s = Inr s'" "local_change V s s'"
      "ch_index (tc_channel (st_conn s')) = kNew" "tc_state (st_conn s') = tc_state (st_conn s)"
    using on_channel_remove_local [OF kernel_docD(5) [OF S] conn_ok_linked [OF ok]] by blast
  have "connectDestroyed S cbs s = Inr s'" using s'(1) down by (simp add: connectDestroyed_def)
  moreover have "conn_ok V s'" "evolves V s s'" using on_channel_remove_ok [OF S ok] s'(1) by (simp_all add: keeps_Inr)
  ultimately show ?thesis using moves_local [OF s'(2) s] local_seated [OF s'(2) s] s' down by (simp add: step_of_def)
qed

text \<open>From the process: an operation on the object \<open>i\<close>.\<close>

lemma on_conn_step:
  assumes "pr_conns w i = Some c" and "tc_id c = i"
    and "step_of V R (conn_view c w) (f (conn_view c w))"
  shows "holdsE conn_error (\<lambda>w'. \<exists>c'. conn_ok V (conn_view c' w') \<and> R c w c' w') (on_conn i f w)"
proof (cases "f (conn_view c w)")
  case (Inr s')
  have "conn_put (conn_view c w) = w" using assms(1,2) by simp
  moreover have "conn_ok V (conn_view (st_conn s') (conn_put s'))" using assms(3) Inr view_put_ok [of s' V] by (simp add: step_of_def)
  ultimately show ?thesis using assms Inr by (auto simp: on_conn_def step_of_def)
qed (use assms in \<open>simp add: on_conn_def step_of_def\<close>)

text \<open>A callback that works on its connection like the connection's operations keeps the contract.\<close>

lemma own_on_conn:
  assumes "\<And>s. conn_ok V s \<Longrightarrow> seated s \<Longrightarrow> step_of V (calm V) s (f s)"
  shows "own_callback V (\<lambda>i. on_conn i f)"
  unfolding own_callback_def
proof (intro allI impI)
  fix i c w assume c: "pr_conns w i = Some c" "tc_id c = i" and ok: "conn_ok V (conn_view c w)"
    and t: "pr_tid w = el_threadId (pr_loops w (tc_loop c))"
  show "holdsE conn_error (\<lambda>w'. \<exists>c'. conn_ok V (conn_view c' w') \<and> moves V c w c' w' \<and> index_kept c c' \<and> quiet c c') (on_conn i f w)"
    using on_conn_step [where f = f, OF c assms [OF ok seated_view [OF t]]] by (rule holdsE_mono) (auto simp: calm_def)
qed

end
