(* ===== verification/ServerSafety.thy ===== *)
theory ServerSafety
  imports ConnMoves
begin

text \<open>
  The invariant of a running server: who refers to a connection, where its channel is registered and
  what may still happen to it, over all loops at once. \<open>safe V w q d\<close> speaks of the process \<open>w\<close>, the
  functors \<open>q\<close> not yet run and the channels \<open>d\<close> reported ready and not yet handled, per loop. The lemmas
  below keep it under the move of one connection, a new connection and the end of an object.
\<close>

section \<open>Threads and steps\<close>

datatype phase = Waiting | Dispatching "chan_ptr list" | Draining "task list"

definition server_loops :: "tcpserver \<Rightarrow> loop_id set" where
  "server_loops v = insert (ts_loop v) (set (getAllLoops (ts_threadPool v)))"

text \<open>The functors still to be run by a loop, and the channels it has still to handle in this round.\<close>

definition draining :: "phase \<Rightarrow> task list" where
  "draining ph = (case ph of Draining ts \<Rightarrow> ts | _ \<Rightarrow> [])"

definition dispatching :: "phase \<Rightarrow> chan_ptr list" where
  "dispatching ph = (case ph of Dispatching ps \<Rightarrow> ps | _ \<Rightarrow> [])"

definition outstanding :: "'k process \<Rightarrow> (loop_id \<Rightarrow> phase) \<Rightarrow> loop_id \<Rightarrow> task list" where
  "outstanding w ph l = draining (ph l) @ pending w l"

text \<open>No entry of the table and no functor keeps the object alive.\<close>

definition unreferenced :: "'k process \<Rightarrow> (loop_id \<Rightarrow> task list) \<Rightarrow> conn_id \<Rightarrow> bool" where
  "unreferenced w q i \<longleftrightarrow> (\<forall>name. ts_connections (pr_server w) name \<noteq> Some i) \<and>
     (\<forall>l\<in>server_loops (pr_server w). \<forall>t\<in>set (q l). task_ref t \<noteq> Some i)"

text \<open>The descriptors of the process. The kernel never hands out one that is in use, and the allocator
  no address of an object that lives; connection numbers are an \<open>int\<close>.\<close>

definition in_use :: "'k process \<Rightarrow> fd \<Rightarrow> bool" where
  "in_use w f \<longleftrightarrow> f = ch_fd (ac_channel (ts_acceptor (pr_server w))) \<or>
     (\<exists>l\<in>server_loops (pr_server w). f = el_wakeupFd (pr_loops w l) \<or> f = ep_epollfd (el_poller (pr_loops w l))) \<or>
     (\<exists>i c. pr_conns w i = Some c \<and> tc_sockfd c = f)"

definition can_accept :: "'k sys \<Rightarrow> ('k process \<Rightarrow> conn_id) \<Rightarrow> 'k process \<Rightarrow> bool" where
  "can_accept S alloc w \<longleftrightarrow> pr_conns w (alloc w) = None \<and> ts_nextConnId (pr_server w) < 2147483647 \<and>
     (\<forall>f a k. sys_accept4 S (ac_sockfd (ts_acceptor (pr_server w))) (pr_kern w) = (Done (f, a), k) \<longrightarrow> \<not> in_use w f)"

definition in_thread :: "loop_id \<Rightarrow> 'k process \<Rightarrow> 'k process" where
  "in_thread l w = w\<lparr>pr_tid := el_threadId (pr_loops w l)\<rparr>"

section \<open>The invariant\<close>

definition gone :: "tcpconnection \<Rightarrow> 'k process \<Rightarrow> bool" where
  "gone c w \<longleftrightarrow> ch_index (tc_channel c) = kNew \<and> ts_connections (pr_server w) (tc_name c) \<noteq> Some (tc_id c)"

definition sound :: "'k view \<Rightarrow> 'k process \<Rightarrow> (loop_id \<Rightarrow> task list) \<Rightarrow> tcpconnection \<Rightarrow> bool" where
  "sound V w q c \<longleftrightarrow> conn_ok V (conn_view c w) \<and> tc_loop c \<in> server_loops (pr_server w) \<and>
     (\<forall>l\<in>server_loops (pr_server w). tc_sockfd c \<noteq> ep_epollfd (el_poller (pr_loops w l)) \<and> tc_sockfd c \<noteq> el_wakeupFd (pr_loops w l)) \<and>
     (tc_state c \<noteq> kDisconnected \<longrightarrow> ts_connections (pr_server w) (tc_name c) = Some (tc_id c)) \<and>
     (tc_state c = kDisconnected \<longrightarrow> leaving q c w \<or> gone c w) \<and>
     (tc_state c = kConnecting \<longrightarrow> ch_index (tc_channel c) = kNew) \<and>
     length (filter (\<lambda>t. t = ConnectEstablished (tc_id c)) (q (tc_loop c))) \<le> 1"

text \<open>A functor waits only where it belongs and only in the states it was made for.\<close>

fun fits :: "'k process \<Rightarrow> loop_id \<Rightarrow> task \<Rightarrow> bool" where
  "fits w l (SendFileInLoop i f off n) \<longleftrightarrow> (\<exists>c. pr_conns w i = Some c \<and> tc_loop c = l \<and> tc_state c \<noteq> kConnecting)"
| "fits w l (WriteComplete i) \<longleftrightarrow> (\<exists>c. pr_conns w i = Some c \<and> tc_loop c = l \<and> tc_state c \<noteq> kConnecting)"
| "fits w l (HighWaterMark i n) \<longleftrightarrow> (\<exists>c. pr_conns w i = Some c \<and> tc_loop c = l \<and> tc_state c \<noteq> kConnecting)"
| "fits w l (ConnectEstablished i) \<longleftrightarrow> (\<exists>c. pr_conns w i = Some c \<and> tc_loop c = l \<and> tc_state c = kConnecting)"
| "fits w l (ConnectDestroyed i) \<longleftrightarrow> (\<exists>c. pr_conns w i = Some c \<and> tc_loop c = l \<and> tc_state c = kDisconnected)"
| "fits w l (RemoveConnectionInLoop i) \<longleftrightarrow> l = ts_loop (pr_server w) \<and> (\<exists>c. pr_conns w i = Some c \<and> tc_state c = kDisconnected)"
| "fits w l t \<longleftrightarrow> False"

text \<open>A registered pointer leads to the channel that owns the descriptor.\<close>

fun at_home :: "'k process \<Rightarrow> loop_id \<Rightarrow> fd \<Rightarrow> chan_ptr \<Rightarrow> bool" where
  "at_home w l f (WakeupChannelOf m) \<longleftrightarrow> m = l \<and> f = el_wakeupFd (pr_loops w l)"
| "at_home w l f (AcceptChannelOf m) \<longleftrightarrow> m = l \<and> l = ts_loop (pr_server w) \<and> f = ch_fd (ac_channel (ts_acceptor (pr_server w)))"
| "at_home w l f (ConnChannelOf i) \<longleftrightarrow> (\<exists>c. pr_conns w i = Some c \<and> tc_loop c = l \<and> tc_sockfd c = f)"

fun dispatchable :: "'k process \<Rightarrow> loop_id \<Rightarrow> chan_ptr \<Rightarrow> bool" where
  "dispatchable w l (WakeupChannelOf m) \<longleftrightarrow> m = l"
| "dispatchable w l (AcceptChannelOf m) \<longleftrightarrow> l = ts_loop (pr_server w)"
| "dispatchable w l (ConnChannelOf i) \<longleftrightarrow> (\<exists>c. pr_conns w i = Some c \<and> tc_loop c = l \<and> ch_index (tc_channel c) \<noteq> kNew)"

definition registered :: "'k view \<Rightarrow> 'k process \<Rightarrow> loop_id \<Rightarrow> fd \<Rightarrow> chan_ptr \<Rightarrow> bool" where
  "registered V w l f p \<longleftrightarrow> ep_channels (el_poller (pr_loops w l)) f = Some p \<or>
     (\<exists>ev. v_reg V (pr_kern w) (ep_epollfd (el_poller (pr_loops w l))) f = Some (ev, p))"

definition distinct_fds :: "'k process \<Rightarrow> bool" where
  "distinct_fds w \<longleftrightarrow> (\<forall>i j c d. pr_conns w i = Some c \<longrightarrow> pr_conns w j = Some d \<longrightarrow> tc_sockfd c = tc_sockfd d \<longrightarrow> i = j) \<and>
     inj_on (\<lambda>l. ep_epollfd (el_poller (pr_loops w l))) (server_loops (pr_server w))"

definition safe :: "'k view \<Rightarrow> 'k process \<Rightarrow> (loop_id \<Rightarrow> task list) \<Rightarrow> (loop_id \<Rightarrow> chan_ptr list) \<Rightarrow> bool" where
  "safe V w q d \<longleftrightarrow> process_ok w \<and> tp_baseLoop (ts_threadPool (pr_server w)) = ts_loop (pr_server w) \<and> distinct_fds w \<and>
     (\<forall>i c. pr_conns w i = Some c \<longrightarrow> sound V w q c) \<and>
     (\<forall>l\<in>server_loops (pr_server w). (\<forall>t\<in>set (q l). fits w l t) \<and> (\<forall>p\<in>set (d l). dispatchable w l p) \<and>
        (\<forall>f p. registered V w l f p \<longrightarrow> at_home w l f p))"

lemma safeD:
  assumes "safe V w q d"
  shows "process_ok w" "tp_baseLoop (ts_threadPool (pr_server w)) = ts_loop (pr_server w)" "distinct_fds w"
    "pr_conns w i = Some c \<Longrightarrow> sound V w q c" "pr_conns w i = Some c \<Longrightarrow> tc_id c = i"
    "l \<in> server_loops (pr_server w) \<Longrightarrow> t \<in> set (q l) \<Longrightarrow> fits w l t"
    "l \<in> server_loops (pr_server w) \<Longrightarrow> p \<in> set (d l) \<Longrightarrow> dispatchable w l p"
    "l \<in> server_loops (pr_server w) \<Longrightarrow> registered V w l f p \<Longrightarrow> at_home w l f p"
  using assms process_okD(2) [of w i c] by (auto simp: safe_def)

lemma soundD:
  assumes "sound V w q c"
  shows "conn_ok V (conn_view c w)" "tc_loop c \<in> server_loops (pr_server w)"
    "l \<in> server_loops (pr_server w) \<Longrightarrow> tc_sockfd c \<noteq> ep_epollfd (el_poller (pr_loops w l))"
    "tc_state c \<noteq> kDisconnected \<Longrightarrow> ts_connections (pr_server w) (tc_name c) = Some (tc_id c)"
    "tc_state c = kDisconnected \<Longrightarrow> leaving q c w \<or> gone c w"
    "tc_state c = kConnecting \<Longrightarrow> ch_index (tc_channel c) = kNew"
    "length (filter (\<lambda>t. t = ConnectEstablished (tc_id c)) (q (tc_loop c))) \<le> 1"
    "l \<in> server_loops (pr_server w) \<Longrightarrow> tc_sockfd c \<noteq> el_wakeupFd (pr_loops w l)"
  using assms by (auto simp: sound_def)

section \<open>Lemmas: a connection works\<close>

lemma same_table_loops: "same_table c w c' w' \<Longrightarrow> server_loops (pr_server w') = server_loops (pr_server w)"
  by (auto simp: same_table_def server_loops_def)

text \<open>The invariant of a connection depends on what is known of its descriptor only.\<close>

definition same_at :: "'k view \<Rightarrow> 'k process \<Rightarrow> 'k process \<Rightarrow> loop_id \<Rightarrow> fd \<Rightarrow> bool" where
  "same_at V w w' l g \<longleftrightarrow> same_loop w w' l \<and> v_fin V (pr_kern w') g = v_fin V (pr_kern w) g \<and>
     ep_channels (el_poller (pr_loops w' l)) g = ep_channels (el_poller (pr_loops w l)) g \<and>
     v_reg V (pr_kern w') (ep_epollfd (el_poller (pr_loops w l))) g = v_reg V (pr_kern w) (ep_epollfd (el_poller (pr_loops w l))) g"

lemma same_at_ok:
  assumes s: "same_at V w w' (tc_loop e) (tc_sockfd e)" and ok: "conn_ok V (conn_view e w)"
  shows "conn_ok V (conn_view e w')"
proof -
  let ?g = "tc_sockfd e" and ?l = "tc_loop e"
  note f = s [unfolded same_at_def same_loop_def]
  have "ep_synced V (el_poller (pr_loops w' ?l), pr_kern w') p ch = ep_synced V (el_poller (pr_loops w ?l), pr_kern w) p ch"
    if "ch_fd ch = ?g" for p ch
    using that f by (simp add: ep_synced_def known_def interest_def)
  then show ?thesis
    using ok f by (auto simp: conn_ok_def conn_core_def fin_sent_def self_ptr_def)
qed

lemma other_ok:
  assumes m: "moves V c w c' w'" and fd: "tc_sockfd e \<noteq> tc_sockfd c"
    and ok: "conn_ok V (conn_view e w)"
  shows "conn_ok V (conn_view e w')"
  using movesD(7,8) [OF m] fd by (intro same_at_ok [OF _ ok]) (simp add: same_at_def same_fds_def same_loop_def)

text \<open>The functors that were left, seen as one queue per loop.\<close>

definition grown :: "tcpconnection \<Rightarrow> loop_id \<Rightarrow> (loop_id \<Rightarrow> task list) \<Rightarrow> (loop_id \<Rightarrow> task list) \<Rightarrow> bool" where
  "grown c main q q' \<longleftrightarrow> (\<forall>l. \<exists>ts. q' l = q l @ ts \<and> (\<forall>t\<in>set ts. posts c main l t))"

lemma grown_mono: "grown c main q q' \<Longrightarrow> set (q l) \<subseteq> set (q' l)"
  unfolding grown_def by (metis Un_upper1 set_append)

lemma grown_new: "grown c main q q' \<Longrightarrow> t \<in> set (q' l) \<Longrightarrow> t \<in> set (q l) \<or> posts c main l t"
  unfolding grown_def by (metis Un_iff set_append)

lemma leaving_subset: "leaving q c w \<Longrightarrow> (\<And>l. set (q l) \<subseteq> set (q' l)) \<Longrightarrow> leaving q' c w"
  unfolding leaving_def by auto

lemma grown_established: "grown c main q q' \<Longrightarrow>
    filter (\<lambda>t. t = ConnectEstablished i) (q' l) = filter (\<lambda>t. t = ConnectEstablished i) (q l)"
proof -
  assume "grown c main q q'"
  then obtain ts where "q' l = q l @ ts" "\<forall>t\<in>set ts. posts c main l t" unfolding grown_def by blast
  moreover from this have "filter (\<lambda>t. t = ConnectEstablished i) ts = []"
    by (auto simp: filter_empty_conv posts_def posted_def)
  ultimately show ?thesis by simp
qed

lemma moved_process_ok:
  assumes ok: "process_ok w" and m: "moves V c w c' w'"
  shows "process_ok w'"
proof -
  note md = movesD [OF m]
  have name: "conn_name (pr_server w') n = conn_name (pr_server w) n" for n
    using md(6) by (auto simp: same_table_def conn_name_def)
  have fields: "ts_nextConnId (pr_server w') = ts_nextConnId (pr_server w)"
      "server_ok (pr_server w') = server_ok (pr_server w)"
    using md(6) by (auto simp: same_table_def server_ok_def)
  have table: "ts_connections (pr_server w) x = Some i" if "ts_connections (pr_server w') x = Some i" for x i
    using md(6) that by (auto simp: same_table_def split: if_splits)
  have obj: "\<exists>e. pr_conns w i = Some e \<and> tc_id e = tc_id x \<and> tc_name e = tc_name x" if "pr_conns w' i = Some x" for i x
    using that md(2,3,9,10) by (auto split: if_splits)
  have obj': "\<exists>x. pr_conns w' i = Some x \<and> tc_name x = tc_name e" if "pr_conns w i = Some e" for i e
    using that md(2,3,10) by auto
  show ?thesis
    unfolding process_ok_def name fields
  proof (intro conjI allI impI)
    show "server_ok (pr_server w)" by (rule process_okD(1) [OF ok])
  next
    fix i x assume "pr_conns w' i = Some x"
    then show "tc_id x = i" "\<exists>n. 1 \<le> n \<and> n < ts_nextConnId (pr_server w) \<and> tc_name x = conn_name (pr_server w) n"
      using obj process_okD(2,3) [OF ok] by metis+
  next
    fix i j x y assume "pr_conns w' i = Some x" "pr_conns w' j = Some y" "tc_name x = tc_name y"
    then show "i = j" using obj process_okD(4) [OF ok] by metis
  next
    fix x i assume "ts_connections (pr_server w') x = Some i"
    then show "\<exists>e. pr_conns w' i = Some e \<and> tc_name e = x" using table process_okD(5) [OF ok] obj' by metis
  qed
qed

lemma moved_fits:
  assumes m: "moves V c w c' w'" and f: "fits w l t" and up: "tc_state c' \<noteq> kConnecting"
    and est: "t = ConnectEstablished (tc_id c) \<Longrightarrow> False"
  shows "fits w' l t"
proof -
  note md = movesD [OF m]
  have s: "tc_state c = kDisconnected \<Longrightarrow> tc_state c' = kDisconnected" using same_ident_down [OF md(5)] .
  show ?thesis
    using f est md(2,3,11,13) s up by (cases t) auto
qed

lemma posts_fits:
  assumes p: "posts c main l t" and "pr_conns w (tc_id c) = Some c" and "main = ts_loop (pr_server w)" and "tc_state c \<noteq> kConnecting"
  shows "fits w l t"
  using assms by (auto simp: posts_def posted_def)

lemma conn_ok_known: "conn_ok V (conn_view c w) \<Longrightarrow>
    known V (el_poller (pr_loops w (tc_loop c)), pr_kern w) (ConnChannelOf (tc_id c)) (tc_channel c) \<and>
    ch_fd (tc_channel c) = tc_sockfd c"
  using conn_ok_linked [of V "conn_view c w"] by (simp add: linked_def self_ptr_def)

lemma known_registered:
  assumes "conn_ok V (conn_view c w)" and "registered V w (tc_loop c) (tc_sockfd c) p"
  shows "p = ConnChannelOf (tc_id c)" "ch_index (tc_channel c) \<noteq> kNew"
  using conn_ok_known [OF assms(1)] assms(2) by (auto simp: registered_def known_def interest_def index_defs)

lemma moved_registered:
  assumes ok: "conn_ok V (conn_view c' w')" and m: "moves V c w c' w'"
    and inj: "inj_on (\<lambda>l. ep_epollfd (el_poller (pr_loops w l))) L" "l \<in> L" "tc_loop c \<in> L"
    and home: "\<And>f p. registered V w l f p \<Longrightarrow> at_home w l f p" and r: "registered V w' l f p"
  shows "at_home w' l f p"
proof -
  note md = movesD [OF m]
  show ?thesis
  proof (cases "l = tc_loop c \<and> f = tc_sockfd c")
    case True
    then have "p = ConnChannelOf (tc_id c')" using known_registered(1) [OF ok] r md(11,12) by simp
    then show ?thesis using True md(4,9,11,12) by simp
  next
    case False
    have "ep_epollfd (el_poller (pr_loops w l)) \<noteq> ep_epollfd (el_poller (pr_loops w (tc_loop c))) \<or> f \<noteq> tc_sockfd c"
      using False inj by (auto simp: inj_on_def)
    then have "registered V w l f p"
      using r md(7,8) False unfolding registered_def same_fds_def same_loop_def by metis
    then have h: "at_home w l f p" by (rule home)
    have acc: "ts_acceptor (pr_server w') = ts_acceptor (pr_server w)"
      using md(6) by (auto simp: same_table_def)
    show ?thesis
      using h md(2,3,8,11,12,13) acc by (cases p) (auto simp: same_loop_def)
  qed
qed

lemma moved_sound_other:
  assumes m: "moves V c w c' w'" and g: "grown c' (ts_loop (pr_server w)) q q'" and e: "sound V w q e"
    and ne: "tc_id e \<noteq> tc_id c" "tc_name e \<noteq> tc_name c" "tc_sockfd e \<noteq> tc_sockfd c"
  shows "sound V w' q' e"
proof -
  note md = movesD [OF m] and sd = soundD [OF e]
  have L: "server_loops (pr_server w') = server_loops (pr_server w)" by (rule same_table_loops [OF md(6)])
  have T: "ts_connections (pr_server w') (tc_name e) = ts_connections (pr_server w) (tc_name e)"
    using md(6) ne(2) by (auto simp: same_table_def)
  have "leaving q' e w'" if "leaving q e w"
    using that T md(13) grown_mono [OF g] unfolding leaving_def by auto
  moreover have "gone e w'" if "gone e w" using that T by (simp add: gone_def)
  moreover have "ep_epollfd (el_poller (pr_loops w' l)) = ep_epollfd (el_poller (pr_loops w l))"
      "el_wakeupFd (pr_loops w' l) = el_wakeupFd (pr_loops w l)" for l
    using md(8) by (simp_all add: same_loop_def)
  ultimately show ?thesis
    using sd other_ok [OF m ne(3) sd(1)] T unfolding sound_def L grown_established [OF g] by auto
qed

lemma safe_moves:
  assumes s: "safe V w q d" and m: "moves V c w c' w'" and ok: "conn_ok V (conn_view c' w')"
    and g: "grown c' (ts_loop (pr_server w)) q q'" and p: "\<And>l. set (pending w' l) \<subseteq> set (q' l)"
    and up: "tc_state c' \<noteq> kConnecting" and est: "tc_state c = kConnecting \<Longrightarrow> ConnectEstablished (tc_id c) \<notin> set (q (tc_loop c))"
    and down: "tc_state c' = kDisconnected \<Longrightarrow> leaving q' c' w' \<or> gone c' w'"
    and ix: "index_kept c c' \<or> ConnChannelOf (tc_id c) \<notin> set (d (tc_loop c))"
  shows "safe V w' q' d"
proof -
  note md = movesD [OF m] and sd = safeD [OF s]
  let ?L = "server_loops (pr_server w)"
  have L: "server_loops (pr_server w') = ?L" by (rule same_table_loops [OF md(6)])
  have c: "sound V w q c" by (rule sd(4) [OF md(2)])
  have E: "ep_epollfd (el_poller (pr_loops w' l)) = ep_epollfd (el_poller (pr_loops w l))"
      "el_wakeupFd (pr_loops w' l) = el_wakeupFd (pr_loops w l)" for l
    using md(8) by (simp_all add: same_loop_def)
  have others: "tc_id e = i" "tc_name e \<noteq> tc_name c" "tc_sockfd e \<noteq> tc_sockfd c" "sound V w q e"
    if "pr_conns w i = Some e" "i \<noteq> tc_id c" for i e
  proof -
    show "tc_id e = i" "sound V w q e" by (rule sd(4,5) [OF that(1)])+
    show "tc_name e \<noteq> tc_name c" using process_okD(4) [OF sd(1) that(1) md(2)] that(2) by blast
    show "tc_sockfd e \<noteq> tc_sockfd c"
      using sd(3) [unfolded distinct_fds_def, THEN conjunct1, rule_format, OF that(1) md(2)] that(2) by blast
  qed
  have noest: "t = ConnectEstablished (tc_id c) \<Longrightarrow> False" if "l \<in> ?L" "t \<in> set (q l)" for l t
  proof -
    assume t: "t = ConnectEstablished (tc_id c)"
    then have "tc_loop c = l" "tc_state c = kConnecting" using sd(6) [OF that] md(2) by auto
    then show False using est that(2) t by simp
  qed
  show ?thesis
    unfolding safe_def L
  proof (intro conjI ballI allI impI)
    show "process_ok w'" by (rule moved_process_ok [OF sd(1) m])
    show "tp_baseLoop (ts_threadPool (pr_server w')) = ts_loop (pr_server w')"
      using sd(2) md(6) by (auto simp: same_table_def)
    show "distinct_fds w'"
      unfolding distinct_fds_def L E
      using sd(3) md(2,3,12) unfolding distinct_fds_def by (auto split: if_splits)
  next
    fix i e assume e: "pr_conns w' i = Some e"
    show "sound V w' q' e"
    proof (cases "i = tc_id c")
      case False
      then have "pr_conns w i = Some e" using e md(3) by simp
      from others [OF this False] False show ?thesis by (intro moved_sound_other [OF m g]) auto
    next
      case True
      then have "e = c'" using e md(3) by simp
      moreover have "ts_connections (pr_server w') (tc_name c) = Some (tc_id c)" if "tc_state c' \<noteq> kDisconnected"
        using md(6) that soundD(4) [OF c] same_ident_down [OF md(5)] by (auto simp: same_table_def)
      ultimately show ?thesis
        using ok soundD [OF c] down up md(9,10,11,12) unfolding sound_def L E grown_established [OF g] by auto
    qed
  next
    fix l t assume l: "l \<in> ?L" and t: "t \<in> set (q' l)"
    from grown_new [OF g t] show "fits w' l t"
    proof
      assume "t \<in> set (q l)"
      then show ?thesis using moved_fits [OF m sd(6) [OF l] up noest [OF l]] by blast
    next
      assume "posts c' (ts_loop (pr_server w)) l t"
      then show ?thesis using posts_fits md(4,13) up by metis
    qed
  next
    fix l p assume l: "l \<in> ?L" and p: "p \<in> set (d l)"
    have "dispatchable w l p" by (rule sd(7) [OF l p])
    then show "dispatchable w' l p"
      using md(2,3,11,13) ix p by (cases p) (auto simp: index_kept_def)
  next
    fix l f p assume l: "l \<in> ?L" and r: "registered V w' l f p"
    show "at_home w' l f p"
      by (rule moved_registered [OF ok m _ l _ sd(8) [OF l] r]) (use sd(3) soundD(2) [OF c] in \<open>auto simp: distinct_fds_def\<close>)
  qed
qed

section \<open>Lemmas: nothing but events, clocks and flags changes\<close>

definition plain :: "tcpconnection \<Rightarrow> tcpconnection" where
  "plain c = c\<lparr>tc_channel := set_revents 0 (tc_channel c)\<rparr>"

definition alike :: "'k view \<Rightarrow> 'k process \<Rightarrow> 'k process \<Rightarrow> bool" where
  "alike V w w' \<longleftrightarrow> (\<exists>a. pr_server w' = (pr_server w)\<lparr>ts_acceptor := a\<rparr> \<and>
       ch_fd (ac_channel a) = ch_fd (ac_channel (ts_acceptor (pr_server w)))) \<and>
     (\<forall>i. map_option plain (pr_conns w' i) = map_option plain (pr_conns w i)) \<and>
     (\<forall>l. same_loop w w' l \<and> ep_channels (el_poller (pr_loops w' l)) = ep_channels (el_poller (pr_loops w l))) \<and>
     v_fin V (pr_kern w') = v_fin V (pr_kern w) \<and> v_reg V (pr_kern w') = v_reg V (pr_kern w)"

lemma alike_refl [simp]: "alike V w w"
  by (auto simp: alike_def intro: exI [of _ "ts_acceptor (pr_server w)"])

lemma alike_trans: "alike V w w1 \<Longrightarrow> alike V w1 w2 \<Longrightarrow> alike V w w2"
  by (auto simp: alike_def same_loop_def)

lemma plain_simps [simp]:
  "tc_id (plain c) = tc_id c" "tc_name (plain c) = tc_name c" "tc_loop (plain c) = tc_loop c"
  "tc_state (plain c) = tc_state c" "tc_sockfd (plain c) = tc_sockfd c" "ch_index (tc_channel (plain c)) = ch_index (tc_channel c)"
  by (simp_all add: plain_def set_revents_def)

lemma plain_eqD:
  assumes "plain c = plain e"
  shows "tc_id c = tc_id e" "tc_name c = tc_name e" "tc_loop c = tc_loop e" "tc_state c = tc_state e"
    "tc_sockfd c = tc_sockfd e" "ch_index (tc_channel c) = ch_index (tc_channel e)"
  using arg_cong [OF assms, of tc_id] arg_cong [OF assms, of tc_name] arg_cong [OF assms, of tc_loop]
    arg_cong [OF assms, of tc_state] arg_cong [OF assms, of tc_sockfd]
    arg_cong [OF assms, of "\<lambda>c. ch_index (tc_channel c)"] by simp_all

lemma conn_ok_plain: "conn_ok V (conn_view (plain c) w) = conn_ok V (conn_view c w)"
  by (simp add: conn_ok_def conn_core_def fin_sent_def self_ptr_def plain_def live_def ep_synced_def known_def
      set_revents_def isWriting_def)

lemma alike_conn_ok:
  assumes "alike V w w'" and "plain c' = plain c"
  shows "conn_ok V (conn_view c' w') = conn_ok V (conn_view c w)"
proof -
  let ?l = "tc_loop c"
  have f: "v_fin V (pr_kern w') = v_fin V (pr_kern w)" "v_reg V (pr_kern w') = v_reg V (pr_kern w)"
     "ep_channels (el_poller (pr_loops w' ?l)) = ep_channels (el_poller (pr_loops w ?l))"
     "ep_epollfd (el_poller (pr_loops w' ?l)) = ep_epollfd (el_poller (pr_loops w ?l))"
     "el_wakeupFd (pr_loops w' ?l) = el_wakeupFd (pr_loops w ?l)"
    using assms(1) by (simp_all add: alike_def same_loop_def)
  then have ep: "ep_synced V (el_poller (pr_loops w' ?l), pr_kern w') p ch = ep_synced V (el_poller (pr_loops w ?l), pr_kern w) p ch" for p ch
    by (simp add: ep_synced_def known_def interest_def)
  have "conn_ok V (conn_view c w') = conn_ok V (conn_view c w)"
    by (simp add: conn_ok_def conn_core_def fin_sent_def self_ptr_def ep) (simp add: f)
  then show ?thesis using conn_ok_plain [of V c w'] conn_ok_plain [of V c' w'] assms(2) by simp
qed

lemma alikeD:
  assumes "alike V w w'"
  shows "server_loops (pr_server w') = server_loops (pr_server w)" "ts_connections (pr_server w') = ts_connections (pr_server w)"
    "ts_loop (pr_server w') = ts_loop (pr_server w)" "ts_threadPool (pr_server w') = ts_threadPool (pr_server w)"
    "ch_fd (ac_channel (ts_acceptor (pr_server w'))) = ch_fd (ac_channel (ts_acceptor (pr_server w)))"
    "pr_conns w' i = Some c' \<Longrightarrow> \<exists>c. pr_conns w i = Some c \<and> plain c' = plain c"
    "pr_conns w i = Some c \<Longrightarrow> \<exists>c'. pr_conns w' i = Some c' \<and> plain c' = plain c"
    "el_wakeupFd (pr_loops w' l) = el_wakeupFd (pr_loops w l)"
    "ep_epollfd (el_poller (pr_loops w' l)) = ep_epollfd (el_poller (pr_loops w l))"
    "registered V w' l f p = registered V w l f p"
proof -
  have m: "map_option plain (pr_conns w' i) = map_option plain (pr_conns w i)" for i using assms by (simp add: alike_def)
  show "pr_conns w' i = Some c' \<Longrightarrow> \<exists>c. pr_conns w i = Some c \<and> plain c' = plain c"
    "pr_conns w i = Some c \<Longrightarrow> \<exists>c'. pr_conns w' i = Some c' \<and> plain c' = plain c"
    using m [of i] by (cases "pr_conns w i"; cases "pr_conns w' i"; simp)+
qed (use assms in \<open>auto simp: alike_def same_loop_def server_loops_def registered_def\<close>)

lemma alike_process_ok:
  assumes "process_ok w" and a: "alike V w w'"
  shows "process_ok w'"
proof -
  have s: "server_ok (pr_server w') = server_ok (pr_server w)" "ts_nextConnId (pr_server w') = ts_nextConnId (pr_server w)"
      "conn_name (pr_server w') n = conn_name (pr_server w) n" "ts_connections (pr_server w') = ts_connections (pr_server w)" for n
    using a by (auto simp: alike_def server_ok_def conn_name_def)
  note ok = process_okD [OF assms(1)]
  have obj: "\<exists>e. pr_conns w i = Some e \<and> tc_id e = tc_id c \<and> tc_name e = tc_name c" if o: "pr_conns w' i = Some c" for i c
  proof -
    obtain e where e: "pr_conns w i = Some e" "plain c = plain e" using alikeD(6) [OF a o] by blast
    from plain_eqD [OF e(2)] e(1) show ?thesis by simp
  qed
  have obj': "\<exists>c. pr_conns w' i = Some c \<and> tc_name c = tc_name e" if o: "pr_conns w i = Some e" for i e
  proof -
    obtain c where c: "pr_conns w' i = Some c" "plain c = plain e" using alikeD(7) [OF a o] by blast
    from plain_eqD(2) [OF c(2)] c(1) show ?thesis by simp
  qed
  show ?thesis
    unfolding process_ok_def s
  proof (intro conjI allI impI)
    show "server_ok (pr_server w)" by (rule ok(1))
  next
    fix i c assume "pr_conns w' i = Some c"
    then obtain e where e: "pr_conns w i = Some e" "tc_id e = tc_id c" "tc_name e = tc_name c" using obj by blast
    show "tc_id c = i" using ok(2) [OF e(1)] e(2) by simp
    show "\<exists>n. 1 \<le> n \<and> n < ts_nextConnId (pr_server w) \<and> tc_name c = conn_name (pr_server w) n"
      using ok(3) [OF e(1)] e(3) by simp
  next
    fix i j c d assume "pr_conns w' i = Some c" "pr_conns w' j = Some d" and n: "tc_name c = tc_name d"
    then obtain e f where "pr_conns w i = Some e" "tc_name e = tc_name c" "pr_conns w j = Some f" "tc_name f = tc_name d"
      using obj by blast
    then show "i = j" using ok(4) n by simp
  next
    fix name i assume "ts_connections (pr_server w) name = Some i"
    then obtain e where "pr_conns w i = Some e" "tc_name e = name" using ok(5) by blast
    then show "\<exists>c. pr_conns w' i = Some c \<and> tc_name c = name" using obj' by blast
  qed
qed

lemma alike_sound:
  assumes "sound V w q c" and a: "alike V w w'" and p: "plain c' = plain c"
  shows "sound V w' q c'"
  using assms(1) alike_conn_ok [OF a p] alikeD(1,2,3,8,9) [OF a] plain_eqD [OF p]
  by (auto simp: sound_def leaving_def gone_def)

lemma alike_object:
  assumes "alike V w w'" and "pr_conns w i = Some c"
  shows "\<exists>c'. pr_conns w' i = Some c' \<and> tc_loop c' = tc_loop c \<and> tc_state c' = tc_state c \<and> tc_sockfd c' = tc_sockfd c \<and>
    ch_index (tc_channel c') = ch_index (tc_channel c)"
proof -
  obtain c' where c': "pr_conns w' i = Some c'" "plain c' = plain c" using alikeD(7) [OF assms] by blast
  from plain_eqD [OF c'(2)] c'(1) show ?thesis by simp
qed

lemma alike_at_home:
  assumes a: "alike V w w'" and "at_home w l f p"
  shows "at_home w' l f p"
  using assms(2) alikeD(3,5,8) [OF a] by (cases p) (auto dest!: alike_object [OF a])

lemma alike_dispatchable:
  assumes a: "alike V w w'" and "dispatchable w l p"
  shows "dispatchable w' l p"
  using assms(2) alikeD(3) [OF a] by (cases p) (auto dest!: alike_object [OF a])

lemma alike_fits:
  assumes a: "alike V w w'" and "fits w l t"
  shows "fits w' l t"
  using assms(2) alikeD(3) [OF a] by (cases t) (auto dest!: alike_object [OF a])

lemma safe_alike:
  assumes s: "safe V w q d" and a: "alike V w w'"
  shows "safe V w' q d"
proof -
  note sd = safeD [OF s] and ad = alikeD [OF a]
  have "distinct_fds w'"
    unfolding distinct_fds_def
  proof (intro conjI allI impI)
    fix i j c e assume "pr_conns w' i = Some c" "pr_conns w' j = Some e" "tc_sockfd c = tc_sockfd e"
    then obtain c0 e0 where "pr_conns w i = Some c0" "plain c = plain c0" "pr_conns w j = Some e0" "plain e = plain e0"
      and "tc_sockfd c = tc_sockfd e" using ad(6) by blast
    with plain_eqD(5) [of c c0] plain_eqD(5) [of e e0] sd(3) show "i = j" by (simp add: distinct_fds_def)
  qed (use sd(3) ad(1,9) in \<open>simp add: distinct_fds_def\<close>)
  moreover have "sound V w' q c" if o: "pr_conns w' i = Some c" for i c
  proof -
    obtain c0 where "pr_conns w i = Some c0" "plain c = plain c0" using ad(6) [OF o] by blast
    then show ?thesis using alike_sound [OF sd(4) a] by simp
  qed
  ultimately show ?thesis
    unfolding safe_def ad(1,3,4,10)
    by (intro conjI ballI allI impI alike_process_ok [OF sd(1) a] sd(2) alike_fits [OF a] alike_dispatchable [OF a]
      alike_at_home [OF a] sd(6,7,8))
qed

section \<open>Lemmas: functors leave the queue\<close>

text \<open>The first functor of a loop is taken out: what must hold is that nothing rests on it.\<close>

lemma safe_pop:
  assumes s: "safe V w q d" and q: "q l = t # ts"
    and rest: "\<And>i c. pr_conns w i = Some c \<Longrightarrow> t = RemoveConnectionInLoop i \<or> t = ConnectDestroyed i \<Longrightarrow>
      tc_state c = kDisconnected \<Longrightarrow> leaving (q(l := ts)) c w \<or> gone c w"
  shows "safe V w (q(l := ts)) d"
proof -
  note sd = safeD [OF s]
  have "sound V w (q(l := ts)) c" if c: "pr_conns w i = Some c" for i c
  proof -
    have so: "sound V w q c" and id: "tc_id c = i" using sd(4,5) [OF c] by auto
    have "leaving (q(l := ts)) c w \<or> gone c w" if down: "tc_state c = kDisconnected"
    proof (cases "t = RemoveConnectionInLoop i \<or> t = ConnectDestroyed i")
      case False
      then have "leaving q c w \<Longrightarrow> leaving (q(l := ts)) c w" using q id by (auto simp: leaving_def)
      then show ?thesis using soundD(5) [OF so down] by blast
    qed (use rest [OF c _ down] in blast)
    moreover have "length (filter (\<lambda>t. t = ConnectEstablished (tc_id c)) ((q(l := ts)) (tc_loop c))) \<le> 1"
      using soundD(7) [OF so] q by (auto split: if_splits)
    ultimately show ?thesis using so by (simp add: sound_def)
  qed
  moreover have "set ((q(l := ts)) m) \<subseteq> set (q m)" for m using q by auto
  ultimately show ?thesis using s unfolding safe_def by blast
qed

text \<open>The functor that establishes a new connection is put in.\<close>

lemma safe_put:
  assumes s: "safe V w q d" and c: "pr_conns w i = Some c" "tc_state c = kConnecting"
    and no: "ConnectEstablished i \<notin> set (q (tc_loop c))"
  shows "safe V w (q(tc_loop c := q (tc_loop c) @ [ConnectEstablished i])) d"
proof -
  note sd = safeD [OF s]
  let ?q = "q(tc_loop c := q (tc_loop c) @ [ConnectEstablished i])"
  have "sound V w ?q e" if e: "pr_conns w j = Some e" for j e
  proof -
    have so: "sound V w q e" and id: "tc_id e = j" using sd(4,5) [OF e] by auto
    have "filter (\<lambda>t. t = ConnectEstablished i) (q (tc_loop c)) = []" using no by (auto simp: filter_empty_conv)
    then have "length (filter (\<lambda>t. t = ConnectEstablished (tc_id e)) (?q (tc_loop e))) \<le> 1"
      using soundD(7) [OF so] id by (cases "j = i") auto
    moreover have "leaving q e w \<Longrightarrow> leaving ?q e w" by (rule leaving_subset) auto
    ultimately show ?thesis using so by (auto simp: sound_def)
  qed
  then show ?thesis using s c by (auto simp: safe_def)
qed

section \<open>Lemmas: objects come and go\<close>

lemma at_home_in_use: "l \<in> server_loops (pr_server w) \<Longrightarrow> at_home w l f p \<Longrightarrow> in_use w f"
  by (cases p) (auto simp: in_use_def)

lemma fits_object: "fits w l t \<Longrightarrow> \<exists>i. task_ref t = Some i \<and> pr_conns w i \<noteq> None"
  by (cases t) auto

lemma new_object_ok:
  assumes s: "safe V w q d" and c: "new_object self name f c" and l: "tc_loop c \<in> server_loops (pr_server w)"
    and f: "\<not> in_use w f" and k: "new_fd V f (pr_kern w) k"
  shows "conn_ok V (conn_view c (with_connection p c k w))"
proof -
  have "ep_channels (el_poller (pr_loops w (tc_loop c))) f = None"
  proof (cases "ep_channels (el_poller (pr_loops w (tc_loop c))) f")
    case (Some p)
    then have "at_home w (tc_loop c) f p" by (intro safeD(8) [OF s l]) (simp add: registered_def)
    with at_home_in_use [OF l] f show ?thesis by blast
  qed simp
  moreover have "f \<noteq> el_wakeupFd (pr_loops w (tc_loop c))" using f l by (auto simp: in_use_def)
  moreover have "\<not> isWriting (Channel_init f)" by (simp add: Channel_init_def isWriting_def)
  ultimately show ?thesis
    using c k by (simp add: new_object_def new_fd_def conn_ok_def conn_core_def fin_sent_def self_ptr_def live_def
        ep_synced_def known_new interest_def) (simp add: Channel_init_def index_defs)
qed

lemma safe_new:
  assumes s: "safe V w q d" and n: "ts_nextConnId (pr_server w) < 2147483647" and fresh: "pr_conns w self = None"
    and c: "new_object self (conn_name (pr_server w) (ts_nextConnId (pr_server w))) f c"
    and l: "tc_loop c \<in> server_loops (pr_server w)"
    and p: "pool_ok p" "getAllLoops p = getAllLoops (ts_threadPool (pr_server w))" "tp_baseLoop p = tp_baseLoop (ts_threadPool (pr_server w))"
    and f: "\<not> in_use w f" and k: "new_fd V f (pr_kern w) k"
  shows "safe V (with_connection p c k w) q d" and "m \<in> server_loops (pr_server w) \<Longrightarrow> ConnectEstablished self \<notin> set (q m)"
proof -
  note sd = safeD [OF s]
  let ?w = "with_connection p c k w" and ?L = "server_loops (pr_server w)"
  have cd: "tc_id c = self" "tc_sockfd c = f" "tc_state c = kConnecting" "ch_index (tc_channel c) = kNew"
      "tc_name c = conn_name (pr_server w) (ts_nextConnId (pr_server w))"
    using c by (simp_all add: new_object_def Channel_init_def index_defs)
  have L: "server_loops (pr_server ?w) = ?L" using p(2) by (simp add: server_loops_def)
  have acc: "ts_acceptor (pr_server ?w) = ts_acceptor (pr_server w)" by (simp add: with_connection_def upd_server_def)
  have free: "ts_connections (pr_server w) (tc_name c) = None" and pok: "process_ok ?w"
    using with_connection_ok [OF sd(1) n c p(1) fresh] cd(5) by simp_all
  have noref: "task_ref t \<noteq> Some self" if "m \<in> ?L" "t \<in> set (q m)" for m t
    using fits_object [OF sd(6) [OF that]] fresh by auto
  show est: "m \<in> ?L \<Longrightarrow> ConnectEstablished self \<notin> set (q m)" for m using noref by fastforce
  have fd: "tc_sockfd e \<noteq> f" if "pr_conns w i = Some e" for i e using f that by (auto simp: in_use_def)
  have same: "same_at V w ?w m g" if "g \<noteq> f" for m g
    using k that by (simp add: same_at_def same_loop_def new_fd_def)
  show "safe V ?w q d"
    unfolding safe_def L
  proof (intro conjI ballI allI impI)
    show "process_ok ?w" by (rule pok)
    show "tp_baseLoop (ts_threadPool (pr_server ?w)) = ts_loop (pr_server ?w)" using sd(2) p(3) by simp
    show "distinct_fds ?w"
      using sd(3) cd(1,2) by (auto simp: distinct_fds_def L dest: fd)
  next
    fix i e assume e: "pr_conns ?w i = Some e"
    show "sound V ?w q e"
    proof (cases "i = self")
      case True
      then have "e = c" using e cd(1) by simp
      moreover have "f \<noteq> ep_epollfd (el_poller (pr_loops w m))" "f \<noteq> el_wakeupFd (pr_loops w m)" if "m \<in> ?L" for m
        using f that by (auto simp: in_use_def)
      moreover have "filter (\<lambda>t. t = ConnectEstablished self) (q (tc_loop c)) = []"
        using est [OF l] by (auto simp: filter_empty_conv)
      ultimately show ?thesis
        using new_object_ok [OF s c l f k] cd l by (simp add: sound_def L)
    next
      case False
      then have o: "pr_conns w i = Some e" using e cd(1) by simp
      have so: "sound V w q e" and id: "tc_id e = i" using sd(4,5) [OF o] by auto
      have nm: "tc_name e \<noteq> tc_name c"
      proof
        assume nm: "tc_name e = tc_name c"
        have "pr_conns ?w self = Some c" using cd(1) by simp
        from process_okD(4) [OF pok e this nm] False show False by simp
      qed
      have "conn_ok V (conn_view e ?w)" by (rule same_at_ok [OF same [OF fd [OF o]] soundD(1) [OF so]])
      then show ?thesis using so nm by (simp add: sound_def L leaving_def gone_def)
    qed
  next
    fix m t assume "m \<in> ?L" "t \<in> set (q m)"
    then have "fits w m t" "task_ref t \<noteq> Some self" using sd(6) noref by blast+
    then show "fits ?w m t" using cd(1) by (cases t) auto
  next
    fix m p assume "m \<in> ?L" "p \<in> set (d m)"
    then have "dispatchable w m p" by (rule sd(7))
    then show "dispatchable ?w m p" using cd(1) fresh by (cases p) auto
  next
    fix m g p assume m: "m \<in> ?L" and r: "registered V ?w m g p"
    have "registered V w m g p"
      using r k by (cases "g = f") (simp_all add: registered_def new_fd_def)
    then have "at_home w m g p" by (rule sd(8) [OF m])
    then show "at_home ?w m g p" using cd(1) fresh acc by (cases p) auto
  qed
qed

lemma unreferenced_gone:
  assumes s: "safe V w q d" and u: "unreferenced w q i" and c: "pr_conns w i = Some c"
  shows "tc_state c = kDisconnected" "ch_index (tc_channel c) = kNew"
proof -
  have so: "sound V w q c" and id: "tc_id c = i" using safeD(4,5) [OF s c] by auto
  have t: "ts_connections (pr_server w) (tc_name c) \<noteq> Some i" using u by (simp add: unreferenced_def)
  then show down: "tc_state c = kDisconnected" using soundD(4) [OF so] id by auto
  have ref: "task_ref t \<noteq> Some i" if "m \<in> server_loops (pr_server w)" "t \<in> set (q m)" for m t
    using u that by (simp add: unreferenced_def)
  have "RemoveConnectionInLoop i \<notin> set (q (ts_loop (pr_server w)))" "ConnectDestroyed i \<notin> set (q (tc_loop c))"
    using ref [of "ts_loop (pr_server w)" "RemoveConnectionInLoop i"] ref [OF soundD(2) [OF so], of "ConnectDestroyed i"]
    by (auto simp: server_loops_def)
  then have "\<not> leaving q c w" using id by (simp add: leaving_def)
  then show "ch_index (tc_channel c) = kNew" using soundD(5) [OF so down] by (simp add: gone_def)
qed

lemma safe_free:
  assumes s: "safe V w q d" and u: "unreferenced w q i" and docs: "close_doc S V" "close_own_doc S V"
    and r: "TcpConnection_destroy S i w = Inr w'"
  shows "safe V w' q d"
proof -
  note sd = safeD [OF s]
  let ?L = "server_loops (pr_server w)"
  obtain c where c: "pr_conns w i = Some c"
      and w': "w' = w\<lparr>pr_kern := snd (sys_close S (tc_sockfd c) (pr_kern w)), pr_conns := (pr_conns w)(i := None)\<rparr>"
    using r by (auto simp: TcpConnection_destroy_def Socket_destroy_def split: option.splits)
  note new = unreferenced_gone [OF s u c]
  have so: "sound V w q c" by (rule sd(4) [OF c])
  have noref: "task_ref t \<noteq> Some i" if "m \<in> ?L" "t \<in> set (q m)" for m t
    using u that by (auto simp: unreferenced_def)
  have same: "same_at V w w' m g" if "g \<noteq> tc_sockfd c" "m \<in> ?L" for m g
    using docs(2) that soundD(3) [OF so that(2)] by (auto simp: same_at_def same_loop_def w' close_own_doc_def)
  show ?thesis
    unfolding safe_def
  proof (intro conjI ballI allI impI)
    show "process_ok w'"
      using sd(1) u by (auto simp: process_ok_def w' unreferenced_def)
    show "tp_baseLoop (ts_threadPool (pr_server w')) = ts_loop (pr_server w')" using sd(2) by (simp add: w')
    show "distinct_fds w'" using sd(3) by (auto simp: distinct_fds_def w')
  next
    fix j e assume "pr_conns w' j = Some e"
    then have o: "pr_conns w j = Some e" "j \<noteq> i" by (auto simp: w' split: if_splits)
    have se: "sound V w q e" by (rule sd(4) [OF o(1)])
    have "tc_sockfd e \<noteq> tc_sockfd c"
      using sd(3) [unfolded distinct_fds_def, THEN conjunct1, rule_format, OF o(1) c] o(2) by blast
    then have "conn_ok V (conn_view e w')"
      by (rule same_at_ok [OF same [OF _ soundD(2) [OF se]] soundD(1) [OF se]])
    then show "sound V w' q e" using se by (simp add: sound_def w' leaving_def gone_def)
  next
    fix m t assume "m \<in> server_loops (pr_server w')" "t \<in> set (q m)"
    then have "fits w m t" "task_ref t \<noteq> Some i" using sd(6) noref by (auto simp: w')
    then show "fits w' m t" by (cases t) (auto simp: w')
  next
    fix m p assume "m \<in> server_loops (pr_server w')" "p \<in> set (d m)"
    then have "dispatchable w m p" using sd(7) by (simp add: w')
    then show "dispatchable w' m p" using c new(2) by (cases p) (auto simp: w')
  next
    fix m g p assume m: "m \<in> server_loops (pr_server w')" and r: "registered V w' m g p"
    have mL: "m \<in> ?L" using m by (simp add: w')
    have rw: "registered V w m g p"
    proof (cases "g = tc_sockfd c")
      case False
      then show ?thesis using r same [OF False mL] by (auto simp: registered_def same_at_def same_loop_def)
    next
      case True
      have v: "v_reg V (pr_kern w') ep g \<in> {v_reg V (pr_kern w) ep g, None}" for ep
        using docs(1) by (simp add: w' close_doc_def)
      have "pr_loops w' m = pr_loops w m" by (simp add: w')
      with r v [of "ep_epollfd (el_poller (pr_loops w m))"] show ?thesis by (auto simp: registered_def)
    qed
    then have h: "at_home w m g p" by (rule sd(8) [OF mL])
    show "at_home w' m g p"
    proof (cases "p = ConnChannelOf i")
      case True
      then have "tc_loop c = m" "tc_sockfd c = g" using h c by auto
      then have "ch_index (tc_channel c) \<noteq> kNew"
        using known_registered(2) [OF soundD(1) [OF so]] rw by simp
      with new(2) show ?thesis by simp
    qed (use h in \<open>cases p; auto simp: w'\<close>)
  qed
qed

end
