(* ===== verification/ServerAlone.thy ===== *)
theory ServerAlone
  imports ServerSafety
begin

text \<open>
  What a step of one connection leaves alone of the others, objects, table, streams and registrations.
  The invariant \<open>safe\<close> keeps names and descriptors apart, so what an operation may touch by the theory
  ConnMoves is nothing of another connection. At the end, what every step keeps of every connection.
\<close>

text \<open>Except for the connections in \<open>X\<close>, every object is as before (but for the events last reported), with
  its entry in the table, its registration, its descriptor's stream and its open write end.\<close>

definition leaves_alone :: "'k view \<Rightarrow> conn_id set \<Rightarrow> 'k process \<Rightarrow> 'k process \<Rightarrow> bool" where
  "leaves_alone V X w w' \<longleftrightarrow> (\<forall>j e. j \<notin> X \<longrightarrow> pr_conns w j = Some e \<longrightarrow>
     (\<exists>e'. pr_conns w' j = Some e' \<and> plain e' = plain e) \<and>
     ts_connections (pr_server w') (tc_name e) = ts_connections (pr_server w) (tc_name e) \<and>
     v_sent V (pr_kern w') (tc_sockfd e) = v_sent V (pr_kern w) (tc_sockfd e) \<and> same_at V w w' (tc_loop e) (tc_sockfd e))"

lemma leaves_aloneD:
  assumes "leaves_alone V X w w'" and "j \<notin> X" and "pr_conns w j = Some e"
  shows "\<exists>e'. pr_conns w' j = Some e' \<and> plain e' = plain e"
    "ts_connections (pr_server w') (tc_name e) = ts_connections (pr_server w) (tc_name e)"
    "v_sent V (pr_kern w') (tc_sockfd e) = v_sent V (pr_kern w) (tc_sockfd e)" "same_at V w w' (tc_loop e) (tc_sockfd e)"
  using assms unfolding leaves_alone_def by blast+

lemma same_at_refl [simp]: "same_at V w w l g"
  by (simp add: same_at_def)

lemma same_at_trans: "same_at V w w1 l g \<Longrightarrow> same_at V w1 w2 l g \<Longrightarrow> same_at V w w2 l g"
  by (simp add: same_at_def same_loop_def)

lemma leaves_refl [simp]: "leaves_alone V X w w"
  by (auto simp: leaves_alone_def)

lemma leaves_mono: "leaves_alone V X w w' \<Longrightarrow> X \<subseteq> Y \<Longrightarrow> leaves_alone V Y w w'"
  unfolding leaves_alone_def by blast

lemma leaves_trans:
  assumes "leaves_alone V X w w1" and "leaves_alone V X w1 w2"
  shows "leaves_alone V X w w2"
  unfolding leaves_alone_def
proof (intro allI impI)
  fix j e assume j: "j \<notin> X" and e: "pr_conns w j = Some e"
  note 1 = leaves_aloneD [OF assms(1) j e]
  obtain e1 where e1: "pr_conns w1 j = Some e1" "plain e1 = plain e" using 1(1) by blast
  note 2 = leaves_aloneD [OF assms(2) j e1(1)] and pe = plain_eqD [OF e1(2)]
  show "(\<exists>e'. pr_conns w2 j = Some e' \<and> plain e' = plain e) \<and>
     ts_connections (pr_server w2) (tc_name e) = ts_connections (pr_server w) (tc_name e) \<and>
     v_sent V (pr_kern w2) (tc_sockfd e) = v_sent V (pr_kern w) (tc_sockfd e) \<and> same_at V w w2 (tc_loop e) (tc_sockfd e)"
    using 1 2 e1(2) same_at_trans unfolding pe by metis
qed

lemma leaves_new: "pr_conns w i = None \<Longrightarrow> leaves_alone V {i} w w' \<Longrightarrow> leaves_alone V X w w'"
  unfolding leaves_alone_def by (metis option.distinct(1) singletonD)

lemma moves_leaves:
  assumes s: "safe V w q d" and m: "moves V c w c' w'"
  shows "leaves_alone V {tc_id c} w w'"
  unfolding leaves_alone_def
proof (intro allI impI)
  fix j e assume j: "j \<notin> {tc_id c}" and e: "pr_conns w j = Some e"
  note md = movesD [OF m] and sd = safeD [OF s]
  have o: "pr_conns w' j = Some e" using md(3) j e by simp
  have name: "tc_name e \<noteq> tc_name c" using process_okD(4) [OF sd(1) e md(2)] j by blast
  have fd: "tc_sockfd e \<noteq> tc_sockfd c"
    using sd(3) [unfolded distinct_fds_def, THEN conjunct1, rule_format, OF e md(2)] j by blast
  note so = sd(4) [OF e]
  have wake: "tc_sockfd e \<noteq> el_wakeupFd (pr_loops w (tc_loop c))" "tc_sockfd e \<noteq> el_wakeupFd (pr_loops w (ts_loop (pr_server w)))"
    using soundD(8) [OF so] soundD(2) [OF sd(4) [OF md(2)]] by (simp_all add: server_loops_def)
  have "v_sent V (pr_kern w') (tc_sockfd e) = v_sent V (pr_kern w) (tc_sockfd e)"
    using md(7) fd wake by (simp add: same_fds_def)
  moreover have "same_at V w w' (tc_loop e) (tc_sockfd e)"
    using md(7,8) fd by (simp add: same_at_def same_fds_def same_loop_def)
  moreover have "ts_connections (pr_server w') (tc_name e) = ts_connections (pr_server w) (tc_name e)"
    using md(6) name by (auto simp: same_table_def)
  ultimately show "(\<exists>e'. pr_conns w' j = Some e' \<and> plain e' = plain e) \<and>
     ts_connections (pr_server w') (tc_name e) = ts_connections (pr_server w) (tc_name e) \<and>
     v_sent V (pr_kern w') (tc_sockfd e) = v_sent V (pr_kern w) (tc_sockfd e) \<and> same_at V w w' (tc_loop e) (tc_sockfd e)"
    using o by blast
qed

lemma alike_leaves:
  assumes a: "alike V w w'" and "\<And>j e. pr_conns w j = Some e \<Longrightarrow> v_sent V (pr_kern w') (tc_sockfd e) = v_sent V (pr_kern w) (tc_sockfd e)"
  shows "leaves_alone V X w w'"
proof -
  have "same_at V w w' l g" for l g using a by (simp add: alike_def same_at_def)
  then show ?thesis using assms(2) alikeD(2,7) [OF a] unfolding leaves_alone_def by metis
qed

section \<open>What every step carries on\<close>

text \<open>Whatever happens to a living connection, its identity stays, its state only advances, and its
  stream only grows: what is sent stays sent, and what waits in the output buffer stays behind it.\<close>

definition lives_on :: "'k view \<Rightarrow> tcpconnection \<Rightarrow> 'k process \<Rightarrow> tcpconnection \<Rightarrow> 'k process \<Rightarrow> bool" where
  "lives_on V c w c' w' \<longleftrightarrow> same_ident c c' \<and> (v_fin V (pr_kern w) (tc_sockfd c) \<longrightarrow> v_fin V (pr_kern w') (tc_sockfd c)) \<and>
     prefix (v_sent V (pr_kern w) (tc_sockfd c)) (v_sent V (pr_kern w') (tc_sockfd c)) \<and>
     prefix (v_sent V (pr_kern w) (tc_sockfd c) @ readable (tc_outputBuffer c))
       (v_sent V (pr_kern w') (tc_sockfd c) @ readable (tc_outputBuffer c'))"

definition carries :: "'k view \<Rightarrow> 'k process \<Rightarrow> 'k process \<Rightarrow> bool" where
  "carries V w w' \<longleftrightarrow> (\<forall>j e. pr_conns w j = Some e \<longrightarrow> (\<exists>e'. pr_conns w' j = Some e' \<and> lives_on V e w e' w'))"

lemma lives_on_refl [simp]: "lives_on V c w c w"
  by (simp add: lives_on_def)

lemma lives_on_trans: "lives_on V c w c1 w1 \<Longrightarrow> lives_on V c1 w1 c2 w2 \<Longrightarrow> lives_on V c w c2 w2"
  by (auto simp: lives_on_def same_ident_def intro: prefix_order.trans)

lemma carries_refl [simp]: "carries V w w"
  by (auto simp: carries_def)

lemma carries_trans: "carries V w w1 \<Longrightarrow> carries V w1 w2 \<Longrightarrow> carries V w w2"
  unfolding carries_def by (metis lives_on_trans)

lemma alone_lives_on:
  assumes "leaves_alone V X w w'" and "j \<notin> X" and "pr_conns w j = Some e"
  shows "\<exists>e'. pr_conns w' j = Some e' \<and> lives_on V e w e' w'"
proof -
  note a = leaves_aloneD [OF assms]
  obtain e' where e': "pr_conns w' j = Some e'" "plain e' = plain e" using a(1) by blast
  have "tc_outputBuffer e' = tc_outputBuffer e" using arg_cong [OF e'(2), of tc_outputBuffer] by (simp add: plain_def)
  then show ?thesis using e' a(3,4) plain_eqD [OF e'(2)] by (auto simp: lives_on_def same_ident_def same_at_def)
qed

lemma leaves_carries: "leaves_alone V {} w w' \<Longrightarrow> carries V w w'"
  unfolding carries_def using alone_lives_on by blast

lemma moves_carries:
  assumes s: "safe V w q d" and m: "moves V c w c' w'"
  shows "carries V w w'"
  unfolding carries_def
proof (intro allI impI)
  fix j e assume e: "pr_conns w j = Some e"
  note md = movesD [OF m]
  show "\<exists>e'. pr_conns w' j = Some e' \<and> lives_on V e w e' w'"
  proof (cases "j = tc_id c")
    case True
    then have "e = c" using e md(2) by simp
    moreover have "tc_sockfd c \<noteq> el_wakeupFd (pr_loops w (ts_loop (pr_server w)))"
      using soundD(8) [OF safeD(4) [OF s md(2)]] by (simp add: server_loops_def)
    ultimately show ?thesis using md(4,5,9,16) True by (simp add: lives_on_def flows_def)
  qed (use alone_lives_on [OF moves_leaves [OF s m]] e in auto)
qed

end
