(* ===== verification/ServerRun.thy ===== *)
theory ServerRun
  imports ServerAlone
begin

text \<open>
  The server at work (src/src/EventLoop.cpp \<open>loop\<close> and \<open>doPendingFunctors\<close>, run by the threads of all
  loops): one step of a thread polls, handles one ready channel, takes the queue, runs one functor or
  ends the round; the steps of different threads interleave. Every step keeps the invariant \<open>safe\<close>.
  An object nothing refers to may be destroyed at any moment, also earlier than the code does, which
  keeps the functors of a batch, and what they bind, until the batch is done.
\<close>

section \<open>Lemmas: one step of a thread\<close>

text \<open>No step of a loop changes which loops there are and whose threads they are.\<close>

definition same_threads :: "'k process \<Rightarrow> 'k process \<Rightarrow> bool" where
  "same_threads w w' \<longleftrightarrow> pr_tid w' = pr_tid w \<and> (\<forall>l. el_threadId (pr_loops w' l) = el_threadId (pr_loops w l)) \<and>
     server_loops (pr_server w') = server_loops (pr_server w) \<and> ts_loop (pr_server w') = ts_loop (pr_server w)"

lemma moves_threads: "moves V c w c' w' \<Longrightarrow> same_threads w w'"
  using movesD(1,6,8,13) [of V c w c' w'] by (simp add: same_threads_def same_loop_def same_table_loops)

lemma same_threads_refl [simp]: "same_threads w w"
  by (simp add: same_threads_def)

lemma same_threads_kern [simp]: "same_threads w (w\<lparr>pr_kern := k\<rparr>)" "same_threads (w\<lparr>pr_kern := k\<rparr>) w' = same_threads w w'"
  by (simp_all add: same_threads_def)

lemma same_threads_trans: "same_threads w w1 \<Longrightarrow> same_threads w1 w2 \<Longrightarrow> same_threads w w2"
  by (simp add: same_threads_def)

lemma same_threads_queued [simp]: "same_threads w (queued S l t w') = same_threads w w'"
  by (auto simp: same_threads_def)

text \<open>The step of a thread, as far as the connections not in \<open>X\<close> are concerned.\<close>

definition turned :: "'k view \<Rightarrow> conn_id set \<Rightarrow> 'k process \<Rightarrow> 'k process \<Rightarrow> bool" where
  "turned V X w w' \<longleftrightarrow> same_threads w w' \<and> leaves_alone V X w w' \<and> carries V w w'"

lemma turned_refl [simp]: "turned V X w w"
  by (simp add: turned_def)

lemma turned_trans: "turned V X w w1 \<Longrightarrow> turned V X w1 w2 \<Longrightarrow> turned V X w w2"
  by (auto simp: turned_def intro: same_threads_trans leaves_trans carries_trans)

lemma moves_turned: "safe V w q d \<Longrightarrow> moves V c w c' w' \<Longrightarrow> turned V {tc_id c} w w'"
  by (simp add: turned_def moves_threads moves_leaves moves_carries)

lemma turned_quiet: "same_threads w w' \<Longrightarrow> leaves_alone V {} w w' \<Longrightarrow> turned V X w w'"
  by (auto simp: turned_def leaves_carries intro: leaves_mono)

lemma same_view_alike: "same_view V (pr_kern w) k \<Longrightarrow> alike V w (w\<lparr>pr_kern := k\<rparr>)"
  by (auto simp: alike_def same_view_def same_loop_def intro: exI [of _ "ts_acceptor (pr_server w)"])

lemma same_view_turned: "same_view V (pr_kern w) k \<Longrightarrow> turned V X w (w\<lparr>pr_kern := k\<rparr>)"
  by (rule turned_quiet) (auto simp: same_view_def intro!: alike_leaves same_view_alike [unfolded same_view_def])

lemma in_thread_alike [simp]: "alike V w (in_thread l w)"
  by (auto simp: alike_def in_thread_def same_loop_def intro: exI [of _ "ts_acceptor (pr_server w)"])

lemma in_thread_simps [simp]:
  "pr_conns (in_thread l w) = pr_conns w" "pr_server (in_thread l w) = pr_server w" "pr_loops (in_thread l w) = pr_loops w"
  "pr_kern (in_thread l w) = pr_kern w" "pr_mem (in_thread l w) = pr_mem w" "pr_tid (in_thread l w) = el_threadId (pr_loops w l)"
  "pending (in_thread l w) = pending w" "outstanding (in_thread l w) ph = outstanding w ph"
  by (simp_all add: in_thread_def pending_def fun_eq_iff outstanding_def)

lemma outstanding_kern [simp]: "outstanding (w\<lparr>pr_kern := k\<rparr>) ph = outstanding w ph"
  by (simp add: outstanding_def pending_def fun_eq_iff)

lemma conn_ok_thread [simp]: "conn_ok V (conn_view c (in_thread l w)) = conn_ok V (conn_view c w)"
  by (rule alike_conn_ok [OF in_thread_alike refl])

lemma outstanding_moves:
  assumes "moves V c w c' w'"
  shows "grown c' (ts_loop (pr_server w)) (outstanding w ph) (outstanding w' ph)"
    and "set (pending w' l) \<subseteq> set (outstanding w' ph l)"
  using movesD(14) [OF assms] by (auto simp: grown_def outstanding_def)

lemma settled:
  assumes m: "moves V c w c' w'" and so: "sound V w q c" and g: "\<And>l. set (q l) \<subseteq> set (q' l)"
    and p: "\<And>l. set (pending w' l) \<subseteq> set (q' l)" and down: "tc_state c' = kDisconnected"
    and r: "quiet c c' \<or> leaving (pending w') c' w'"
  shows "leaving q' c' w' \<or> gone c' w'"
proof (cases "leaving (pending w') c' w'")
  case True
  then show ?thesis using leaving_subset p by blast
next
  case False
  then have q: "tc_state c = kDisconnected" "ch_index (tc_channel c) = kNew \<Longrightarrow> ch_index (tc_channel c') = kNew"
    using r down by (auto simp: quiet_def)
  have "gone c' w'" if "gone c w"
    using that q(2) movesD(6,9,10) [OF m] by (auto simp: gone_def same_table_def)
  then show ?thesis using soundD(5) [OF so q(1)] leaving_mono [of V c w c' w' q q'] m g by blast
qed

lemma safe_progress:
  assumes s: "safe V w (outstanding w ph) d" and m: "progress V c w c' w'" and ok: "conn_ok V (conn_view c' w')"
    and up: "tc_state c' \<noteq> kConnecting"
    and est: "tc_state c = kConnecting \<Longrightarrow> ConnectEstablished (tc_id c) \<notin> set (outstanding w ph (tc_loop c))"
  shows "safe V w' (outstanding w' ph) d"
proof -
  have mv: "moves V c w c' w'" "index_kept c c'" "quiet c c' \<or> leaving (pending w') c' w'" using m by (auto simp: progress_def)
  note g = outstanding_moves [OF mv(1), where ph = ph]
  show ?thesis
    by (rule safe_moves [OF s mv(1) ok g up est])
      (use settled [OF mv(1) safeD(4) [OF s movesD(2) [OF mv(1)]] grown_mono [OF g(1)] g(2) _ mv(3)] mv(2) in auto)
qed

lemma progress_turned: "safe V w q d \<Longrightarrow> progress V c w c' w' \<Longrightarrow> turned V {tc_id c} w w'"
  by (auto simp: progress_def intro: moves_turned)

lemma up_stays: "same_ident c c' \<Longrightarrow> tc_state c \<noteq> kConnecting \<Longrightarrow> tc_state c' \<noteq> kConnecting"
  by (cases "tc_state c"; cases "tc_state c'") (auto simp: same_ident_def)

lemma safe_fewer:
  "safe V w q d \<Longrightarrow> (\<And>l. set (d' l) \<subseteq> set (d l)) \<Longrightarrow> safe V w q d'"
  unfolding safe_def by blast

subsection \<open>Handling events\<close>

lemma handle_wakeup_eq:
  "\<exists>k. handle_wakeup S t s = Inr (s\<lparr>st_kern := k\<rparr>) \<and> (k = st_kern s \<or> k = snd (sys_read S (el_wakeupFd (st_loop s)) 8 (st_kern s)))"
proof -
  have "s\<lparr>st_kern := st_kern s\<rparr> = s" by simp
  moreover have "handle_wakeup S t s = Inr s \<or> handle_wakeup S t s = Inr (handleRead S s)"
    by (auto simp: handle_wakeup_def handleEvent_def handleEventWithGuard_def wakeup_callbacks_def split: option.splits)
  ultimately show ?thesis by (metis handleRead_def)
qed

lemma on_loop_wakeup:
  assumes "passive_doc S V"
  shows "\<exists>w'. on_loop l (handle_wakeup S t) w = Inr w' \<and> alike V w w' \<and> pending w' = pending w \<and> turned V X w w'"
proof -
  obtain k where k: "handle_wakeup S t (loop_view l w) = Inr ((loop_view l w)\<lparr>st_kern := k\<rparr>)"
      "k = pr_kern w \<or> k = snd (sys_read S (el_wakeupFd (pr_loops w l)) 8 (pr_kern w))"
    using handle_wakeup_eq [of S t "loop_view l w"] by auto
  have "loop_put ((loop_view l w)\<lparr>st_kern := k\<rparr>) = w\<lparr>pr_kern := k\<rparr>"
    by (simp add: loop_put_def loop_view_def)
  moreover have "same_view V (pr_kern w) k" using assms k(2) by (auto simp: passive_doc_def)
  ultimately show ?thesis
    using k(1) same_view_turned by (auto simp: on_loop_def pending_def same_view_alike)
qed

lemma getNextLoop_in:
  assumes "pool_ok p" and "getNextLoop p = Inr (l, p')"
  shows "l \<in> set (getAllLoops p)" "pool_ok p'" "getAllLoops p' = getAllLoops p" "tp_baseLoop p' = tp_baseLoop p"
proof -
  obtain p1 where "getNextLoop p = Inr (getAllLoops p ! nat (tp_next p), p1)" "pool_ok p1" "getAllLoops p1 = getAllLoops p"
    using pool.pick [OF assms(1)] by blast
  with pool.pos [OF assms(1)] assms(2)
  show "l \<in> set (getAllLoops p)" "pool_ok p'" "getAllLoops p' = getAllLoops p" by auto
  show "tp_baseLoop p' = tp_baseLoop p"
    using assms(2) by (auto simp: getNextLoop_def Let_def split: if_splits)
qed

lemma acceptor_read_eq: "acceptor_read S inet_addr ucb self w =
    (case accept S (ac_sockfd (ts_acceptor (pr_server w))) (InetAddress_init inet_addr 0 ''127.0.0.1'') (pr_kern w) of
       (Done f, peer, k) \<Rightarrow> newConnection S ucb self f peer (w\<lparr>pr_kern := k\<rparr>)
     | (Fail e, peer, k) \<Rightarrow> Inr (w\<lparr>pr_kern := k\<rparr>))"
proof -
  have v: "acceptor_put ((acceptor_view w)\<lparr>st_kern := k\<rparr>) = w\<lparr>pr_kern := k\<rparr>" for k
    by (simp add: acceptor_put_def acceptor_view_def upd_server_def Let_def)
  have a: "st_acceptor (acceptor_view w) = ts_acceptor (pr_server w)" "st_kern (acceptor_view w) = pr_kern w"
    by (simp_all add: acceptor_view_def Let_def)
  obtain r peer k where r: "accept S (ac_sockfd (ts_acceptor (pr_server w))) (InetAddress_init inet_addr 0 ''127.0.0.1'') (pr_kern w) = (r, peer, k)"
    by (metis prod_cases3)
  show ?thesis
    by (cases r) (simp_all add: acceptor_read_def on_acceptor_def Acceptor_handleRead_def from_acceptor_def v a r bindE_assoc)
qed

lemma queued_alike:
  assumes "write_doc S V"
  shows "alike V w (queued S l t w)"
  using write_other [OF assms]
  by (auto simp: alike_def same_loop_def queued_kern intro: exI [of _ "ts_acceptor (pr_server w)"])

lemma queued_turned:
  assumes "write_doc S V" and s: "safe V w q d" and l: "l \<in> server_loops (pr_server w)"
  shows "turned V X w (queued S l t w)"
proof -
  have "v_sent V (pr_kern (queued S l t w)) (tc_sockfd e) = v_sent V (pr_kern w) (tc_sockfd e)" if e: "pr_conns w j = Some e" for j e
    using write_other(1) [OF assms(1)] soundD(8) [OF safeD(4) [OF s e] l] by (simp add: queued_kern)
  then show ?thesis using alike_leaves [OF queued_alike [OF assms(1)]] by (simp add: turned_quiet)
qed

text \<open>A new connection.\<close>

lemma with_connection_turned:
  assumes s: "safe V (with_connection p c k w) q d" and "pr_conns w (tc_id c) = None" and k: "new_fd V (tc_sockfd c) (pr_kern w) k"
    and "\<not> in_use w (tc_sockfd c)" and "getAllLoops p = getAllLoops (ts_threadPool (pr_server w))"
  shows "turned V X w (with_connection p c k w)"
proof -
  let ?w = "with_connection p c k w"
  have "(\<exists>e'. pr_conns ?w j = Some e' \<and> plain e' = plain e) \<and>
     ts_connections (pr_server ?w) (tc_name e) = ts_connections (pr_server w) (tc_name e) \<and>
     v_sent V (pr_kern ?w) (tc_sockfd e) = v_sent V (pr_kern w) (tc_sockfd e) \<and> same_at V w ?w (tc_loop e) (tc_sockfd e)"
    if e: "pr_conns w j = Some e" for j e
  proof -
    have j: "j \<noteq> tc_id c" and fd: "tc_sockfd e \<noteq> tc_sockfd c" using e assms(2,4) by (auto simp: in_use_def)
    have o: "pr_conns ?w j = Some e" "pr_conns ?w (tc_id c) = Some c" using e j by simp_all
    have "tc_name e \<noteq> tc_name c" using process_okD(4) [OF safeD(1) [OF s] o] j by blast
    then show ?thesis using o(1) k fd by (simp add: same_at_def same_loop_def new_fd_def)
  qed
  then have "leaves_alone V {} w ?w" unfolding leaves_alone_def by blast
  then show ?thesis using assms(5) by (intro turned_quiet) (simp_all add: same_threads_def server_loops_def)
qed

lemma outstanding_queued: "outstanding (queued S l t w) ph = (outstanding w ph)(l := outstanding w ph l @ [t])"
  by (auto simp: outstanding_def pending_def fun_eq_iff)

text \<open>What \<open>newConnection\<close> has made before the connection is established, on its loop or as a functor.\<close>

lemma newConnection_made:
  assumes D: "server_doc S V" and s: "safe V w (outstanding w ph) d"
    and acc: "pr_conns w self = None" "ts_nextConnId (pr_server w) < 2147483647" "\<not> in_use w f"
    and k1: "new_fd V f (pr_kern w) k1"
  shows "\<exists>p c k. new_object self (conn_name (pr_server w) (ts_nextConnId (pr_server w))) f c \<and>
    k = setKeepAlive S f True (snd (local_address S f k1)) \<and> same_view V k1 k \<and>
    tc_loop c \<in> server_loops (pr_server w) \<and> safe V (with_connection p c k w) (outstanding (with_connection p c k w) ph) d \<and>
    (\<forall>X. turned V X w (with_connection p c k w)) \<and> ConnectEstablished self \<notin> set (outstanding (with_connection p c k w) ph (tc_loop c)) \<and>
    newConnection S ucb self f peer (w\<lparr>pr_kern := k1\<rparr>) =
      (if el_threadId (pr_loops w (tc_loop c)) = pr_tid w
       then on_conn self (connectEstablished S (server_conn_callbacks S ucb)) (with_connection p c k w)
       else Inr (queued S (tc_loop c) (ConnectEstablished self) (with_connection p c k w)))"
proof -
  note docs = server_docD [OF D]
  let ?w1 = "w\<lparr>pr_kern := k1\<rparr>"
  have pok: "pool_ok (ts_threadPool (pr_server ?w1))"
    using safeD(1) [OF s] by (simp add: process_ok_def server_ok_def)
  obtain p c k where c: "getNextLoop (ts_threadPool (pr_server w)) = Inr (tc_loop c, p)" "pool_ok p"
      "k = setKeepAlive S f True (snd (local_address S f k1))"
      "new_object self (conn_name (pr_server w) (ts_nextConnId (pr_server w))) f c"
      "newConnection S ucb self f peer ?w1 =
        on_loop (tc_loop c) (runInLoop S (\<lambda>_. from_loop (on_conn self (connectEstablished S (server_conn_callbacks S ucb))))
          (ConnectEstablished self)) (with_connection p c k ?w1)"
    using newConnection_eq [OF pok, where self = self and sockfd = f and S = S and ucb = ucb and peerAddr = peer] acc(2) by auto
  let ?w = "with_connection p c k w"
  have w2: "with_connection p c k ?w1 = ?w" by (simp add: with_connection_def upd_server_def)
  note nxt = getNextLoop_in [OF pok [simplified] c(1)]
  have "snd (local_address S f k1) = snd (sys_getsockname S f k1)"
    by (simp add: local_address_def split: prod.splits io.splits)
  then have "same_view V k1 k"
    using docs(4) [of k1 f] setsockopt_view(4) [OF docs(2), of "snd (local_address S f k1)" f True] same_view_trans by (metis c(3))
  then have same: "same_view V k1 k" .
  then have k: "new_fd V f (pr_kern w) k" by (rule new_fd_same_view [OF k1])
  have L: "tc_loop c \<in> server_loops (pr_server w)" using nxt(1) by (simp add: server_loops_def)
  note new = safe_new [OF s acc(2,1) c(4) L c(2) nxt(3,4) acc(3) k]
  have out: "outstanding ?w ph = outstanding w ph" by (simp add: outstanding_def pending_def fun_eq_iff)
  have sw: "safe V ?w (outstanding ?w ph) d" using new(1) by (simp add: out)
  have cf: "tc_sockfd c = f" "tc_id c = self" using c(4) by (simp_all add: new_object_def)
  have tw: "turned V X w ?w" for X by (rule with_connection_turned [OF sw]) (use acc k nxt(3) cf in simp_all)
  have est: "ConnectEstablished self \<notin> set (outstanding ?w ph (tc_loop c))" using new(2) [OF L] by (simp add: out)
  have code: "newConnection S ucb self f peer ?w1 =
      (if el_threadId (pr_loops w (tc_loop c)) = pr_tid w
       then on_conn self (connectEstablished S (server_conn_callbacks S ucb)) ?w
       else Inr (queued S (tc_loop c) (ConnectEstablished self) ?w))"
    unfolding c(5) w2 on_loop_run by simp
  show ?thesis using c(3,4) same L sw tw est code by blast
qed

lemma newConnection_safe:
  assumes D: "server_doc S V" and u: "good_user V ucb" and s: "safe V w (outstanding w ph) d"
    and acc: "pr_conns w self = None" "ts_nextConnId (pr_server w) < 2147483647" "\<not> in_use w f"
    and k1: "new_fd V f (pr_kern w) k1"
  shows "holdsE conn_error (\<lambda>w'. safe V w' (outstanding w' ph) d \<and> turned V X w w') (newConnection S ucb self f peer (w\<lparr>pr_kern := k1\<rparr>))"
proof -
  note docs = server_docD [OF D]
  obtain p c k where made: "new_object self (conn_name (pr_server w) (ts_nextConnId (pr_server w))) f c"
    and L: "tc_loop c \<in> server_loops (pr_server w)"
    and sw: "safe V (with_connection p c k w) (outstanding (with_connection p c k w) ph) d"
    and tw: "\<And>X. turned V X w (with_connection p c k w)"
    and est: "ConnectEstablished self \<notin> set (outstanding (with_connection p c k w) ph (tc_loop c))"
    and code: "newConnection S ucb self f peer (w\<lparr>pr_kern := k1\<rparr>) =
      (if el_threadId (pr_loops w (tc_loop c)) = pr_tid w
       then on_conn self (connectEstablished S (server_conn_callbacks S ucb)) (with_connection p c k w)
       else Inr (queued S (tc_loop c) (ConnectEstablished self) (with_connection p c k w)))"
    using newConnection_made [OF D s acc k1, of ucb peer] by blast
  let ?w = "with_connection p c k w"
  have id: "tc_id c = self" "tc_state c = kConnecting" using made by (simp_all add: new_object_def)
  have o: "pr_conns ?w self = Some c" using id by simp
  show ?thesis
  proof (cases "el_threadId (pr_loops w (tc_loop c)) = pr_tid w")
    case False
    have "safe V ?w ((outstanding ?w ph)(tc_loop c := outstanding ?w ph (tc_loop c) @ [ConnectEstablished self])) d"
      by (rule safe_put [OF sw o id(2) est])
    then have "safe V (queued S (tc_loop c) (ConnectEstablished self) ?w) (outstanding (queued S (tc_loop c) (ConnectEstablished self) ?w) ph) d"
      unfolding outstanding_queued by (rule safe_alike [OF _ queued_alike [OF kernel_docD(2) [OF docs(1)]]])
    moreover have "tc_loop c \<in> server_loops (pr_server ?w)" using L tw by (simp add: turned_def same_threads_def)
    then have "turned V X w (queued S (tc_loop c) (ConnectEstablished self) ?w)"
      using turned_trans [OF tw queued_turned [OF kernel_docD(2) [OF docs(1)] sw]] by blast
    ultimately show ?thesis using False by (simp add: code)
  next
    case True
    have st: "seated (conn_view c ?w)" by (rule seated_view) (use True in simp)
    have ok: "conn_ok V (conn_view c ?w)" by (rule soundD(1) [OF safeD(4) [OF sw o]])
    have "holdsE conn_error (\<lambda>w'. \<exists>c'. conn_ok V (conn_view c' w') \<and> progress V c ?w c' w' \<and> tc_state c' \<noteq> kConnecting)
        (on_conn self (connectEstablished S (server_conn_callbacks S ucb)) ?w)"
      by (intro on_conn_step [where R = "\<lambda>c w c' w'. progress V c w c' w' \<and> tc_state c' \<noteq> kConnecting"] o id(1)
          connectEstablished_handled [OF docs(1) u ok st]) (simp add: id(2))
    then have "holdsE conn_error (\<lambda>w'. safe V w' (outstanding w' ph) d \<and> turned V X w w')
        (on_conn self (connectEstablished S (server_conn_callbacks S ucb)) ?w)"
    proof (rule holdsE_mono)
      fix w' assume "\<exists>c'. conn_ok V (conn_view c' w') \<and> progress V c ?w c' w' \<and> tc_state c' \<noteq> kConnecting"
      then obtain c' where c': "conn_ok V (conn_view c' w')" "progress V c ?w c' w'" "tc_state c' \<noteq> kConnecting" by blast
      have "turned V {self} w w'" using turned_trans [OF tw] progress_turned [OF sw c'(2)] id by simp
      then have "turned V X w w'" using leaves_new [OF acc(1)] by (simp add: turned_def)
      then show "safe V w' (outstanding w' ph) d \<and> turned V X w w'" using safe_progress [OF sw c'(2,1,3)] est id by simp
    qed
    then show ?thesis using True by (simp add: code)
  qed
qed

lemma acceptor_read_safe:
  assumes D: "server_doc S V" and u: "good_user V ucb" and s: "safe V w (outstanding w ph) d" and a: "can_accept S alloc w"
  shows "holdsE conn_error (\<lambda>w'. safe V w' (outstanding w' ph) d \<and> turned V X w w') (acceptor_read S inet_addr ucb (alloc w) w)"
proof -
  note docs = server_docD [OF D]
  obtain r k where r: "sys_accept4 S (ac_sockfd (ts_acceptor (pr_server w))) (pr_kern w) = (r, k)" by fastforce
  note d = docs(3) [unfolded accept_doc_def, rule_format, OF r]
  show ?thesis
  proof (cases r)
    case (Fail e)
    then have "safe V (w\<lparr>pr_kern := k\<rparr>) (outstanding w ph) d" "turned V X w (w\<lparr>pr_kern := k\<rparr>)"
      using d by (auto intro: safe_alike [OF s same_view_alike] same_view_turned)
    then show ?thesis using Fail r by (simp add: acceptor_read_eq accept_def)
  next
    case (Done x)
    obtain g adr where x: "x = (g, adr)" by (cases x)
    have "\<not> in_use w g" using a r Done x by (simp add: can_accept_def)
    then show ?thesis
      using newConnection_safe [OF D u s, of "alloc w" g k] a d Done x r by (simp add: acceptor_read_eq accept_def can_accept_def)
  qed
qed

fun handled_conn :: "chan_ptr \<Rightarrow> conn_id set" where
  "handled_conn (ConnChannelOf i) = {i}"
| "handled_conn p = {}"

lemma handle_safe:
  assumes D: "server_doc S V" and u: "good_user V ucb" and s: "safe V w (outstanding w ph) d"
    and l: "l \<in> server_loops (pr_server w)" and p: "dispatchable w l p"
    and a: "\<And>m. p = AcceptChannelOf m \<Longrightarrow> can_accept S alloc (in_thread l w)"
  shows "holdsE conn_error (\<lambda>w'. safe V w' (outstanding w' ph) d \<and> turned V (handled_conn p) (in_thread l w) w') (handle_channel S inet_addr ucb alloc p t (in_thread l w))"
proof -
  note docs = server_docD [OF D]
  have st: "safe V (in_thread l w) (outstanding (in_thread l w) ph) d" using safe_alike [OF s in_thread_alike] by simp
  show ?thesis
  proof (cases p)
    case (WakeupChannelOf m)
    obtain w' where w': "on_loop m (handle_wakeup S t) (in_thread l w) = Inr w'" "alike V (in_thread l w) w'" "pending w' = pending w"
        "turned V (handled_conn p) (in_thread l w) w'"
      using on_loop_wakeup [OF docs(2), of m t "in_thread l w"] by auto
    have "outstanding w' ph = outstanding w ph" using w'(3) by (simp add: outstanding_def fun_eq_iff)
    then show ?thesis using w' safe_alike [OF st w'(2)] WakeupChannelOf by simp
  next
    case (AcceptChannelOf m)
    let ?r = "acceptor_read S inet_addr ucb (alloc (in_thread l w)) (in_thread l w)"
    have "handle_channel S inet_addr ucb alloc p t (in_thread l w) \<in> {Inr (in_thread l w), ?r}"
      using AcceptChannelOf
      by (cases ?r) (auto simp: handleEvent_def handleEventWithGuard_def acceptor_callbacks_def split: option.splits)
    then show ?thesis
      using acceptor_read_safe [OF D u st a [OF AcceptChannelOf], where inet_addr = inet_addr] st by auto
  next
    case (ConnChannelOf i)
    obtain c where c: "pr_conns w i = Some c" "tc_loop c = l" "ch_index (tc_channel c) \<noteq> kNew" using p ConnChannelOf by auto
    have so: "sound V w (outstanding w ph) c" and id: "tc_id c = i" using safeD(4,5) [OF s c(1)] by auto
    have up: "tc_state c \<noteq> kConnecting" using soundD(6) [OF so] c(3) by auto
    let ?w = "in_thread l w"
    have se: "seated (conn_view c ?w)" by (rule seated_view) (use c(2) in simp)
    have ok: "conn_ok V (conn_view c ?w)" using soundD(1) [OF so] by simp
    have "holdsE conn_error (\<lambda>w'. \<exists>c'. conn_ok V (conn_view c' w') \<and> progress V c ?w c' w')
        (on_conn i (conn_handleEvent S (server_conn_callbacks S ucb) (\<lambda>j s. True) t) ?w)"
      using c(1) by (intro on_conn_step [where R = "progress V"] id handleEvent_handled [OF docs(1) u ok se]) simp
    then have "holdsE conn_error (\<lambda>w'. safe V w' (outstanding w' ph) d \<and> turned V {i} ?w w')
        (on_conn i (conn_handleEvent S (server_conn_callbacks S ucb) (\<lambda>j s. True) t) ?w)"
    proof (rule holdsE_mono)
      fix w' assume "\<exists>c'. conn_ok V (conn_view c' w') \<and> progress V c ?w c' w'"
      then obtain c' where c': "conn_ok V (conn_view c' w')" "progress V c ?w c' w'" by blast
      have "tc_state c' \<noteq> kConnecting" using c'(2) up up_stays movesD(5) unfolding progress_def by blast
      then have "safe V w' (outstanding w' ph) d" by (rule safe_progress [OF st c'(2,1)]) (use up in simp)
      then show "safe V w' (outstanding w' ph) d \<and> turned V {i} ?w w'" using progress_turned [OF st c'(2)] id by simp
    qed
    then show ?thesis using ConnChannelOf by simp
  qed
qed

subsection \<open>Running functors\<close>

lemma outstanding_pop:
  "ph l = Draining (t # ts) \<Longrightarrow> outstanding w (ph(l := Draining ts)) = (outstanding w ph)(l := ts @ pending w l)"
  "ph l = Draining (t # ts) \<Longrightarrow> outstanding w ph l = t # ts @ pending w l"
  by (auto simp: outstanding_def draining_def fun_eq_iff)

lemma head_fits:
  assumes "safe V w (outstanding w ph) d" and "l \<in> server_loops (pr_server w)" and "ph l = Draining (t # ts)"
  shows "fits w l t"
  using safeD(6) [OF assms(1,2), of t] outstanding_pop(2) [where ph = ph and l = l and w = w, OF assms(3)] by simp

lemma run_task_eta:
  "run_task S cbs other (ConnectEstablished i) = connectEstablished S cbs"
  "run_task S cbs other (ConnectDestroyed i) = connectDestroyed S cbs"
  by (simp_all add: fun_eq_iff)

lemma safe_popped:
  assumes "safe V w (outstanding w ph) d" and "ph l = Draining (t # ts)"
    and "\<And>i c. pr_conns w i = Some c \<Longrightarrow> t = RemoveConnectionInLoop i \<or> t = ConnectDestroyed i \<Longrightarrow>
      tc_state c = kDisconnected \<Longrightarrow> leaving (outstanding w (ph(l := Draining ts))) c w \<or> gone c w"
  shows "safe V w (outstanding w (ph(l := Draining ts))) d"
  using assms(3) unfolding outstanding_pop(1) [where ph = ph and l = l, OF assms(2)]
  by (intro safe_pop [OF assms(1) outstanding_pop(2) [where ph = ph and l = l, OF assms(2)]])

text \<open>A functor of a connection that is established and not being destroyed.\<close>

lemma on_conn_safe:
  assumes s: "safe V w (outstanding w ph) d" and c: "pr_conns w i = Some c" "pr_tid w = el_threadId (pr_loops w (tc_loop c))"
    and up: "tc_state c = kConnecting \<Longrightarrow> ConnectEstablished i \<notin> set (outstanding w ph (tc_loop c))"
    and f: "conn_ok V (conn_view c w) \<Longrightarrow> seated (conn_view c w) \<Longrightarrow>
      step_of V (\<lambda>c w c' w'. progress V c w c' w' \<and> tc_state c' \<noteq> kConnecting) (conn_view c w) (f (conn_view c w))"
  shows "holdsE conn_error (\<lambda>w'. safe V w' (outstanding w' ph) d \<and> turned V {i} w w') (on_conn i f w)"
proof -
  have so: "sound V w (outstanding w ph) c" and id: "tc_id c = i" using safeD(4,5) [OF s c(1)] by auto
  have "holdsE conn_error (\<lambda>w'. \<exists>c'. conn_ok V (conn_view c' w') \<and> progress V c w c' w' \<and> tc_state c' \<noteq> kConnecting) (on_conn i f w)"
    by (intro on_conn_step [where R = "\<lambda>c w c' w'. progress V c w c' w' \<and> tc_state c' \<noteq> kConnecting"] c(1) id f
        soundD(1) [OF so] seated_view c(2))
  then show ?thesis
    by (rule holdsE_mono) (use safe_progress [OF s] up id progress_turned [OF s] in auto)
qed

lemma handled_up:
  assumes "handled V s m" and "tc_state (st_conn s) \<noteq> kConnecting"
  shows "step_of V (\<lambda>c w c' w'. progress V c w c' w' \<and> tc_state c' \<noteq> kConnecting) s m"
  using assms(1) unfolding step_of_def
  by (rule holdsE_mono) (auto simp: progress_def dest!: movesD(5) dest: up_stays [OF _ assms(2)])

lemma run_task_handled:
  assumes S: "kernel_doc S V" and u: "good_user V ucb" and ok: "conn_ok V s" and s: "seated s"
    and t: "posted i t"
  shows "handled V s (run_task S (server_conn_callbacks S ucb) other t s)"
proof -
  have "step_of V (calm V) s (call (map_option from_conn (sc_writeComplete ucb)) s)"
    using u ok s by (intro call_handled) (auto simp: good_user_def)
  then have "handled V s (call (cb_writeComplete (server_conn_callbacks S ucb)) s)"
    by (simp add: server_conn_callbacks_def handled_mono calm_progress)
  moreover have "handled V s (Inr (sendFileInLoop S (server_conn_callbacks S ucb) f off n s))" for f off n
    using handled_keeps [OF sendFileInLoop_ok [OF S ok] _ s] sendFileInLoop_steady [OF kernel_docD(2,8) [OF S]] by blast
  moreover have "handled V s (Inr s)" using handled_refl [OF ok s] .
  ultimately show ?thesis using t by (auto simp: posted_def server_conn_callbacks_def)
qed

lemma run_established_safe:
  assumes D: "server_doc S V" and u: "good_user V ucb" and s: "safe V w (outstanding w ph) d"
    and l: "l \<in> server_loops (pr_server w)" and ph: "ph l = Draining (ConnectEstablished i # ts)"
  shows "holdsE conn_error (\<lambda>w'. safe V w' (outstanding w' (ph(l := Draining ts))) d \<and> turned V {i} (in_thread l w) w')
    (on_conn i (connectEstablished S (server_conn_callbacks S ucb)) (in_thread l w))"
proof -
  let ?w = "in_thread l w" and ?ph = "ph(l := Draining ts)"
  note out = outstanding_pop [where ph = ph and l = l and w = w, OF ph]
  have "fits w l (ConnectEstablished i)" by (rule head_fits [OF s l ph])
  then obtain c where c: "pr_conns w i = Some c" "tc_loop c = l" "tc_state c = kConnecting" by auto
  have so: "sound V w (outstanding w ph) c" and id: "tc_id c = i" using safeD(4,5) [OF s c(1)] by auto
  have "filter (\<lambda>t. t = ConnectEstablished i) (ts @ pending w l) = []"
    using soundD(7) [OF so] c(2) id out(2) by simp
  then have no: "ConnectEstablished i \<notin> set (outstanding ?w ?ph (tc_loop c))"
    using c(2) out(1) by (auto simp: filter_empty_conv)
  have "safe V w (outstanding w ?ph) d" by (rule safe_popped [OF s ph]) auto
  then have sp: "safe V ?w (outstanding ?w ?ph) d" using safe_alike [OF _ in_thread_alike] by simp
  show ?thesis
    by (rule on_conn_safe [OF sp _ _ no])
      (use c connectEstablished_handled [OF server_docD(1) [OF D] u] in auto)
qed

lemma run_destroyed_safe:
  assumes D: "server_doc S V" and s: "safe V w (outstanding w ph) d"
    and l: "l \<in> server_loops (pr_server w)" and ph: "ph l = Draining (ConnectDestroyed i # ts)" and idle: "d l = []"
  shows "holdsE conn_error (\<lambda>w'. safe V w' (outstanding w' (ph(l := Draining ts))) d \<and> turned V {i} (in_thread l w) w')
    (on_conn i (connectDestroyed S cbs) (in_thread l w))"
proof -
  let ?w = "in_thread l w" and ?ph = "ph(l := Draining ts)"
  let ?R = "\<lambda>c w c' w'. moves V c w c' w' \<and> tc_state c' = kDisconnected \<and> ch_index (tc_channel c') = kNew"
  have "fits w l (ConnectDestroyed i)" by (rule head_fits [OF s l ph])
  then obtain c where c: "pr_conns w i = Some c" "tc_loop c = l" "tc_state c = kDisconnected" by auto
  have st: "safe V ?w (outstanding ?w ph) d" using safe_alike [OF s in_thread_alike] by simp
  have so: "sound V ?w (outstanding ?w ph) c" and id: "tc_id c = i" using safeD(4,5) [OF st] c(1) by auto
  have "holdsE conn_error (\<lambda>w'. \<exists>c'. conn_ok V (conn_view c' w') \<and> ?R c ?w c' w') (on_conn i (connectDestroyed S cbs) ?w)"
    using c id soundD(1) [OF so]
    by (intro on_conn_step [where R = ?R] connectDestroyed_handled [OF server_docD(1) [OF D]] seated_view) auto
  then show ?thesis
  proof (rule holdsE_mono)
    fix w' assume "\<exists>c'. conn_ok V (conn_view c' w') \<and> ?R c ?w c' w'"
    then obtain c' where c': "conn_ok V (conn_view c' w')" "?R c ?w c' w'" by blast
    note m = c'(2) [THEN conjunct1] note md = movesD [OF m] and g = outstanding_moves [OF m, where ph = ph]
    have down: "leaving (outstanding w' ph) c' w' \<or> gone c' w'"
    proof (cases "gone c ?w")
      case True
      then show ?thesis using md(6,9,10) c'(2) by (auto simp: gone_def same_table_def)
    next
      case False
      then show ?thesis using soundD(5) [OF so] leaving_mono [where q = "outstanding ?w ph" and q' = "outstanding w' ph", OF m _ grown_mono [OF g(1)]] c(3) by blast
    qed
    have s': "safe V w' (outstanding w' ph) d"
      by (rule safe_moves [OF st m c'(1) g]) (use c'(2) c(2,3) idle down in auto)
    have "safe V w' (outstanding w' ?ph) d"
    proof (rule safe_popped [OF s' ph])
      fix j e assume "pr_conns w' j = Some e" "ConnectDestroyed i = RemoveConnectionInLoop j \<or> ConnectDestroyed i = ConnectDestroyed j"
      then have e: "e = c'" using md(4,9) id by auto
      show "leaving (outstanding w' ?ph) e w' \<or> gone e w'"
      proof (cases "ts_connections (pr_server w') (tc_name c') = Some (tc_id c')")
        case False
        then show ?thesis using c'(2) e by (simp add: gone_def)
      next
        case True
        then have "RemoveConnectionInLoop (tc_id c') \<in> set (outstanding w' ph (ts_loop (pr_server w')))"
          using down by (auto simp: leaving_def gone_def)
        then have "RemoveConnectionInLoop (tc_id c') \<in> set (outstanding w' ?ph (ts_loop (pr_server w')))"
          using ph by (auto simp: outstanding_def draining_def split: if_splits)
        then show ?thesis by (simp add: leaving_def e)
      qed
    qed
    then show "safe V w' (outstanding w' ?ph) d \<and> turned V {i} ?w w'" using moves_turned [OF st m] id by simp
  qed simp
qed

lemma run_removal_safe:
  assumes D: "server_doc S V" and s: "safe V w (outstanding w ph) d"
    and l: "l \<in> server_loops (pr_server w)" and ph: "ph l = Draining (RemoveConnectionInLoop i # ts)"
  shows "holdsE conn_error (\<lambda>w'. safe V w' (outstanding w' (ph(l := Draining ts))) d \<and> turned V {i} (in_thread l w) w') (removeConnectionInLoop S i (in_thread l w))"
proof -
  let ?w = "in_thread l w" and ?ph = "ph(l := Draining ts)"
  have "fits w l (RemoveConnectionInLoop i)" by (rule head_fits [OF s l ph])
  then obtain c where c: "pr_conns w i = Some c" "tc_state c = kDisconnected" by auto
  have st: "safe V ?w (outstanding ?w ph) d" using safe_alike [OF s in_thread_alike] by simp
  have id: "tc_id c = i" using safeD(5) [OF s c(1)] .
  have ok: "conn_ok V (conn_view c ?w)" by (rule soundD(1) [OF safeD(4) [OF st]]) (use c in simp)
  obtain w' where w': "removeConnectionInLoop S i ?w = Inr w'" "moves V c ?w c w'" "leaving (pending w') c w'"
      "conn_ok V (conn_view c w') = conn_ok V (conn_view c ?w)"
    using removal_moves [OF kernel_docD(2) [OF server_docD(1) [OF D]], of ?w c] c id conn_ok_wakeup [OF ok] by auto
  have pr: "progress V c ?w c w'" using w' by (simp add: progress_def)
  have s': "safe V w' (outstanding w' ph) d"
    by (rule safe_progress [OF st pr]) (use w' ok c in auto)
  have "safe V w' (outstanding w' ?ph) d"
  proof (rule safe_popped [OF s' ph])
    fix j e assume "pr_conns w' j = Some e" "RemoveConnectionInLoop i = RemoveConnectionInLoop j \<or> RemoveConnectionInLoop i = ConnectDestroyed j"
    then have "e = c" using movesD(4) [OF w'(2)] id by auto
    moreover have "set (pending w' m) \<subseteq> set (outstanding w' ?ph m)" for m by (simp add: outstanding_def)
    ultimately show "leaving (outstanding w' ?ph) e w' \<or> gone e w'" using leaving_subset [OF w'(3)] by blast
  qed
  then show ?thesis using w'(1) moves_turned [OF st w'(2)] id by simp
qed

lemma run_safe:
  assumes D: "server_doc S V" and u: "good_user V ucb" and s: "safe V w (outstanding w ph) d"
    and l: "l \<in> server_loops (pr_server w)" and ph: "ph l = Draining (t # ts)" and idle: "d l = []"
  shows "holdsE conn_error (\<lambda>w'. safe V w' (outstanding w' (ph(l := Draining ts))) d \<and> turned V (set_option (task_conn t)) (in_thread l w) w') (run_functor S ucb user t (in_thread l w))"
proof -
  let ?w = "in_thread l w" and ?ph = "ph(l := Draining ts)"
  note S = server_docD(1) [OF D]
  have fit: "fits w l t" by (rule head_fits [OF s l ph])
  have own: ?thesis if t: "posted i t" for i
  proof -
    have run: "run_functor S ucb user t ?w = on_conn i (run_task S (server_conn_callbacks S ucb) (\<lambda>_. Inr) t) ?w"
      using t by (auto simp: posted_def)
    obtain c where c: "pr_conns w i = Some c" "tc_loop c = l" "tc_state c \<noteq> kConnecting" using fit t by (auto simp: posted_def)
    have "safe V w (outstanding w ?ph) d" by (rule safe_popped [OF s ph]) (use t in \<open>auto simp: posted_def\<close>)
    then have sp: "safe V ?w (outstanding ?w ?ph) d" using safe_alike [OF _ in_thread_alike] by simp
    have X: "set_option (task_conn t) = {i}" using t by (auto simp: posted_def)
    show ?thesis
      unfolding run X by (rule on_conn_safe [OF sp]) (use c handled_up [OF run_task_handled [OF S u _ _ t]] in auto)
  qed
  show ?thesis
  proof (cases t)
    case (ConnectEstablished i)
    then show ?thesis using run_established_safe [OF D u s l] ph by (simp add: run_task_eta)
  next
    case (ConnectDestroyed i)
    then show ?thesis using run_destroyed_safe [OF D s l _ idle] ph by (simp add: run_task_eta)
  next
    case (RemoveConnectionInLoop i)
    then show ?thesis using run_removal_safe [OF D s l] ph by simp
  qed (use fit own in \<open>auto simp: posted_def\<close>)
qed

subsection \<open>Polling and the ends of a round\<close>

definition turn_poll :: "'k sys \<Rightarrow> loop_id \<Rightarrow> 'k process \<Rightarrow> 'k process" where
  "turn_poll S l w = loop_put (loop_poll S with_channel (loop_view l (in_thread l w)))"

definition turn_swap :: "loop_id \<Rightarrow> 'k process \<Rightarrow> 'k process" where
  "turn_swap l w = loop_put (swap_begin (loop_view l (in_thread l w)))"

definition turn_done :: "loop_id \<Rightarrow> 'k process \<Rightarrow> 'k process" where
  "turn_done l w = loop_put (drain_end (loop_view l (in_thread l w)))"

lemma loop_put_simps [simp]:
  "pr_tid (loop_put s) = pr_tid (loop_st.more s)" "pr_kern (loop_put s) = st_kern s" "pr_mem (loop_put s) = pr_mem (loop_st.more s)"
  "pr_loops (loop_put s) = (pr_loops (loop_st.more s))(st_self s := st_loop s)"
  "pr_conns (loop_put s) = pr_conns (loop_st.more s)" "pr_server (loop_put s) = pr_server (loop_st.more s)"
  by (simp_all add: loop_put_def)

lemma turn_swap_alike: "alike V w (turn_swap l w)" "pending (turn_swap l w) = (pending w)(l := [])"
  by (auto simp: alike_def turn_swap_def swap_begin_def same_loop_def pending_def fun_eq_iff intro: exI [of _ "ts_acceptor (pr_server w)"])

lemma turn_done_alike: "alike V w (turn_done l w)" "pending (turn_done l w) = pending w"
  by (auto simp: alike_def turn_done_def drain_end_def same_loop_def pending_def fun_eq_iff intro: exI [of _ "ts_acceptor (pr_server w)"])

lemma plain_revents [simp]: "plain (c\<lparr>tc_channel := set_revents e (tc_channel c)\<rparr>) = plain c"
  by (simp add: plain_def set_revents_def)

lemma with_channel_alike:
  "alike V (loop_put s) (loop_put (with_channel p (set_revents e) s)) \<and>
   pending (loop_put (with_channel p (set_revents e) s)) = pending (loop_put s) \<and> st_self (with_channel p (set_revents e) s) = st_self s"
proof (cases p)
  case (AcceptChannelOf m)
  then show ?thesis
    by (auto simp: alike_def same_loop_def pending_def fun_eq_iff upd_server_def set_revents_def
        intro!: exI [of _ "(ts_acceptor (pr_server (loop_st.more s)))\<lparr>ac_channel := set_revents e (ac_channel (ts_acceptor (pr_server (loop_st.more s))))\<rparr>"])
next
  case (ConnChannelOf i)
  then show ?thesis
    by (auto simp: alike_def same_loop_def pending_def fun_eq_iff option.map_comp comp_def
        intro!: exI [of _ "ts_acceptor (pr_server (loop_st.more s))"])
qed (auto simp: alike_def same_loop_def pending_def fun_eq_iff intro!: exI [of _ "ts_acceptor (pr_server (loop_st.more s))"])

lemma fill_alike:
  "fillActiveChannels with_channel evs s = (ps, s') \<Longrightarrow> alike V (loop_put s) (loop_put s') \<and>
   pending (loop_put s') = pending (loop_put s) \<and> st_self s' = st_self s \<and> ps = map snd evs"
proof (induction evs arbitrary: s ps)
  case (Cons x evs)
  obtain e p where x: "x = (e, p)" by (cases x)
  let ?s = "with_channel p (set_revents e) s"
  obtain qs where q: "fillActiveChannels with_channel evs ?s = (qs, s')" "ps = p # qs"
    using Cons.prems x by (auto split: prod.splits)
  from Cons.IH [OF q(1)] with_channel_alike [of V s p e] q(2) x show ?case by (auto intro: alike_trans)
qed simp

lemma poll_alike:
  assumes "kernel_doc S V" and "passive_doc S V" and p: "poll S t po k = (now, evs, po', k')"
  shows "same_view V k k'" "ep_channels po' = ep_channels po" "ep_epollfd po' = ep_epollfd po"
    "\<forall>(e, p)\<in>set evs. \<exists>f ev. v_reg V k (ep_epollfd po) f = Some (ev, p)"
proof -
  obtain r k1 where w: "sys_epoll_wait S (ep_epollfd po) (ep_events_size po) t k = (r, k1)" by fastforce
  note d = kernel_docD(6) [OF assms(1), unfolded epoll_wait_doc_def, rule_format, OF w]
  have now: "snd (Timestamp_now S k1) = k'"
    using p by (auto simp: poll_def w Let_def split: prod.splits io.splits if_splits)
  have "same_view V k1 (snd (Timestamp_now S k1))"
    using assms(2) by (simp add: Timestamp_now_def passive_doc_def case_prod_unfold Let_def)
  with now d show "same_view V k k'" by (simp add: same_view_def)
  show "ep_channels po' = ep_channels po" "ep_epollfd po' = ep_epollfd po"
    using p by (auto simp: poll_def w Let_def split: prod.splits io.splits if_splits)
  show "\<forall>(e, p)\<in>set evs. \<exists>f ev. v_reg V k (ep_epollfd po) f = Some (ev, p)"
    using p d by (auto simp: poll_def w Let_def split: prod.splits io.splits if_splits)
qed

lemma turn_poll_alike:
  assumes "kernel_doc S V" and "passive_doc S V"
  shows "alike V w (turn_poll S l w)" "pending (turn_poll S l w) = pending w"
    "p \<in> set (el_activeChannels (pr_loops (turn_poll S l w) l)) \<Longrightarrow> \<exists>f. registered V w l f p"
proof -
  let ?w = "in_thread l w"
  obtain now evs po k where p: "poll S kPollTimeMs (el_poller (pr_loops w l)) (pr_kern w) = (now, evs, po, k)" by (metis prod_cases4)
  note pa = poll_alike [OF assms p]
  let ?s1 = "(loop_view l ?w)\<lparr>st_loop := (pr_loops w l)\<lparr>el_poller := po\<rparr>, st_kern := k\<rparr>"
  obtain ps s2 where f: "fillActiveChannels with_channel evs ?s1 = (ps, s2)" by fastforce
  note fa = fill_alike [OF f, of V]
  let ?s3 = "s2\<lparr>st_loop := (st_loop s2)\<lparr>el_activeChannels := ps, el_pollRetureTime := now\<rparr>\<rparr>"
  have t: "turn_poll S l w = loop_put ?s3"
    using p f by (simp add: turn_poll_def loop_poll_def Let_def)
  have 1: "alike V w (loop_put ?s1)" "pending (loop_put ?s1) = pending w"
    using pa by (auto simp: alike_def same_loop_def same_view_def pending_def fun_eq_iff intro!: exI [of _ "ts_acceptor (pr_server w)"])
  have 3: "alike V (loop_put s2) (loop_put ?s3)" "pending (loop_put ?s3) = pending (loop_put s2)"
    by (auto simp: alike_def same_loop_def pending_def fun_eq_iff intro!: exI [of _ "ts_acceptor (pr_server (loop_st.more s2))"])
  show "alike V w (turn_poll S l w)" "pending (turn_poll S l w) = pending w"
    using 1 3 fa by (auto simp: t intro: alike_trans)
  assume "p \<in> set (el_activeChannels (pr_loops (turn_poll S l w) l))"
  then have "p \<in> snd ` set evs" using fa by (simp add: t)
  then show "\<exists>f. registered V w l f p" using pa(4) by (force simp: registered_def)
qed

section \<open>Runs of the server\<close>

type_synonym 'k schedule = "'k process \<times> (loop_id \<Rightarrow> phase)"

text \<open>
  The threads take turns: a loop polls, handles one of the channels that are ready, takes the queue of
  functors, runs one of them, or ends its round; and an object nothing refers to is destroyed.
\<close>

inductive server_step :: "'k sys \<Rightarrow> (string \<Rightarrow> 32 word) \<Rightarrow> 'k process server_callbacks \<Rightarrow> ('k process \<Rightarrow> conn_id) \<Rightarrow>
    (nat \<Rightarrow> 'k process \<Rightarrow> error + 'k process) \<Rightarrow> 'k schedule \<Rightarrow> 'k schedule \<Rightarrow> bool"
  for S inet_addr ucb alloc user where
  step_poll: "l \<in> server_loops (pr_server w) \<Longrightarrow> ph l = Waiting \<Longrightarrow>
    server_step S inet_addr ucb alloc user (w, ph)
      (turn_poll S l w, ph(l := Dispatching (el_activeChannels (pr_loops (turn_poll S l w) l))))"
| step_handle: "l \<in> server_loops (pr_server w) \<Longrightarrow> ph l = Dispatching (p # ps) \<Longrightarrow>
    (\<forall>m. p = AcceptChannelOf m \<longrightarrow> can_accept S alloc (in_thread l w)) \<Longrightarrow>
    handle_channel S inet_addr ucb alloc p (el_pollRetureTime (pr_loops w l)) (in_thread l w) = Inr w' \<Longrightarrow>
    server_step S inet_addr ucb alloc user (w, ph) (w', ph(l := Dispatching ps))"
| step_swap: "l \<in> server_loops (pr_server w) \<Longrightarrow> ph l = Dispatching [] \<Longrightarrow>
    server_step S inet_addr ucb alloc user (w, ph) (turn_swap l w, ph(l := Draining (pending w l)))"
| step_run: "l \<in> server_loops (pr_server w) \<Longrightarrow> ph l = Draining (t # ts) \<Longrightarrow>
    run_functor S ucb user t (in_thread l w) = Inr w' \<Longrightarrow>
    server_step S inet_addr ucb alloc user (w, ph) (w', ph(l := Draining ts))"
| step_done: "l \<in> server_loops (pr_server w) \<Longrightarrow> ph l = Draining [] \<Longrightarrow>
    server_step S inet_addr ucb alloc user (w, ph) (turn_done l w, ph(l := Waiting))"
| step_free: "pr_conns w i \<noteq> None \<Longrightarrow> unreferenced w (outstanding w ph) i \<Longrightarrow> TcpConnection_destroy S i w = Inr w' \<Longrightarrow>
    server_step S inet_addr ucb alloc user (w, ph) (w', ph)"

inductive server_run :: "'k sys \<Rightarrow> (string \<Rightarrow> 32 word) \<Rightarrow> 'k process server_callbacks \<Rightarrow> ('k process \<Rightarrow> conn_id) \<Rightarrow>
    (nat \<Rightarrow> 'k process \<Rightarrow> error + 'k process) \<Rightarrow> 'k schedule \<Rightarrow> 'k schedule \<Rightarrow> bool"
  for S inet_addr ucb alloc user st0 where
  run_none: "server_run S inet_addr ucb alloc user st0 st0"
| run_more: "server_run S inet_addr ucb alloc user st0 st \<Longrightarrow> server_step S inet_addr ucb alloc user st st' \<Longrightarrow>
    server_run S inet_addr ucb alloc user st0 st'"

definition safe_schedule :: "'k view \<Rightarrow> 'k schedule \<Rightarrow> bool" where
  "safe_schedule V st \<longleftrightarrow> safe V (fst st) (outstanding (fst st) (snd st)) (\<lambda>l. dispatching (snd st l))"

lemma dispatching_simps [simp]:
  "dispatching Waiting = []" "dispatching (Draining ts) = []" "dispatching (Dispatching ps) = ps"
  "draining Waiting = []" "draining (Draining ts) = ts" "draining (Dispatching ps) = []"
  by (simp_all add: dispatching_def draining_def)

lemma registered_dispatchable:
  assumes s: "safe V w q d" and l: "l \<in> server_loops (pr_server w)" and r: "registered V w l f p"
  shows "dispatchable w l p"
proof -
  have h: "at_home w l f p" by (rule safeD(8) [OF s l r])
  show ?thesis
  proof (cases p)
    case (ConnChannelOf i)
    then obtain c where c: "pr_conns w i = Some c" "tc_loop c = l" "tc_sockfd c = f" using h by auto
    have "ch_index (tc_channel c) \<noteq> kNew"
      using known_registered(2) [OF soundD(1) [OF safeD(4) [OF s c(1)]]] r c by simp
    then show ?thesis using ConnChannelOf c by simp
  qed (use h in auto)
qed

lemma step_safe:
  assumes D: "server_doc S V" and u: "good_user V ucb"
  shows "server_step S inet_addr ucb alloc user st st' \<Longrightarrow> safe_schedule V st \<Longrightarrow> safe_schedule V st'"
proof (induction rule: server_step.induct)
  case (step_poll l w ph)
  let ?w = "turn_poll S l w" and ?d = "\<lambda>m. dispatching (ph m)"
  let ?ps = "el_activeChannels (pr_loops ?w l)"
  note tp = turn_poll_alike [OF server_docD(1,2) [OF D], where w = w and l = l]
  have s: "safe V w (outstanding w ph) ?d" using step_poll.prems by (simp add: safe_schedule_def)
  have out: "outstanding ?w (ph(l := Dispatching ?ps)) = outstanding w ph"
    using tp(2) step_poll.hyps(2) by (simp add: outstanding_def fun_eq_iff)
  have "safe V w (outstanding w ph) (?d(l := ?ps))"
    using s tp(3) registered_dispatchable [OF s] step_poll.hyps(1) unfolding safe_def by auto
  then have "safe V ?w (outstanding w ph) (?d(l := ?ps))" by (rule safe_alike [OF _ tp(1)])
  moreover have "(\<lambda>m. dispatching ((ph(l := Dispatching ?ps)) m)) = ?d(l := ?ps)" by (simp add: fun_eq_iff)
  ultimately show ?case by (simp only: safe_schedule_def fst_conv snd_conv out)
next
  case (step_handle l w ph p ps w')
  let ?d = "\<lambda>m. dispatching (ph m)"
  have s: "safe V w (outstanding w ph) ?d" using step_handle.prems by (simp add: safe_schedule_def)
  have p: "dispatchable w l p" by (rule safeD(7) [OF s step_handle.hyps(1)]) (simp add: step_handle.hyps(2))
  have "safe V w' (outstanding w' ph) ?d"
    using holdsED [OF handle_safe [OF D u s step_handle.hyps(1) p] step_handle.hyps(4), THEN conjunct1] step_handle.hyps(3) by blast
  then have "safe V w' (outstanding w' ph) (\<lambda>m. dispatching ((ph(l := Dispatching ps)) m))"
    by (rule safe_fewer) (use step_handle.hyps(2) in auto)
  moreover have "outstanding w' (ph(l := Dispatching ps)) = outstanding w' ph"
    using step_handle.hyps(2) by (simp add: outstanding_def fun_eq_iff)
  ultimately show ?case by (simp add: safe_schedule_def)
next
  case (step_swap l w ph)
  have "outstanding (turn_swap l w) (ph(l := Draining (pending w l))) = outstanding w ph"
    using turn_swap_alike(2) [where l = l and w = w] step_swap.hyps(2) by (simp add: outstanding_def fun_eq_iff)
  moreover have "safe V w (outstanding w ph) (\<lambda>m. dispatching ((ph(l := Draining (pending w l))) m))"
    by (rule safe_fewer [OF step_swap.prems [unfolded safe_schedule_def fst_conv snd_conv]]) simp
  ultimately show ?case using safe_alike [OF _ turn_swap_alike(1)] by (simp add: safe_schedule_def)
next
  case (step_run l w ph t ts w')
  let ?d = "\<lambda>m. dispatching (ph m)"
  have s: "safe V w (outstanding w ph) ?d" using step_run.prems by (simp add: safe_schedule_def)
  have "safe V w' (outstanding w' (ph(l := Draining ts))) ?d"
    by (rule holdsED [OF run_safe [where d = ?d, OF D u s step_run.hyps(1,2)] step_run.hyps(3), THEN conjunct1]) (simp add: step_run.hyps(2))
  then have "safe V w' (outstanding w' (ph(l := Draining ts))) (\<lambda>m. dispatching ((ph(l := Draining ts)) m))"
    by (rule safe_fewer) simp
  then show ?case by (simp add: safe_schedule_def)
next
  case (step_done l w ph)
  have "outstanding (turn_done l w) (ph(l := Waiting)) = outstanding w ph"
    using turn_done_alike(2) [where l = l and w = w] step_done.hyps(2) by (simp add: outstanding_def fun_eq_iff)
  moreover have "safe V w (outstanding w ph) (\<lambda>m. dispatching ((ph(l := Waiting)) m))"
    by (rule safe_fewer [OF step_done.prems [unfolded safe_schedule_def fst_conv snd_conv]]) simp
  ultimately show ?case using safe_alike [OF _ turn_done_alike(1)] by (simp add: safe_schedule_def)
next
  case (step_free w i ph w')
  have "pending w' = pending w"
    using step_free.hyps(3) by (auto simp: TcpConnection_destroy_def pending_def fun_eq_iff split: option.splits)
  then have "outstanding w' ph = outstanding w ph" by (simp add: outstanding_def fun_eq_iff)
  then show ?case
    using safe_free [OF _ step_free.hyps(2) server_docD(5,6) [OF D] step_free.hyps(3)] step_free.prems
    by (simp add: safe_schedule_def)
qed

lemma handled_turned:
  assumes D: "server_doc S V" and u: "good_user V ucb" and s: "safe_schedule V (w, ph)"
    and l: "l \<in> server_loops (pr_server w)" and p: "ph l = Dispatching (p # ps)"
    and a: "\<forall>m. p = AcceptChannelOf m \<longrightarrow> can_accept S alloc (in_thread l w)"
    and r: "handle_channel S inet_addr ucb alloc p t (in_thread l w) = Inr w'"
  shows "turned V (handled_conn p) (in_thread l w) w'"
proof -
  have s': "safe V w (outstanding w ph) (\<lambda>m. dispatching (ph m))" using s by (simp add: safe_schedule_def)
  have "dispatchable w l p" by (rule safeD(7) [OF s' l]) (simp add: p)
  from holdsED [OF handle_safe [OF D u s' l this] r, THEN conjunct2] a show ?thesis by blast
qed

lemma run_turned:
  assumes D: "server_doc S V" and u: "good_user V ucb" and s: "safe_schedule V (w, ph)"
    and l: "l \<in> server_loops (pr_server w)" and t: "ph l = Draining (t # ts)"
    and r: "run_functor S ucb user t (in_thread l w) = Inr w'"
  shows "turned V (set_option (task_conn t)) (in_thread l w) w'"
proof -
  have s': "safe V w (outstanding w ph) (\<lambda>m. dispatching (ph m))" using s by (simp add: safe_schedule_def)
  show ?thesis by (rule holdsED [OF run_safe [OF D u s' l t] r, THEN conjunct2]) (simp add: t)
qed

lemma server_run_safe:
  assumes "server_doc S V" and "good_user V ucb" and "safe_schedule V st0"
  shows "server_run S inet_addr ucb alloc user st0 st \<Longrightarrow> safe_schedule V st"
  by (induction rule: server_run.induct) (use assms step_safe in blast)+

end
