(* ===== verification/ServerRounds.thy ===== *)
theory ServerRounds
  imports ServerRun
begin

text \<open>
  The rounds of \<open>loop()\<close> (src/src/EventLoop.cpp), whole, as runs of single steps: what the theory
  TcpServer composes (\<open>process_round\<close>: poll, dispatch every ready channel, run the functors) is one of
  the interleavings the theory ServerRun talks about. So the step relation leaves out nothing that a
  loop of the code does, and its invariant holds from round to round.
\<close>

section \<open>The loop's view and the process\<close>

text \<open>\<open>s\<close> is the loop \<open>l\<close> cut out of the process \<open>w\<close>, in the loop's thread.\<close>

definition cut_of :: "loop_id \<Rightarrow> (task, 'k, 'k process) loop_st_scheme \<Rightarrow> 'k process \<Rightarrow> bool" where
  "cut_of l s w \<longleftrightarrow> loop_put s = w \<and> st_self s = l \<and> pr_tid w = el_threadId (pr_loops w l)"

lemma in_own_thread: "pr_tid w = el_threadId (pr_loops w l) \<Longrightarrow> in_thread l w = w"
  by (simp add: in_thread_def flip: process.surjective)

lemma cut_of_view: "pr_tid w = el_threadId (pr_loops w l) \<Longrightarrow> cut_of l (loop_view l w) w"
  by (simp add: cut_of_def)

lemma cut_of_loop: "cut_of l s w \<Longrightarrow> st_loop s = pr_loops w l"
  by (auto simp: cut_of_def)

lemma from_loop_cut: "cut_of l s w \<Longrightarrow> from_loop f s = bindE (f (in_thread l w)) (\<lambda>w'. Inr (loop_view l w'))"
  by (auto simp: cut_of_def from_loop_def in_own_thread)

lemma same_threads_cut: "same_threads (in_thread l w) w' \<Longrightarrow> cut_of l (loop_view l w') w'"
  by (intro cut_of_view) (simp add: same_threads_def)

lemma from_loop_holds:
  assumes "cut_of l s w" and "holdsE E (same_threads (in_thread l w)) (f (in_thread l w))"
  shows "holdsE E (\<lambda>s'. \<exists>w'. cut_of l s' w' \<and> f (in_thread l w) = Inr w' \<and> server_loops (pr_server w') = server_loops (pr_server w))
    (from_loop f s)"
  using assms(2) same_threads_cut
  by (cases "f (in_thread l w)") (auto simp: from_loop_cut [OF assms(1)] same_threads_def)

section \<open>The loops of a run\<close>

lemma alike_loops: "alike V w w' \<Longrightarrow> server_loops (pr_server w') = server_loops (pr_server w) \<and> ts_loop (pr_server w') = ts_loop (pr_server w)"
  by (auto simp: alike_def server_loops_def)

lemma step_loops:
  assumes D: "server_doc S V" and u: "good_user V ucb"
  shows "server_step S inet_addr ucb alloc user st st' \<Longrightarrow> safe_schedule V st \<Longrightarrow>
    server_loops (pr_server (fst st')) = server_loops (pr_server (fst st)) \<and> ts_loop (pr_server (fst st')) = ts_loop (pr_server (fst st))"
proof (induction rule: server_step.induct)
  case (step_poll l w ph)
  show ?case using alike_loops [OF turn_poll_alike(1) [OF server_docD(1,2) [OF D]]] by simp
next
  case (step_handle l w ph p ps w')
  have "turned V (handled_conn p) (in_thread l w) w'" by (rule handled_turned [where ph = ph, OF D u step_handle.prems(1) step_handle.hyps])
  then show ?case by (simp add: turned_def same_threads_def)
next
  case (step_swap l w ph)
  show ?case using alike_loops [OF turn_swap_alike(1)] by simp
next
  case (step_run l w ph t ts w')
  have "turned V (set_option (task_conn t)) (in_thread l w) w'" by (rule run_turned [where ph = ph, OF D u step_run.prems(1) step_run.hyps])
  then show ?case by (simp add: turned_def same_threads_def)
next
  case (step_done l w ph)
  show ?case using alike_loops [OF turn_done_alike(1)] by simp
next
  case (step_free w i ph w')
  then show ?case by (auto simp: TcpConnection_destroy_def split: option.splits)
qed

lemma run_loops:
  assumes D: "server_doc S V" and u: "good_user V ucb" and st: "safe_schedule V st"
  shows "server_run S inet_addr ucb alloc user st st' \<Longrightarrow>
    server_loops (pr_server (fst st')) = server_loops (pr_server (fst st)) \<and> ts_loop (pr_server (fst st')) = ts_loop (pr_server (fst st))"
proof (induction rule: server_run.induct)
  case (run_more st1 st2)
  then show ?case using step_loops [OF D u run_more(2) server_run_safe [OF D u st run_more(1)]] by simp
qed simp

text \<open>Accepting is the base loop's.\<close>

lemma accept_home:
  assumes D: "server_doc S V" and u: "good_user V ucb" and st: "safe_schedule V st"
    and r: "server_run S inet_addr ucb alloc user st (w, ph)" and l: "l \<in> server_loops (pr_server w)"
    and p: "AcceptChannelOf m \<in> set (dispatching (ph l))"
  shows "l = ts_loop (pr_server (fst st))"
proof -
  have "safe V w (outstanding w ph) (\<lambda>m. dispatching (ph m))"
    using server_run_safe [OF D u st r] by (simp add: safe_schedule_def)
  from safeD(7) [OF this l p] have "l = ts_loop (pr_server w)" by simp
  then show ?thesis using run_loops [OF D u st r] by simp
qed

section \<open>The pieces of a round\<close>

text \<open>Where this round accepts a client, it can: \<open>accepts_on\<close> follows the dispatch of the ready channels and
  asks for \<open>can_accept\<close> at the states where the acceptor's channel is handled, and nowhere else.\<close>

primrec accepts_on :: "'k sys \<Rightarrow> (string \<Rightarrow> 32 word) \<Rightarrow> 'k process server_callbacks \<Rightarrow> ('k process \<Rightarrow> conn_id) \<Rightarrow>
    chan_ptr list \<Rightarrow> (task, 'k, 'k process) loop_st_scheme \<Rightarrow> bool" where
  "accepts_on S inet_addr ucb alloc [] = (\<lambda>s. True)"
| "accepts_on S inet_addr ucb alloc (p # ps) = (\<lambda>s. (case p of AcceptChannelOf m \<Rightarrow> can_accept S alloc (loop_put s) | _ \<Rightarrow> True) \<and>
     holdsE (\<lambda>_. True) (accepts_on S inet_addr ucb alloc ps)
       (from_loop (handle_channel S inet_addr ucb alloc p (el_pollRetureTime (st_loop s))) s))"

definition accepts_in_round :: "'k sys \<Rightarrow> (string \<Rightarrow> 32 word) \<Rightarrow> 'k process server_callbacks \<Rightarrow> ('k process \<Rightarrow> conn_id) \<Rightarrow>
    loop_id \<Rightarrow> 'k process \<Rightarrow> bool" where
  "accepts_in_round S inet_addr ucb alloc l w = (let s = loop_poll S with_channel (loop_view l (in_thread l w)) in
     accepts_on S inet_addr ucb alloc (el_activeChannels (st_loop s)) s)"

lemma dispatch_run:
  assumes D: "server_doc S V" and u: "good_user V ucb" and st: "safe_schedule V st"
  shows "server_run S inet_addr ucb alloc user st (w, ph(l := Dispatching ps)) \<Longrightarrow> l \<in> server_loops (pr_server w) \<Longrightarrow> cut_of l s w \<Longrightarrow>
    (l = ts_loop (pr_server (fst st)) \<Longrightarrow> accepts_on S inet_addr ucb alloc ps s) \<Longrightarrow>
    holdsE conn_error (\<lambda>s'. \<exists>w'. cut_of l s' w' \<and> l \<in> server_loops (pr_server w') \<and>
        server_run S inet_addr ucb alloc user st (w', ph(l := Dispatching [])))
      (foldE (\<lambda>p s. from_loop (handle_channel S inet_addr ucb alloc p (el_pollRetureTime (st_loop s))) s) ps s)"
proof (induction ps arbitrary: w s)
  case Nil
  then show ?case by auto
next
  case (Cons p ps)
  let ?ph = "ph(l := Dispatching (p # ps))" and ?t = "el_pollRetureTime (pr_loops w l)"
  let ?d = "\<lambda>m. dispatching (?ph m)"
  have safe: "safe V w (outstanding w ?ph) ?d"
    using server_run_safe [OF D u st Cons.prems(1)] by (simp only: safe_schedule_def fst_conv snd_conv)
  have a: "can_accept S alloc (in_thread l w)" if "p = AcceptChannelOf m" for m
  proof -
    have "l = ts_loop (pr_server (fst st))"
      by (rule accept_home [OF D u st Cons.prems(1,2), where m = m]) (simp add: that)
    then have "can_accept S alloc (loop_put s)" using Cons.prems(4) that by simp
    then show ?thesis using Cons.prems(3) by (simp add: cut_of_def in_own_thread)
  qed
  have p: "dispatchable w l p" by (rule safeD(7) [OF safe Cons.prems(2)]) simp
  have "holdsE conn_error (same_threads (in_thread l w)) (handle_channel S inet_addr ucb alloc p ?t (in_thread l w))"
    by (rule holdsE_mono [OF handle_safe [OF D u safe Cons.prems(2) p a]]) (auto simp: turned_def)
  from from_loop_holds [where f = "handle_channel S inet_addr ucb alloc p ?t", OF Cons.prems(3) this]
  have h: "holdsE conn_error (\<lambda>s'. \<exists>w'. cut_of l s' w' \<and> handle_channel S inet_addr ucb alloc p ?t (in_thread l w) = Inr w' \<and>
      server_loops (pr_server w') = server_loops (pr_server w))
    (from_loop (handle_channel S inet_addr ucb alloc p ?t) s)" .
  show ?case
  proof (cases "from_loop (handle_channel S inet_addr ucb alloc p ?t) s")
    case (Inl e)
    then show ?thesis using h by (simp add: cut_of_loop [OF Cons.prems(3)])
  next
    case (Inr s')
    obtain w' where w': "cut_of l s' w'" "handle_channel S inet_addr ucb alloc p ?t (in_thread l w) = Inr w'"
        "server_loops (pr_server w') = server_loops (pr_server w)" using holdsED [OF h Inr] by blast
    have "server_step S inet_addr ucb alloc user (w, ?ph) (w', ?ph(l := Dispatching ps))"
      by (rule step_handle [OF Cons.prems(2) _ _ w'(2)]) (use a in auto)
    from run_more [OF Cons.prems(1) this]
    have r: "server_run S inet_addr ucb alloc user st (w', ph(l := Dispatching ps))" by (simp only: fun_upd_upd)
    have "accepts_on S inet_addr ucb alloc ps s'" if "l = ts_loop (pr_server (fst st))"
      using Cons.prems(4) [OF that] Inr by (simp add: cut_of_loop [OF Cons.prems(3)])
    from Cons.IH [OF r _ w'(1) this] w'(3) Cons.prems(2) Inr show ?thesis
      by (simp add: cut_of_loop [OF Cons.prems(3)])
  qed
qed

lemma functors_run:
  assumes D: "server_doc S V" and u: "good_user V ucb" and st: "safe_schedule V st"
  shows "server_run S inet_addr ucb alloc user st (w, ph(l := Draining ts)) \<Longrightarrow> l \<in> server_loops (pr_server w) \<Longrightarrow> cut_of l s w \<Longrightarrow>
    holdsE conn_error (\<lambda>s'. \<exists>w'. cut_of l s' w' \<and> l \<in> server_loops (pr_server w') \<and>
        server_run S inet_addr ucb alloc user st (w', ph(l := Draining [])))
      (foldE (\<lambda>t. from_loop (run_functor S ucb user t)) ts s)"
proof (induction ts arbitrary: w s)
  case Nil
  then show ?case by auto
next
  case (Cons t ts)
  let ?ph = "ph(l := Draining (t # ts))"
  let ?d = "\<lambda>m. dispatching (?ph m)"
  have safe: "safe V w (outstanding w ?ph) ?d"
    using server_run_safe [OF D u st Cons.prems(1)] by (simp only: safe_schedule_def fst_conv snd_conv)
  have "holdsE conn_error (same_threads (in_thread l w)) (run_functor S ucb user t (in_thread l w))"
    by (rule holdsE_mono [OF run_safe [where d = ?d, OF D u safe Cons.prems(2)]]) (auto simp: turned_def)
  from from_loop_holds [where f = "run_functor S ucb user t", OF Cons.prems(3) this]
  have "holdsE conn_error (\<lambda>s'. \<exists>w'. cut_of l s' w' \<and> l \<in> server_loops (pr_server w') \<and>
        server_run S inet_addr ucb alloc user st (w', ph(l := Draining ts)))
      (from_loop (run_functor S ucb user t) s)"
  proof (rule holdsE_mono)
    fix s' assume "\<exists>w'. cut_of l s' w' \<and> run_functor S ucb user t (in_thread l w) = Inr w' \<and>
        server_loops (pr_server w') = server_loops (pr_server w)"
    then obtain w' where w': "cut_of l s' w'" "run_functor S ucb user t (in_thread l w) = Inr w'"
        "server_loops (pr_server w') = server_loops (pr_server w)" by blast
    have "server_step S inet_addr ucb alloc user (w, ?ph) (w', ?ph(l := Draining ts))"
      by (rule step_run [OF Cons.prems(2) _ w'(2)]) simp
    from run_more [OF Cons.prems(1) this]
    have "server_run S inet_addr ucb alloc user st (w', ph(l := Draining ts))" by (simp only: fun_upd_upd)
    with w' Cons.prems(2) show "\<exists>w'. cut_of l s' w' \<and> l \<in> server_loops (pr_server w') \<and>
        server_run S inet_addr ucb alloc user st (w', ph(l := Draining ts))" by auto
  qed
  then show ?case unfolding foldE.simps by (rule holdsE_bind) (use Cons.IH in blast)
qed

lemma with_channel_thread: "pr_tid (loop_st.more (with_channel p f s)) = pr_tid (loop_st.more s)"
  by (cases p) (simp_all add: upd_server_def)

lemma fill_thread:
  "fillActiveChannels with_channel evs s = (ps, s') \<Longrightarrow> pr_tid (loop_st.more s') = pr_tid (loop_st.more s)"
  by (induction evs arbitrary: s ps) (auto simp: with_channel_thread split: prod.splits)

lemma poll_cut:
  assumes "kernel_doc S V" and "passive_doc S V"
  shows "cut_of l (loop_poll S with_channel (loop_view l (in_thread l w))) (turn_poll S l w)"
    "server_loops (pr_server (turn_poll S l w)) = server_loops (pr_server w)"
proof -
  let ?s = "loop_view l (in_thread l w)"
  obtain now evs po k where p: "poll S kPollTimeMs (el_poller (pr_loops w l)) (pr_kern w) = (now, evs, po, k)" by (metis prod_cases4)
  let ?s1 = "?s\<lparr>st_loop := (pr_loops w l)\<lparr>el_poller := po\<rparr>, st_kern := k\<rparr>"
  obtain ps s2 where f: "fillActiveChannels with_channel evs ?s1 = (ps, s2)" by fastforce
  have e: "loop_poll S with_channel ?s = s2\<lparr>st_loop := (st_loop s2)\<lparr>el_activeChannels := ps, el_pollRetureTime := now\<rparr>\<rparr>"
    using p f by (simp add: loop_poll_def Let_def)
  have self: "st_self s2 = l" using fill_alike [OF f] by simp
  have tid: "pr_tid (loop_st.more s2) = el_threadId (pr_loops w l)" using fill_thread [OF f] by simp
  note a = turn_poll_alike(1) [OF assms, of w l]
  have thread: "el_threadId (pr_loops (turn_poll S l w) l) = el_threadId (pr_loops w l)"
    using a by (simp add: alike_def same_loop_def)
  show "cut_of l (loop_poll S with_channel ?s) (turn_poll S l w)"
    unfolding cut_of_def thread by (simp add: turn_poll_def e self tid)
  show "server_loops (pr_server (turn_poll S l w)) = server_loops (pr_server w)"
    using a by (auto simp: alike_def server_loops_def)
qed

lemma swap_cut:
  assumes "cut_of l s w"
  shows "cut_of l (swap_begin s) (turn_swap l w)" "el_pendingFunctors (st_loop s) = pending w l"
    "server_loops (pr_server (turn_swap l w)) = server_loops (pr_server w)"
  using assms by (auto simp: cut_of_def turn_swap_def in_own_thread pending_def swap_begin_def loop_put_def loop_view_def)

lemma done_cut:
  assumes "cut_of l s w"
  shows "loop_put (drain_end s) = turn_done l w"
  using assms by (auto simp: cut_of_def turn_done_def in_own_thread drain_end_def loop_put_def loop_view_def)

section \<open>A round is a run\<close>

lemma process_round_eq:
  "process_round S inet_addr ucb alloc user s = (let s1 = loop_poll S with_channel s in
     bindE (foldE (\<lambda>p s. from_loop (handle_channel S inet_addr ucb alloc p (el_pollRetureTime (st_loop s))) s) (el_activeChannels (st_loop s1)) s1) (\<lambda>s2.
     bindE (foldE (\<lambda>t. from_loop (run_functor S ucb user t)) (el_pendingFunctors (st_loop s2)) (swap_begin s2)) (\<lambda>s3.
     Inr (drain_end s3))))"
proof -
  have "doPendingFunctors run = (\<lambda>s. bindE (foldE run (el_pendingFunctors (st_loop s)) (swap_begin s)) (\<lambda>s. Inr (drain_end s)))"
    for run :: "task \<Rightarrow> (task, 'a, 'a process) loop_st_scheme \<Rightarrow> error + (task, 'a, 'a process) loop_st_scheme"
    by (rule ext) (rule doPendingFunctors_eq)
  then show ?thesis by (simp add: process_round_def loop_round_def Let_def)
qed

lemma round_run:
  assumes D: "server_doc S V" and u: "good_user V ucb" and st: "safe_schedule V st"
    and acc: "l = ts_loop (pr_server (fst st)) \<Longrightarrow> accepts_in_round S inet_addr ucb alloc l w"
    and r: "server_run S inet_addr ucb alloc user st (w, ph)" and l: "l \<in> server_loops (pr_server w)" and wait: "ph l = Waiting"
  shows "holdsE conn_error (\<lambda>s'. server_run S inet_addr ucb alloc user st (loop_put s', ph))
    (process_round S inet_addr ucb alloc user (loop_view l (in_thread l w)))"
proof -
  let ?s1 = "loop_poll S with_channel (loop_view l (in_thread l w))" and ?w1 = "turn_poll S l w"
  note pc = poll_cut [OF server_docD(1,2) [OF D], where w = w and l = l]
  have r1: "server_run S inet_addr ucb alloc user st (?w1, ph(l := Dispatching (el_activeChannels (st_loop ?s1))))"
    using run_more [OF r step_poll [where ph = ph and l = l and w = w, OF l wait]] by (simp add: cut_of_loop [OF pc(1)])
  have l1: "l \<in> server_loops (pr_server ?w1)" using l pc(2) by simp
  have "holdsE conn_error (\<lambda>s'. server_run S inet_addr ucb alloc user st (loop_put s', ph))
      (bindE (foldE (\<lambda>t. from_loop (run_functor S ucb user t)) (el_pendingFunctors (st_loop s2)) (swap_begin s2)) (\<lambda>s3. Inr (drain_end s3)))"
    if s2: "cut_of l s2 w2" "l \<in> server_loops (pr_server w2)" "server_run S inet_addr ucb alloc user st (w2, ph(l := Dispatching []))" for s2 w2
  proof -
    note sc = swap_cut [OF s2(1)]
    have "server_run S inet_addr ucb alloc user st (turn_swap l w2, ph(l := Draining (pending w2 l)))"
      using run_more [OF s2(3) step_swap [OF s2(2)]] by simp
    then have "holdsE conn_error (\<lambda>s'. \<exists>w'. cut_of l s' w' \<and> l \<in> server_loops (pr_server w') \<and>
        server_run S inet_addr ucb alloc user st (w', ph(l := Draining [])))
      (foldE (\<lambda>t. from_loop (run_functor S ucb user t)) (el_pendingFunctors (st_loop s2)) (swap_begin s2))"
      unfolding sc(2) by (rule functors_run [OF D u st _ _ sc(1)]) (simp add: sc(3) s2(2))
    then show ?thesis
    proof (rule holdsE_bind)
      fix s3 assume "\<exists>w'. cut_of l s3 w' \<and> l \<in> server_loops (pr_server w') \<and> server_run S inet_addr ucb alloc user st (w', ph(l := Draining []))"
      then obtain w3 where s3: "cut_of l s3 w3" "l \<in> server_loops (pr_server w3)"
          "server_run S inet_addr ucb alloc user st (w3, ph(l := Draining []))" by blast
      have "ph(l := Waiting) = ph" using wait by auto
      then have "server_run S inet_addr ucb alloc user st (turn_done l w3, ph)"
        using run_more [OF s3(3) step_done [OF s3(2)]] by simp
      then show "holdsE conn_error (\<lambda>s'. server_run S inet_addr ucb alloc user st (loop_put s', ph)) (Inr (drain_end s3))"
        by (simp add: done_cut [OF s3(1)])
    qed
  qed
  then show ?thesis
    unfolding process_round_eq Let_def
    by (intro holdsE_bind [OF dispatch_run [OF D u st r1 l1 pc(1)]]) (use acc in \<open>auto simp: accepts_in_round_def Let_def\<close>)
qed

end
