(* ===== verification/ServerProperties.thy ===== *)
theory ServerProperties
  imports ServerRounds
begin

text \<open>
  What holds in every run of the server. The invariant \<open>safe\<close> and its proof are in the theories
  ServerSafety and ServerRun; here are its consequences, from a server that has just been started.
\<close>

section \<open>The start\<close>

text \<open>No connection yet, nothing queued, and the pollers know only the loops' own channels and the
  acceptor's.\<close>

definition fresh_server :: "'k view \<Rightarrow> 'k process \<Rightarrow> bool" where
  "fresh_server V w \<longleftrightarrow> process_ok w \<and> tp_baseLoop (ts_threadPool (pr_server w)) = ts_loop (pr_server w) \<and>
     inj_on (\<lambda>l. ep_epollfd (el_poller (pr_loops w l))) (server_loops (pr_server w)) \<and> pr_conns w = Map.empty \<and>
     (\<forall>l\<in>server_loops (pr_server w). pending w l = [] \<and> (\<forall>f p. registered V w l f p \<longrightarrow> at_home w l f p))"

lemma fresh_safe: "fresh_server V w \<Longrightarrow> safe_schedule V (w, \<lambda>_. Waiting)"
  by (auto simp: fresh_server_def safe_schedule_def safe_def distinct_fds_def outstanding_def)

section \<open>The contract of the server's user\<close>

text \<open>A user of the server installs callbacks that act on their own connection only, as the operations
  of a connection do.\<close>

locale server_user =
  fixes S :: "'k sys" and V :: "'k view" and ucb :: "'k process server_callbacks"
  assumes callbacks: "kernel_doc S V \<Longrightarrow> good_user V ucb"
begin

lemma always_safe:
  assumes "server_doc S V" and "fresh_server V w0" and "server_run S inet_addr ucb alloc user (w0, \<lambda>_. Waiting) (w, ph)"
  shows "safe V w (outstanding w ph) (\<lambda>l. dispatching (ph l))"
  using server_run_safe [OF assms(1) callbacks [OF server_docD(1) [OF assms(1)]] fresh_safe [OF assms(2)] assms(3)]
  by (simp add: safe_schedule_def)

lemma handle_ok:
  assumes "server_doc S V" and "fresh_server V w0" and "server_run S inet_addr ucb alloc user (w0, \<lambda>_. Waiting) (w, ph)"
    and "l \<in> server_loops (pr_server w)" and "ph l = Dispatching (p # ps)"
    and "\<And>m. p = AcceptChannelOf m \<Longrightarrow> can_accept S alloc (in_thread l w)"
  shows "holdsE conn_error (\<lambda>_. True) (handle_channel S inet_addr ucb alloc p t (in_thread l w))"
proof -
  note s = always_safe [OF assms(1-3)]
  have "dispatchable w l p" by (rule safeD(7) [OF s assms(4)]) (simp add: assms(5))
  from handle_safe [OF assms(1) callbacks [OF server_docD(1) [OF assms(1)]] s assms(4) this assms(6)]
  show ?thesis by (rule holdsE_mono) auto
qed

lemma functor_ok:
  assumes "server_doc S V" and "fresh_server V w0" and "server_run S inet_addr ucb alloc user (w0, \<lambda>_. Waiting) (w, ph)"
    and "l \<in> server_loops (pr_server w)" and "ph l = Draining (t # ts)"
  shows "holdsE conn_error (\<lambda>_. True) (run_functor S ucb user t (in_thread l w))"
proof -
  have "dispatching (ph l) = []" by (simp add: assms(5))
  from run_safe [where d = "\<lambda>l. dispatching (ph l)", OF assms(1) callbacks [OF server_docD(1) [OF assms(1)]]
      always_safe [OF assms(1-3)] assms(4,5) this]
  show ?thesis by (rule holdsE_mono) auto
qed

end

section \<open>Lemmas\<close>

lemma unreferenced_unregistered:
  assumes s: "safe V w q d" and u: "unreferenced w q i" and l: "l \<in> server_loops (pr_server w)"
  shows "\<not> registered V w l f (ConnChannelOf i)"
proof
  assume r: "registered V w l f (ConnChannelOf i)"
  have "at_home w l f (ConnChannelOf i)" by (rule safeD(8) [OF s l r])
  then obtain c where c: "pr_conns w i = Some c" "tc_loop c = l" "tc_sockfd c = f" by auto
  have "ch_index (tc_channel c) \<noteq> kNew"
    using known_registered(2) [OF soundD(1) [OF safeD(4) [OF s c(1)]]] r c by simp
  with unreferenced_gone(2) [OF s u c(1)] show False by simp
qed

lemma down_unreferenced:
  assumes s: "safe V w q d" and c: "pr_conns w i = Some c" "tc_state c = kDisconnected"
    and no: "\<forall>l\<in>server_loops (pr_server w). \<forall>t\<in>set (q l). task_ref t \<noteq> Some i"
  shows "unreferenced w q i"
proof -
  have so: "sound V w q c" and id: "tc_id c = i" using safeD(4,5) [OF s c(1)] by auto
  have "RemoveConnectionInLoop i \<notin> set (q (ts_loop (pr_server w)))" "ConnectDestroyed i \<notin> set (q (tc_loop c))"
    using no [rule_format, of "ts_loop (pr_server w)" "RemoveConnectionInLoop i"]
      no [rule_format, OF soundD(2) [OF so], of "ConnectDestroyed i"] by (auto simp: server_loops_def)
  then have g: "gone c w" using soundD(5) [OF so c(2)] id by (simp add: leaving_def)
  have "ts_connections (pr_server w) name \<noteq> Some i" for name
  proof
    assume n: "ts_connections (pr_server w) name = Some i"
    then have "tc_name c = name" using process_okD(5) [OF safeD(1) [OF s] n] c(1) by simp
    with n g id show False by (simp add: gone_def)
  qed
  then show ?thesis using no by (simp add: unreferenced_def)
qed

section \<open>Properties\<close>


text \<open>C10: Closed connections are reclaimed. In every run, a connection that is down and for which no
  functor is outstanding is referred to by nothing, is known to no poller and no epoll set, and can
  be destroyed, which closes its descriptor; a connection that is not down is in the table under
  its name.\<close>

theorem closed_connections_go:
  assumes "server_doc S V" and "good_user V ucb" and "fresh_server V w0"
    and "server_run S inet_addr ucb alloc user (w0, \<lambda>_. Waiting) (w, ph)" and "pr_conns w i = Some c"
  shows "(tc_state c \<noteq> kDisconnected \<longrightarrow> ts_connections (pr_server w) (tc_name c) = Some i) \<and>
    (tc_state c = kDisconnected \<and> (\<forall>l\<in>server_loops (pr_server w). \<forall>t\<in>set (outstanding w ph l). task_ref t \<noteq> Some i) \<longrightarrow>
      (\<forall>l\<in>server_loops (pr_server w). \<forall>f. \<not> registered V w l f (ConnChannelOf i)) \<and>
      (\<exists>w'. server_step S inet_addr ucb alloc user (w, ph) (w', ph) \<and> pr_conns w' i = None \<and>
         pr_kern w' = Socket_destroy S (tc_sockfd c) (pr_kern w)))"
proof -
  have "server_user S V ucb" using assms(2) by unfold_locales
  note s = server_user.always_safe [OF this assms(1,3,4)]
  let ?w = "w\<lparr>pr_kern := Socket_destroy S (tc_sockfd c) (pr_kern w), pr_conns := (pr_conns w)(i := None)\<rparr>"
  have free: "server_step S inet_addr ucb alloc user (w, ph) (?w, ph)" if "unreferenced w (outstanding w ph) i"
    by (rule step_free [OF _ that]) (simp_all add: assms(5) TcpConnection_destroy_def)
  have "ts_connections (pr_server w) (tc_name c) = Some i" if "tc_state c \<noteq> kDisconnected"
    using soundD(4) [OF safeD(4) [OF s assms(5)] that] safeD(5) [OF s assms(5)] by simp
  moreover have "(\<forall>l\<in>server_loops (pr_server w). \<forall>f. \<not> registered V w l f (ConnChannelOf i)) \<and>
      (\<exists>w'. server_step S inet_addr ucb alloc user (w, ph) (w', ph) \<and> pr_conns w' i = None \<and>
         pr_kern w' = Socket_destroy S (tc_sockfd c) (pr_kern w))"
    if down: "tc_state c = kDisconnected" "\<forall>l\<in>server_loops (pr_server w). \<forall>t\<in>set (outstanding w ph l). task_ref t \<noteq> Some i"
  proof -
    have u: "unreferenced w (outstanding w ph) i" by (rule down_unreferenced [OF s assms(5) down])
    show ?thesis
      using unreferenced_unregistered [OF s u] free [OF u] by (intro conjI ballI allI exI [of _ ?w]) auto
  qed
  ultimately show ?thesis by blast
qed

text \<open>C8: The rounds of the code are runs of the step relation. In any state that threads have come
  to, a whole round of \<open>loop()\<close> in a loop's thread, as \<open>process_round\<close> composes it (poll, every ready
  channel, the functors), ends in a state that single steps lead to as well, or by \<open>LOG_FATAL\<close> or the
  vector's length error. So what holds in all runs holds from round to round. (For the base loop, the one that accepts:
  provided that where this very round handles the acceptor's channel, a client can be taken in: connection numbers are
  left and the new object and the new descriptor are not in use.)\<close>

theorem rounds_are_runs:
  assumes "server_doc S V" and "good_user V ucb" and "fresh_server V w0"
    and "server_run S inet_addr ucb alloc user (w0, \<lambda>_. Waiting) (w, ph)"
    and "l \<in> server_loops (pr_server w0)" and "ph l = Waiting"
    and "l = ts_loop (pr_server w0) \<Longrightarrow> accepts_in_round S inet_addr ucb alloc l w"
  shows "holdsE conn_error (\<lambda>s'. server_run S inet_addr ucb alloc user (w0, \<lambda>_. Waiting) (loop_put s', ph))
    (process_round S inet_addr ucb alloc user (loop_view l (in_thread l w)))"
proof -
  note st = fresh_safe [OF assms(3)]
  have "l \<in> server_loops (pr_server w)" using run_loops [OF assms(1,2) st assms(4)] assms(5) by simp
  then show ?thesis using round_run [OF assms(1,2) st _ assms(4) _ assms(6)] assms(7) by simp
qed

text \<open>C12: The process stays well formed. In every run the table leads from a name to a living object
  of that name, on one of the server's loops, with its identity; no two objects share a name or a
  descriptor; and every name is one that \<open>newConnection\<close> gave out.\<close>

theorem server_well_formed:
  assumes "server_doc S V" and "good_user V ucb" and "fresh_server V w0"
    and "server_run S inet_addr ucb alloc user (w0, \<lambda>_. Waiting) (w, ph)"
  shows "(\<forall>name i. ts_connections (pr_server w) name = Some i \<longrightarrow>
      (\<exists>c. pr_conns w i = Some c \<and> tc_name c = name \<and> tc_id c = i \<and> tc_loop c \<in> server_loops (pr_server w0))) \<and>
    (\<forall>i j c d. pr_conns w i = Some c \<and> pr_conns w j = Some d \<and> (tc_name c = tc_name d \<or> tc_sockfd c = tc_sockfd d) \<longrightarrow> i = j) \<and>
    (\<forall>i c. pr_conns w i = Some c \<longrightarrow> (\<exists>n. 1 \<le> n \<and> n < ts_nextConnId (pr_server w) \<and> tc_name c = conn_name (pr_server w) n))"
proof -
  have "server_user S V ucb" using assms(2) by unfold_locales
  note s = server_user.always_safe [OF this assms(1,3,4)]
  note ok = process_okD [OF safeD(1) [OF s]]
  have L: "tc_loop c \<in> server_loops (pr_server w0)" if "pr_conns w i = Some c" for i c
    using soundD(2) [OF safeD(4) [OF s that]] run_loops [OF assms(1,2) fresh_safe [OF assms(3)] assms(4)] by simp
  have "i = j" if "pr_conns w i = Some c" "pr_conns w j = Some d" "tc_name c = tc_name d \<or> tc_sockfd c = tc_sockfd d" for i j c d
    using ok(4) [OF that(1,2)] safeD(3) [OF s, unfolded distinct_fds_def, THEN conjunct1, rule_format, OF that(1,2)] that(3) by blast
  moreover have "\<exists>c. pr_conns w i = Some c \<and> tc_name c = name \<and> tc_id c = i \<and> tc_loop c \<in> server_loops (pr_server w0)"
    if "ts_connections (pr_server w) name = Some i" for name i
    using ok(5) [OF that] ok(2) L by blast
  moreover note ok(3)
  ultimately show ?thesis by blast
qed

text \<open>C29: A functor of \<open>send\<close> does not keep its connection alive. \<open>send\<close> tests the state and then, from
  another thread, queues a functor that binds the bare \<open>this\<close>. When such functors are all that is
  left of a connection that has been removed meanwhile, the object can be destroyed, and the loop's
  next turn of functors then uses the freed object.\<close>

theorem raw_functor_dangles:
  assumes "l \<in> server_loops (pr_server w)" and "ph l = Dispatching []" and "pending w l = SendInLoop i p n # ts"
    and "pr_conns w i = Some c" and "ts_connections (pr_server w) = Map.empty"
    and "\<forall>m\<in>server_loops (pr_server w). \<forall>t\<in>set (outstanding w ph m). \<exists>p n. t = SendInLoop i p n"
  shows "\<exists>w'. server_run S inet_addr ucb alloc user (w, ph) (w', ph(l := Draining (SendInLoop i p n # ts))) \<and>
    run_functor S ucb user (SendInLoop i p n) (in_thread l w') = Inl UseAfterFree"
proof -
  let ?w = "w\<lparr>pr_kern := Socket_destroy S (tc_sockfd c) (pr_kern w), pr_conns := (pr_conns w)(i := None)\<rparr>"
  have "unreferenced w (outstanding w ph) i"
    using assms(5,6) unfolding unreferenced_def by fastforce
  then have "server_step S inet_addr ucb alloc user (w, ph) (?w, ph)"
    by (rule step_free [rotated]) (simp_all add: assms(4) TcpConnection_destroy_def)
  moreover have "server_step S inet_addr ucb alloc user (?w, ph) (turn_swap l ?w, ph(l := Draining (pending ?w l)))"
    by (rule step_swap) (simp_all add: assms(1,2))
  moreover have "pending ?w l = SendInLoop i p n # ts" using assms(3) by (simp add: pending_def)
  ultimately have "server_run S inet_addr ucb alloc user (w, ph) (turn_swap l ?w, ph(l := Draining (SendInLoop i p n # ts)))"
    using run_more [OF run_more [OF run_none]] by metis
  moreover have "run_functor S ucb user (SendInLoop i p n) (in_thread l (turn_swap l ?w)) = Inl UseAfterFree"
    by (simp add: on_conn_def turn_swap_def swap_begin_def in_thread_def loop_put_def)
  ultimately show ?thesis by blast
qed

section \<open>A run on the concrete kernel\<close>

text \<open>A server with one more loop, listening on descriptor 5; one client is waiting.\<close>

definition ready_process :: "sim process" where
  "ready_process = sample_process\<lparr>
     pr_kern := sim_init\<lparr>sim_conns := [\<lparr>sin_family = 2, sin_port = 1000, sin_addr = 7\<rparr>], sim_ready := [[(5, kReadEvent)]],
       sim_reg := (\<lambda>_ _. None)(3 := [5 \<mapsto> (kReadEvent, AcceptChannelOf 0)]), sim_next := 20\<rparr>,
     pr_loops := (\<lambda>l. (sample_loop [])\<lparr>el_threadId := 100 + int l, el_wakeupFd := 4 + 6 * int l,
       el_poller := \<lparr>ep_channels = (if l = 0 then [5 \<mapsto> AcceptChannelOf 0] else Map.empty),
         ep_epollfd = 3 + 6 * int l, ep_events_size = 16\<rparr>\<rparr>),
     pr_server := sample_server\<lparr>ts_started := 1, ts_acceptor := \<lparr>ac_sockfd = 5,
       ac_channel = (Channel_init 5)\<lparr>ch_events := kReadEvent, ch_index := kAdded\<rparr>, ac_listenning = True\<rparr>\<rparr>\<rparr>"

lemma ready_fresh: "fresh_server sim_view ready_process"
proof -
  have "process_ok ready_process"
    by (simp add: process_ok_def server_ok_def ready_process_def sample_process_def sample_server_def pool_ok_def)
  moreover have "registered sim_view ready_process l f p \<longleftrightarrow> l = 0 \<and> f = 5 \<and> p = AcceptChannelOf 0" for l f p
    by (auto simp: registered_def ready_process_def)
  ultimately show ?thesis
    by (auto simp: fresh_server_def ready_process_def sample_process_def sample_server_def server_loops_def
        getAllLoops_def pending_def sample_loop_def Channel_init_def)
qed

lemma no_callbacks_user: "good_user V no_server_callbacks"
  by (simp add: good_user_def no_server_callbacks_def)

text \<open>After the base loop has polled.\<close>

definition polled_process :: "sim process" where
  "polled_process = ready_process\<lparr>pr_tid := 100, pr_kern := (pr_kern ready_process)\<lparr>sim_ready := []\<rparr>,
     pr_loops := (pr_loops ready_process)(0 := (pr_loops ready_process 0)\<lparr>
       el_activeChannels := [AcceptChannelOf 0], el_pollRetureTime := Timestamp_of 0\<rparr>),
     pr_server := (pr_server ready_process)\<lparr>ts_acceptor := (ts_acceptor (pr_server ready_process))\<lparr>
       ac_channel := (ac_channel (ts_acceptor (pr_server ready_process)))\<lparr>ch_revents := kReadEvent\<rparr>\<rparr>\<rparr>\<rparr>"

lemma ready_poll: "turn_poll sim_sys 0 ready_process = polled_process"
  by (simp add: polled_process_def turn_poll_def ready_process_def sample_process_def loop_poll_def poll_def sim_epoll_wait_def
      sim_events_def sim_init_def in_thread_def loop_put_def loop_view_def Timestamp_now_def Let_def upd_server_def set_revents_def)

definition ready_phases :: "loop_id \<Rightarrow> phase" where
  "ready_phases = (\<lambda>_. Waiting)(0 := Dispatching [AcceptChannelOf 0])"

lemma ready_loops: "0 \<in> server_loops (pr_server ready_process)" "0 \<in> server_loops (pr_server polled_process)"
  by (simp_all add: server_loops_def polled_process_def ready_process_def sample_process_def sample_server_def)

lemma ready_run: "server_run sim_sys inet_addr ucb alloc user (ready_process, \<lambda>_. Waiting)
    (polled_process, ready_phases)"
proof -
  have "el_activeChannels (pr_loops polled_process 0) = [AcceptChannelOf 0]" by (simp add: polled_process_def)
  then have "server_step sim_sys inet_addr ucb alloc user (ready_process, \<lambda>_. Waiting) (polled_process, ready_phases)"
    using step_poll [where w = ready_process and ph = "\<lambda>_. Waiting", OF ready_loops(1) refl, of sim_sys]
    by (simp add: ready_poll ready_phases_def)
  then show ?thesis by (rule run_more [OF run_none])
qed

lemma ready_accept: "can_accept sim_sys (\<lambda>_. 9) (in_thread 0 polled_process)"
  by (auto simp: can_accept_def in_use_def in_thread_def polled_process_def ready_process_def sample_process_def sample_server_def
      sim_accept_def Channel_init_def server_loops_def getAllLoops_def sample_loop_def)


lemma read_bits: "kReadEvent AND EPOLLHUP = 0" "kReadEvent AND EPOLLERR = 0" "kReadEvent AND (EPOLLIN OR EPOLLPRI) \<noteq> 0"
    "kReadEvent AND EPOLLOUT = 0"
  by (simp_all add: event_defs)

text \<open>The acceptor's channel is handled: the client gets the connection 9, on loop 1.\<close>

lemma accepted: "\<exists>w c. handle_channel sim_sys (\<lambda>_. 0) ucb (\<lambda>_. 9) (AcceptChannelOf 0)
     (el_pollRetureTime (pr_loops polled_process 0)) (in_thread 0 polled_process) = Inr w \<and> pr_conns w 9 = Some c"
proof -
  let ?w = "in_thread 0 polled_process" and ?t = "el_pollRetureTime (pr_loops polled_process 0)"
  have ch: "ac_channel (ts_acceptor (pr_server polled_process)) = (Channel_init 5)\<lparr>ch_events := kReadEvent, ch_index := kAdded, ch_revents := kReadEvent\<rparr>"
    by (simp add: polled_process_def ready_process_def)
  have k: "sim_conns (pr_kern polled_process) = [\<lparr>sin_family = 2, sin_port = 1000, sin_addr = 7\<rparr>]"
    by (simp add: in_thread_def polled_process_def ready_process_def)
  obtain k' peer where a: "accept sim_sys (ac_sockfd (ts_acceptor (pr_server ?w))) (InetAddress_init (\<lambda>_. 0) 0 ''127.0.0.1'') (pr_kern ?w) =
      (Done (sim_next (pr_kern ?w)), peer, k')"
    by (simp add: accept_def sim_accept_def k)
  let ?u = "?w\<lparr>pr_kern := k'\<rparr>"
  have u: "process_ok ?u" "ts_nextConnId (pr_server ?u) < 2147483647" "pr_conns ?u 9 = None" "pr_tid ?u = 100"
      "\<And>l. el_threadId (pr_loops ?u l) = 100 + int l"
    by (simp_all add: process_ok_def server_ok_def pool_ok_def in_thread_def polled_process_def ready_process_def sample_process_def sample_server_def sample_loop_def)
  have one: "getNextLoop (ts_threadPool (pr_server ?u)) = Inr (l, p) \<Longrightarrow> l = 1" for l p
    by (simp add: in_thread_def polled_process_def ready_process_def sample_process_def sample_server_def getNextLoop_def Let_def)
  obtain p c k2 where c: "getNextLoop (ts_threadPool (pr_server ?u)) = Inr (tc_loop c, p)" "tc_id c = 9"
      "newConnection sim_sys ucb 9 (sim_next (pr_kern ?w)) peer ?u = (if el_threadId (pr_loops ?u (tc_loop c)) = pr_tid ?u
         then on_conn 9 (connectEstablished sim_sys (server_conn_callbacks sim_sys ucb)) (with_connection p c k2 ?u)
         else Inr (queued sim_sys (tc_loop c) (ConnectEstablished 9) (with_connection p c k2 ?u)))"
    using newConnection_adds [OF u(1,2,3)] unfolding new_object_def by metis
  have "tc_loop c = 1" by (rule one [OF c(1)])
  then have "acceptor_read sim_sys (\<lambda>_. 0) ucb 9 ?w =
      Inr (queued sim_sys 1 (ConnectEstablished 9) (with_connection p c k2 ?u))"
    unfolding acceptor_read_eq a using c(3) u(4,5) by simp
  then have "handle_channel sim_sys (\<lambda>_. 0) ucb (\<lambda>_. 9) (AcceptChannelOf 0) ?t ?w =
      Inr (queued sim_sys 1 (ConnectEstablished 9) (with_connection p c k2 ?u))"
    using ch by (simp add: handleEvent_def handleEventWithGuard_def acceptor_callbacks_def Channel_init_def read_bits)
  then show ?thesis using c(2) by simp
qed

text \<open>The base loop's round, in which it accepts a client.\<close>

lemma ready_round_accepts:
  "el_activeChannels (st_loop (loop_poll sim_sys with_channel (loop_view 0 (in_thread 0 ready_process)))) = [AcceptChannelOf 0]"
  "accepts_in_round sim_sys (\<lambda>_. 0) no_server_callbacks (\<lambda>_. 9) 0 ready_process"
proof -
  let ?s = "loop_poll sim_sys with_channel (loop_view 0 (in_thread 0 ready_process))"
  have c: "cut_of 0 ?s polled_process"
    using poll_cut(1) [OF server_docD(1,2) [OF sim_server_doc], of 0 ready_process] by (simp add: ready_poll)
  then show ps: "el_activeChannels (st_loop ?s) = [AcceptChannelOf 0]"
    by (simp add: cut_of_loop) (simp add: polled_process_def)
  have "in_thread 0 polled_process = loop_put ?s" using c by (simp add: cut_of_def in_own_thread)
  then have "can_accept sim_sys (\<lambda>_. 9) (loop_put ?s)" using ready_accept by simp
  moreover have "holdsE (\<lambda>_. True) (\<lambda>_. True) m" for m :: "error + 'z" by (cases m) simp_all
  ultimately show "accepts_in_round sim_sys (\<lambda>_. 0) no_server_callbacks (\<lambda>_. 9) 0 ready_process"
    by (simp add: accepts_in_round_def ps Let_def)
qed

theorem rounds_are_runs_witness:
  "el_activeChannels (st_loop (loop_poll sim_sys with_channel (loop_view 0 (in_thread 0 ready_process)))) = [AcceptChannelOf 0] \<and>
   holdsE conn_error (\<lambda>s'. server_run sim_sys (\<lambda>_. 0) no_server_callbacks (\<lambda>_. 9) (\<lambda>_. Inr) (ready_process, \<lambda>_. Waiting)
      (loop_put s', \<lambda>_. Waiting))
    (process_round sim_sys (\<lambda>_. 0) no_server_callbacks (\<lambda>_. 9) (\<lambda>_. Inr) (loop_view 0 (in_thread 0 ready_process)))"
  using rounds_are_runs [OF sim_server_doc no_callbacks_user ready_fresh run_none ready_loops(1) refl ready_round_accepts(2)]
    ready_round_accepts(1) by simp

lemma accepted_run: "\<exists>w c. server_run sim_sys (\<lambda>_. 0) ucb (\<lambda>_. 9) (\<lambda>_. Inr) (ready_process, \<lambda>_. Waiting)
      (w, ready_phases(0 := Dispatching [])) \<and> pr_conns w 9 = Some c"
proof -
  obtain w c where w: "handle_channel sim_sys (\<lambda>_. 0) ucb (\<lambda>_. 9) (AcceptChannelOf 0)
     (el_pollRetureTime (pr_loops polled_process 0)) (in_thread 0 polled_process) = Inr w" "pr_conns w 9 = Some c"
    using accepted by blast
  have "server_step sim_sys (\<lambda>_. 0) ucb (\<lambda>_. 9) (\<lambda>_. Inr) (polled_process, ready_phases)
      (w, ready_phases(0 := Dispatching []))"
    by (rule step_handle [OF ready_loops(2) _ _ w(1)]) (simp_all add: ready_phases_def ready_accept)
  with w(2) show ?thesis using run_more [OF ready_run] by blast
qed

theorem closed_connections_go_witness:
  "\<exists>w c. server_run sim_sys (\<lambda>_. 0) no_server_callbacks (\<lambda>_. 9) (\<lambda>_. Inr) (ready_process, \<lambda>_. Waiting)
      (w, ready_phases(0 := Dispatching [])) \<and> pr_conns w 9 = Some c \<and>
     (tc_state c = kDisconnected \<or> ts_connections (pr_server w) (tc_name c) = Some 9)"
  using accepted_run closed_connections_go [OF sim_server_doc no_callbacks_user ready_fresh] by blast

theorem server_well_formed_witness:
  "\<exists>w c n. server_run sim_sys (\<lambda>_. 0) no_server_callbacks (\<lambda>_. 9) (\<lambda>_. Inr) (ready_process, \<lambda>_. Waiting)
      (w, ready_phases(0 := Dispatching [])) \<and> pr_conns w 9 = Some c \<and>
     1 \<le> n \<and> n < ts_nextConnId (pr_server w) \<and> tc_name c = conn_name (pr_server w) n"
  using accepted_run server_well_formed [OF sim_server_doc no_callbacks_user ready_fresh] by blast

text \<open>A connection on loop 1 that has left the table, with one functor of \<open>send\<close> still queued.\<close>

definition late_send :: "sim process" where
  "late_send = ready_process\<lparr>
     pr_conns := (case TcpConnection_init sim_sys 9 (Some 1) ''E'' 20 (InetAddress_of \<lparr>sin_family = 2, sin_port = 0, sin_addr = 0\<rparr>)
         (InetAddress_of \<lparr>sin_family = 2, sin_port = 0, sin_addr = 0\<rparr>) sim_init of
       Inr (c, k) \<Rightarrow> [9 \<mapsto> c\<lparr>tc_state := kDisconnected\<rparr>] | Inl e \<Rightarrow> Map.empty),
     pr_loops := (pr_loops ready_process)(1 := (pr_loops ready_process 1)\<lparr>el_pendingFunctors := [SendInLoop 9 0 4]\<rparr>)\<rparr>"

theorem raw_functor_dangles_witness:
  "\<exists>w'. server_run sim_sys (\<lambda>_. 0) no_server_callbacks (\<lambda>_. 9) (\<lambda>_. Inr)
      (late_send, (\<lambda>_. Waiting)(1 := Dispatching [])) (w', (\<lambda>_. Waiting)(1 := Draining [SendInLoop 9 0 4])) \<and>
    run_functor sim_sys no_server_callbacks (\<lambda>_. Inr) (SendInLoop 9 0 4) (in_thread 1 w') = Inl UseAfterFree"
proof -
  let ?ph = "(\<lambda>_. Waiting)(1 := Dispatching [])"
  have L: "server_loops (pr_server late_send) = {0, 1}"
    by (simp add: server_loops_def late_send_def ready_process_def sample_process_def sample_server_def getAllLoops_def)
  have o: "outstanding late_send ?ph 0 = []" "outstanding late_send ?ph 1 = [SendInLoop 9 0 4]" "pending late_send 1 = [SendInLoop 9 0 4]"
    by (simp_all add: outstanding_def pending_def late_send_def ready_process_def sample_loop_def)
  let ?a = "InetAddress_of \<lparr>sin_family = 2, sin_port = 0, sin_addr = 0\<rparr>"
  obtain c0 k where "TcpConnection_init sim_sys 9 (Some 1) ''E'' 20 ?a ?a sim_init = Inr (c0, k)"
    using TcpConnection_init_ok [of sim_sys 9 1 "''E''" 20 ?a ?a sim_init] by blast
  then have c: "pr_conns late_send 9 = Some (c0\<lparr>tc_state := kDisconnected\<rparr>)"
    by (simp add: late_send_def)
  have e: "ts_connections (pr_server late_send) = Map.empty"
    by (simp add: late_send_def ready_process_def sample_process_def sample_server_def)
  have "\<forall>m\<in>server_loops (pr_server late_send). \<forall>t\<in>set (outstanding late_send ?ph m). \<exists>p n. t = SendInLoop 9 p n"
    unfolding L using o by simp
  from raw_functor_dangles [where w = late_send and ph = ?ph and l = 1, OF _ _ o(3) c e this]
  show ?thesis using L by simp
qed

end
