(* ===== verification/ServerStop.thy ===== *)
theory ServerStop
  imports ServerProperties
begin

text \<open>
  The destructor of the server (src/src/TcpServer.cpp: \<open>~TcpServer\<close>, with the destructors of its members:
  src/src/EventLoopThread.cpp, src/src/Acceptor.cpp), run in the main thread while the threads of the pool's loops go
  on. Each connection is handed to its loop; then, one thread after the other, the loop is told to quit and the
  thread is joined; then the acceptor stops listening. \<open>teardown_step\<close> interleaves this with the other
  threads: their loops' steps are those of the theory ServerRun, but that a loop that is told to quit leaves
  \<open>loop()\<close> at the top of a round instead of polling, and is destroyed with its queue. (All loops are in
  \<open>loop()\<close> here; for one that has not yet come there see the theory EventLoopThread.)
\<close>

section \<open>The destructor and the other threads\<close>

text \<open>Where the main thread is: in the body's loop over the table, with the names it has still to come
  to (in the order of the hash map); at the pool's threads it has still to stop; in the \<open>join\<close> of one; done.\<close>

datatype destructor_pc = Walking "string list" | Stopping "loop_id list" | Joining loop_id "loop_id list" | Closed

text \<open>The thread function's end: the loop is destroyed, and with it the functors still in its queue.\<close>

definition end_loop :: "'k sys \<Rightarrow> loop_id \<Rightarrow> 'k process \<Rightarrow> error + 'k process" where
  "end_loop S l w = bindE (EventLoop_destroy S (loop_view l w)) (\<lambda>(slot, k).
     Inr (w\<lparr>pr_kern := k, pr_loops := (pr_loops w)(l := (pr_loops w l)\<lparr>el_pendingFunctors := []\<rparr>)\<rparr>))"

text \<open>A state: where the destructor is, the loops whose threads have ended (for them the member \<open>loop_\<close> of the
  thread object is null again), and the process with the phases of its loops.\<close>

type_synonym 'k teardown = "destructor_pc \<times> loop_id set \<times> 'k process \<times> (loop_id \<Rightarrow> phase)"

inductive teardown_step :: "'k sys \<Rightarrow> (string \<Rightarrow> 32 word) \<Rightarrow> 'k process server_callbacks \<Rightarrow> ('k process \<Rightarrow> conn_id) \<Rightarrow>
    (nat \<Rightarrow> 'k process \<Rightarrow> error + 'k process) \<Rightarrow> 'k teardown \<Rightarrow> 'k teardown \<Rightarrow> bool"
  for S inet_addr ucb alloc user where
  td_thread: "server_step S inet_addr ucb alloc user (w, ph) (w', ph') \<Longrightarrow>
    (\<forall>m. ph' m \<noteq> ph m \<longrightarrow> m \<noteq> ts_loop (pr_server w) \<and> m \<notin> E \<and> (ph m = Waiting \<longrightarrow> \<not> el_quit (pr_loops w m))) \<Longrightarrow>
    teardown_step S inet_addr ucb alloc user (pc, E, w, ph) (pc, E, w', ph')"
| td_end: "l \<in> set (tp_loops (ts_threadPool (pr_server w))) \<Longrightarrow> l \<notin> E \<Longrightarrow> ph l = Waiting \<Longrightarrow> el_quit (pr_loops w l) \<Longrightarrow>
    end_loop S l (in_thread l w) = Inr w' \<Longrightarrow>
    teardown_step S inet_addr ucb alloc user (pc, E, w, ph) (pc, insert l E, w', ph)"
| td_entry: "destroy_entry S ucb name (in_thread (ts_loop (pr_server w)) w) = Inr w' \<Longrightarrow>
    teardown_step S inet_addr ucb alloc user (Walking (name # names), E, w, ph) (Walking names, E, w', ph)"
| td_members: "teardown_step S inet_addr ucb alloc user (Walking [], E, w, ph)
    (Stopping (tp_loops (ts_threadPool (pr_server w))), E, w, ph)"
| td_quit: "l \<notin> E \<Longrightarrow> on_loop l (\<lambda>s. Inr (quit S s)) (in_thread (ts_loop (pr_server w)) w) = Inr w' \<Longrightarrow>
    teardown_step S inet_addr ucb alloc user (Stopping (l # ls), E, w, ph) (Joining l ls, E, w', ph)"
| td_no_loop: "l \<in> E \<Longrightarrow> teardown_step S inet_addr ucb alloc user (Stopping (l # ls), E, w, ph) (Stopping ls, E, w, ph)"
| td_joined: "l \<in> E \<Longrightarrow> teardown_step S inet_addr ucb alloc user (Joining l ls, E, w, ph) (Stopping ls, E, w, ph)"
| td_acceptor: "on_acceptor (Acceptor_destroy S) (in_thread (ts_loop (pr_server w)) w) = Inr w' \<Longrightarrow>
    teardown_step S inet_addr ucb alloc user (Stopping [], E, w, ph) (Closed, E, w', ph)"

abbreviation teardown_run where
  "teardown_run S inet_addr ucb alloc user \<equiv> (teardown_step S inet_addr ucb alloc user)\<^sup>*\<^sup>*"

section \<open>Lemmas: handing over\<close>

text \<open>What the walk over the table leaves at the loop \<open>l\<close>.\<close>

definition goodbyes :: "'k process \<Rightarrow> loop_id \<Rightarrow> string list \<Rightarrow> task list" where
  "goodbyes w l order = concat (map (\<lambda>name. case ts_connections (pr_server w) name of None \<Rightarrow> [] | Some i \<Rightarrow>
     (case pr_conns w i of None \<Rightarrow> [] | Some c \<Rightarrow> if tc_loop c = l then [ConnectDestroyed i] else [])) order)"

text \<open>The connection of that name lives on a loop of another thread.\<close>

definition elsewhere :: "'k process \<Rightarrow> string \<Rightarrow> bool" where
  "elsewhere w name \<longleftrightarrow> (\<exists>i c. ts_connections (pr_server w) name = Some i \<and> pr_conns w i = Some c \<and>
     el_threadId (pr_loops w (tc_loop c)) \<noteq> pr_tid w)"

lemma erased_simps [simp]:
  "pr_conns (erased name w) = pr_conns w" "pr_loops (erased name w) = pr_loops w" "pr_tid (erased name w) = pr_tid w"
  "pr_kern (erased name w) = pr_kern w"
  "pr_server (erased name w) = (pr_server w)\<lparr>ts_connections := (ts_connections (pr_server w))(name := None)\<rparr>"
  by (simp_all add: erased_def upd_server_def)

lemma goodbyes_other:
  "name \<notin> set order \<Longrightarrow> goodbyes (queued S m t (erased name w)) l order = goodbyes w l order"
  unfolding goodbyes_def by (rule arg_cong [where f = concat], rule map_cong) (auto split: option.splits)

lemma elsewhere_other: "n \<noteq> name \<Longrightarrow> elsewhere (queued S m t (erased name w)) n = elsewhere w n"
proof -
  have "el_threadId (pr_loops (queued S m t (erased name w)) l) = el_threadId (pr_loops w l)" for l by simp
  then show "n \<noteq> name \<Longrightarrow> ?thesis" unfolding elsewhere_def by (simp del: queued_simps(5))
qed

lemma destroy_entry_elsewhere:
  assumes "ts_connections (pr_server w) name = Some i" and "pr_conns w i = Some c"
    and "el_threadId (pr_loops w (tc_loop c)) \<noteq> pr_tid w"
  shows "destroy_entry S ucb name w = Inr (queued S (tc_loop c) (ConnectDestroyed i) (erased name w))"
  using assms(3) by (simp add: destroy_entry_def assms(1,2) on_loop_run flip: erased_def)

lemma walk_run:
  assumes b: "b = ts_loop (pr_server w)"
  shows "distinct order \<Longrightarrow> pr_tid w = el_threadId (pr_loops w b) \<Longrightarrow> b = ts_loop (pr_server w) \<Longrightarrow>
    \<forall>name\<in>set order. elsewhere w name \<Longrightarrow>
    \<exists>w1. teardown_run S inet_addr ucb alloc user (Walking order, E, w, ph) (Walking [], E, w1, ph) \<and>
      pr_conns w1 = pr_conns w \<and> pr_tid w1 = pr_tid w \<and>
      pr_server w1 = (pr_server w)\<lparr>ts_connections := (\<lambda>n. if n \<in> set order then None else ts_connections (pr_server w) n)\<rparr> \<and>
      (\<forall>l. pr_loops w1 l = (pr_loops w l)\<lparr>el_pendingFunctors := pending w l @ goodbyes w l order\<rparr>)"
proof (induction order arbitrary: w)
  case Nil
  then show ?case by (intro exI [of _ w]) (simp add: goodbyes_def pending_def)
next
  case (Cons name order)
  obtain i c where c: "ts_connections (pr_server w) name = Some i" "pr_conns w i = Some c"
      "el_threadId (pr_loops w (tc_loop c)) \<noteq> pr_tid w"
    using Cons.prems(4) by (auto simp: elsewhere_def)
  let ?w = "queued S (tc_loop c) (ConnectDestroyed i) (erased name w)"
  have "elsewhere ?w n" if "n \<in> set order" for n
    using Cons.prems that elsewhere_other [of n name] by (metis distinct.simps(2) list.set_intros(2))
  moreover have "pr_tid ?w = el_threadId (pr_loops ?w b)" "b = ts_loop (pr_server ?w)" using Cons.prems(2,3) by simp_all
  ultimately obtain w1 where w1: "teardown_run S inet_addr ucb alloc user (Walking order, E, ?w, ph) (Walking [], E, w1, ph)"
      "pr_conns w1 = pr_conns w" "pr_tid w1 = pr_tid w"
      "pr_server w1 = (pr_server ?w)\<lparr>ts_connections := (\<lambda>n. if n \<in> set order then None else ts_connections (pr_server ?w) n)\<rparr>"
      "\<And>l. pr_loops w1 l = (pr_loops ?w l)\<lparr>el_pendingFunctors := pending ?w l @ goodbyes ?w l order\<rparr>"
    using Cons.IH [of ?w] Cons.prems(1) by auto
  have "in_thread (ts_loop (pr_server w)) w = w" using Cons.prems(2,3) by (simp add: in_own_thread)
  then have "teardown_step S inet_addr ucb alloc user (Walking (name # order), E, w, ph) (Walking order, E, ?w, ph)"
    by (intro td_entry) (simp add: destroy_entry_elsewhere [OF c])
  with w1(1) have "teardown_run S inet_addr ucb alloc user (Walking (name # order), E, w, ph) (Walking [], E, w1, ph)"
    by (rule converse_rtranclp_into_rtranclp [rotated])
  moreover have "pr_loops w1 l = (pr_loops w l)\<lparr>el_pendingFunctors := pending w l @ goodbyes w l (name # order)\<rparr>" for l
    using w1(5) [of l] goodbyes_other [of name order S] Cons.prems(1) c(1,2)
    by (simp add: pending_def) (auto simp: goodbyes_def)
  moreover have "pr_server w1 =
      (pr_server w)\<lparr>ts_connections := (\<lambda>n. if n \<in> set (name # order) then None else ts_connections (pr_server w) n)\<rparr>"
    unfolding w1(4) by (simp add: fun_eq_iff)
  ultimately show ?case using w1(2,3) by blast
qed

section \<open>Lemmas: stopping the threads\<close>

text \<open>\<open>disableAll\<close> and \<open>remove\<close> return, whatever the kernel answers.\<close>

lemma unwatch_returns:
  assumes "ch_index ch = kAdded"
  shows "\<exists>ch1 q1 ch2 q. disableAll S p ch s = Inr (ch1, with_poller q1 s) \<and>
    removeChannel S p ch1 (with_poller q1 s) = Inr (ch2, with_poller q s)"
proof -
  let ?ch = "ch\<lparr>ch_events := kNoneEvent\<rparr>"
  obtain k where "poller_update S EPOLL_CTL_DEL p ?ch (el_poller (st_loop s)) (st_kern s) = Inr k"
    using poller_update_del [of S p ?ch "el_poller (st_loop s)" "st_kern s"] by blast
  then have "disableAll S p ch s = Inr (set_index kDeleted ?ch, with_poller (el_poller (st_loop s), k) s)"
    using assms by (simp add: disableAll_def updateChannel_eq poller_updateChannel_def index_defs isNoneEvent_def Let_def)
  moreover have "\<exists>q. removeChannel S p (set_index kDeleted ?ch) s1 = Inr (set_index kNew (set_index kDeleted ?ch), with_poller q s1)" for s1
    by (simp add: removeChannel_eq poller_removeChannel_def index_defs Let_def) blast
  moreover have "with_poller q (with_poller q1 s) = with_poller q s" for q q1 by (simp add: with_poller_def)
  ultimately show ?thesis by metis
qed

lemma EventLoop_destroy_returns:
  "ch_index (el_wakeupChannel (st_loop s)) = kAdded \<Longrightarrow> \<exists>k. EventLoop_destroy S s = Inr (None, k)"
  using unwatch_returns [of "el_wakeupChannel (st_loop s)" S "WakeupChannelOf (st_self s)" s] by (auto simp: EventLoop_destroy_def)

lemma Acceptor_destroy_returns:
  assumes "ch_index (ac_channel (st_acceptor s)) = kAdded"
  shows "\<exists>q ch. Acceptor_destroy S s = Inr (upd_acceptor (\<lambda>a. a\<lparr>ac_channel := ch\<rparr>) (with_poller q s))"
proof -
  obtain ch1 q1 ch2 q where q: "disableAll S (accept_ptr s) (ac_channel (st_acceptor s)) s = Inr (ch1, with_poller q1 s)"
      "removeChannel S (accept_ptr s) ch1 (with_poller q1 s) = Inr (ch2, with_poller q s)"
    using unwatch_returns [OF assms, of S "accept_ptr s" s] by blast
  have "accept_ptr (with_poller q1 s) = accept_ptr s" by (simp add: accept_ptr_def)
  with q have "Acceptor_destroy S s = Inr (upd_acceptor (\<lambda>a. a\<lparr>ac_channel := ch2\<rparr>)
      (with_poller (fst q, Socket_destroy S (ac_sockfd (st_acceptor s)) (snd q)) s))"
    by (simp add: Acceptor_destroy_def with_poller_def upd_acceptor_def)
  then show ?thesis by blast
qed

lemma quit_loop:
  "\<exists>w'. on_loop l (\<lambda>s. Inr (quit S s)) w = Inr w' \<and> pr_conns w' = pr_conns w \<and> pr_server w' = pr_server w \<and>
    pr_loops w' = (pr_loops w)(l := (pr_loops w l)\<lparr>el_quit := True\<rparr>)"
  by (simp add: on_loop_def quit_def Let_def loop_put_def wakeup_def)

lemma end_loop_returns:
  assumes "ch_index (el_wakeupChannel (pr_loops w l)) = kAdded"
  shows "\<exists>w'. end_loop S l w = Inr w' \<and> pr_conns w' = pr_conns w \<and> pr_server w' = pr_server w \<and>
    pr_loops w' = (pr_loops w)(l := (pr_loops w l)\<lparr>el_pendingFunctors := []\<rparr>)"
  using EventLoop_destroy_returns [of "loop_view l w" S] assms by (auto simp: end_loop_def)

text \<open>One thread, at the end of its round when it is told to quit.\<close>

lemma stop_one:
  assumes l: "l \<in> set (tp_loops (ts_threadPool (pr_server w)))" "l \<notin> E" "l \<noteq> ts_loop (pr_server w)" "ph l = Draining []"
    and i: "ch_index (el_wakeupChannel (pr_loops w l)) = kAdded"
  shows "\<exists>w' y. teardown_run S inet_addr ucb alloc user (Stopping (l # ls), E, w, ph) (Stopping ls, insert l E, w', ph(l := Waiting)) \<and>
    pr_conns w' = pr_conns w \<and> pr_server w' = pr_server w \<and> pr_loops w' = (pr_loops w)(l := y) \<and> el_pendingFunctors y = []"
proof -
  obtain wa where wa: "on_loop l (\<lambda>s. Inr (quit S s)) (in_thread (ts_loop (pr_server w)) w) = Inr wa" "pr_conns wa = pr_conns w"
      "pr_server wa = pr_server w" "pr_loops wa = (pr_loops w)(l := (pr_loops w l)\<lparr>el_quit := True\<rparr>)"
    using quit_loop [of l S "in_thread (ts_loop (pr_server w)) w"] by auto
  let ?wb = "turn_done l wa" and ?ph = "ph(l := Waiting)"
  have wb: "pr_conns ?wb = pr_conns w" "pr_server ?wb = pr_server w"
      "pr_loops ?wb = (pr_loops w)(l := (pr_loops w l)\<lparr>el_quit := True, el_callingPendingFunctors := False\<rparr>)"
    using wa by (simp_all add: turn_done_def drain_end_def loop_view_def)
  obtain wc where wc: "end_loop S l (in_thread l ?wb) = Inr wc" "pr_conns wc = pr_conns w" "pr_server wc = pr_server w"
      "pr_loops wc = (pr_loops w)(l := (pr_loops w l)\<lparr>el_quit := True, el_callingPendingFunctors := False, el_pendingFunctors := []\<rparr>)"
    using end_loop_returns [of "in_thread l ?wb" l S] i wb by auto
  have mem: "l \<in> server_loops (pr_server wa)" using l(1) wa(3) by (auto simp: server_loops_def getAllLoops_def)
  have 1: "teardown_step S inet_addr ucb alloc user (Stopping (l # ls), E, w, ph) (Joining l ls, E, wa, ph)"
    by (rule td_quit [OF l(2) wa(1)])
  have 2: "teardown_step S inet_addr ucb alloc user (Joining l ls, E, wa, ph) (Joining l ls, E, ?wb, ?ph)"
    by (rule td_thread [OF step_done [where l = l and ph = ph and w = wa, OF mem l(4)]]) (use l wa in auto)
  have 3: "teardown_step S inet_addr ucb alloc user (Joining l ls, E, ?wb, ?ph) (Joining l ls, insert l E, wc, ?ph)"
    by (rule td_end [OF _ l(2) _ _ wc(1)]) (use l(1) wb in simp_all)
  have 4: "teardown_step S inet_addr ucb alloc user (Joining l ls, insert l E, wc, ?ph) (Stopping ls, insert l E, wc, ?ph)"
    by (rule td_joined) simp
  from 1 2 3 4 have "teardown_run S inet_addr ucb alloc user (Stopping (l # ls), E, w, ph) (Stopping ls, insert l E, wc, ?ph)"
    by (meson rtranclp.rtrancl_refl rtranclp.rtrancl_into_rtrancl)
  then show ?thesis using wc(2-4)
    by (intro exI [of _ wc] exI [of _ "(pr_loops w l)\<lparr>el_quit := True, el_callingPendingFunctors := False, el_pendingFunctors := []\<rparr>"]) simp
qed

lemma stop_run:
  "distinct ls \<Longrightarrow> set ls \<inter> E = {} \<Longrightarrow> set ls \<subseteq> set (tp_loops (ts_threadPool (pr_server w))) \<Longrightarrow> ts_loop (pr_server w) \<notin> set ls \<Longrightarrow>
   \<forall>l\<in>set ls. ph l = Draining [] \<and> ch_index (el_wakeupChannel (pr_loops w l)) = kAdded \<Longrightarrow>
   \<exists>w' ph'. teardown_run S inet_addr ucb alloc user (Stopping ls, E, w, ph) (Stopping [], E \<union> set ls, w', ph') \<and>
     pr_conns w' = pr_conns w \<and> pr_server w' = pr_server w \<and> (\<forall>l\<in>set ls. ph' l = Waiting \<and> pending w' l = []) \<and>
     (\<forall>l. l \<notin> set ls \<longrightarrow> ph' l = ph l \<and> pr_loops w' l = pr_loops w l)"
proof (induction ls arbitrary: E w ph)
  case Nil
  then show ?case by (intro exI [of _ w] exI [of _ ph]) simp
next
  case (Cons l ls)
  obtain w1 y where w1: "teardown_run S inet_addr ucb alloc user (Stopping (l # ls), E, w, ph) (Stopping ls, insert l E, w1, ph(l := Waiting))"
      "pr_conns w1 = pr_conns w" "pr_server w1 = pr_server w" "pr_loops w1 = (pr_loops w)(l := y)" "el_pendingFunctors y = []"
    using stop_one [of l w E ph S inet_addr ucb alloc user ls] Cons.prems by auto
  have "\<forall>m\<in>set ls. (ph(l := Waiting)) m = Draining [] \<and> ch_index (el_wakeupChannel (pr_loops w1 m)) = kAdded"
    using Cons.prems(1,5) w1(4) by auto
  moreover have "distinct ls" "set ls \<inter> insert l E = {}" "set ls \<subseteq> set (tp_loops (ts_threadPool (pr_server w1)))"
      "ts_loop (pr_server w1) \<notin> set ls"
    using Cons.prems(1-4) w1(3) by auto
  ultimately obtain w2 ph2 where w2: "teardown_run S inet_addr ucb alloc user (Stopping ls, insert l E, w1, ph(l := Waiting))
        (Stopping [], insert l E \<union> set ls, w2, ph2)"
      "pr_conns w2 = pr_conns w1" "pr_server w2 = pr_server w1" "\<forall>m\<in>set ls. ph2 m = Waiting \<and> pending w2 m = []"
      "\<forall>m. m \<notin> set ls \<longrightarrow> ph2 m = (ph(l := Waiting)) m \<and> pr_loops w2 m = pr_loops w1 m"
    using Cons.IH [of "insert l E" w1 "ph(l := Waiting)"] by blast
  have "teardown_run S inet_addr ucb alloc user (Stopping (l # ls), E, w, ph) (Stopping [], E \<union> set (l # ls), w2, ph2)"
    using rtranclp_trans [OF w1(1) w2(1)] by simp
  moreover have "\<forall>m\<in>set (l # ls). ph2 m = Waiting \<and> pending w2 m = []"
    using w2(4,5) w1(4,5) Cons.prems(1) by (auto simp: pending_def)
  ultimately show ?case using w1(2-4) w2(2,3,5)
    by (intro exI [of _ w2] exI [of _ ph2]) auto
qed

section \<open>Property\<close>

text \<open>C16: The destructor hands the connections over and may lose them all the same. Run in the main thread
  while every connection lives on a loop of another thread and those threads do not get in between, the body
  empties the table, whatever the order in which it walks it, and leaves at each loop one \<open>connectDestroyed\<close> for each of
  its connections, behind what waits there. But when the threads are at the ends of their rounds, their queues taken, there is
  a run from there in which every join returns and the destructor comes to its end, every loop of
  the pool has left \<open>loop()\<close> and been destroyed with its queue, and \<open>connectDestroyed\<close> has been run for none of
  the connections: each object is as it was, in the same state and with the same channel, and neither the table nor a functor of those loops refers to it any more.\<close>

theorem destructor_loses_connections:
  assumes "process_ok w" and "pr_tid w = el_threadId (pr_loops w (ts_loop (pr_server w)))"
    and "distinct order" and "set order = dom (ts_connections (pr_server w))"
    and "\<forall>i c. pr_conns w i = Some c \<longrightarrow> el_threadId (pr_loops w (tc_loop c)) \<noteq> pr_tid w"
    and "tp_loops (ts_threadPool (pr_server w)) = ls" and "distinct ls" and "ts_loop (pr_server w) \<notin> set ls"
    and "\<forall>l\<in>set ls. ph l = Draining [] \<and> ch_index (el_wakeupChannel (pr_loops w l)) = kAdded"
    and "ch_index (ac_channel (ts_acceptor (pr_server w))) = kAdded"
  shows "\<exists>w1 w2 ph2. teardown_run S inet_addr ucb alloc user (Walking order, {}, w, ph) (Stopping ls, {}, w1, ph) \<and>
    ts_connections (pr_server w1) = Map.empty \<and> (\<forall>l. pending w1 l = pending w l @ goodbyes w l order) \<and>
    teardown_run S inet_addr ucb alloc user (Stopping ls, {}, w1, ph) (Closed, set ls, w2, ph2) \<and>
    pr_conns w2 = pr_conns w \<and> ts_connections (pr_server w2) = Map.empty \<and> (\<forall>l\<in>set ls. outstanding w2 ph2 l = [])"
proof -
  let ?b = "ts_loop (pr_server w)"
  have "elsewhere w name" if n: "name \<in> set order" for name
  proof -
    obtain i where i: "ts_connections (pr_server w) name = Some i" using n assms(4) by auto
    then obtain c where "pr_conns w i = Some c" using process_okD(5) [OF assms(1)] by blast
    then show ?thesis using i assms(5) by (auto simp: elsewhere_def)
  qed
  then obtain w1 where w1: "teardown_run S inet_addr ucb alloc user (Walking order, {}, w, ph) (Walking [], {}, w1, ph)"
      "pr_conns w1 = pr_conns w" "pr_tid w1 = pr_tid w"
      "pr_server w1 = (pr_server w)\<lparr>ts_connections := (\<lambda>n. if n \<in> set order then None else ts_connections (pr_server w) n)\<rparr>"
      "\<And>l. pr_loops w1 l = (pr_loops w l)\<lparr>el_pendingFunctors := pending w l @ goodbyes w l order\<rparr>"
    using walk_run [OF refl assms(3) assms(2) refl, of S inet_addr ucb alloc user "{}" ph] by blast
  have "teardown_step S inet_addr ucb alloc user (Walking [], {}, w1, ph) (Stopping ls, {}, w1, ph)"
    using td_members [of S inet_addr ucb alloc user "{}" w1 ph] w1(4) assms(6) by simp
  with w1(1) have r1: "teardown_run S inet_addr ucb alloc user (Walking order, {}, w, ph) (Stopping ls, {}, w1, ph)" by simp
  have t1: "ts_connections (pr_server w1) = Map.empty"
    using assms(4) by (auto simp: w1(4) fun_eq_iff simp flip: not_Some_eq)
  have p1: "pending w1 l = pending w l @ goodbyes w l order" for l using w1(5) by (simp add: pending_def)
  have "\<forall>l\<in>set ls. ph l = Draining [] \<and> ch_index (el_wakeupChannel (pr_loops w1 l)) = kAdded" using assms(9) w1(5) by simp
  moreover have "set ls \<subseteq> set (tp_loops (ts_threadPool (pr_server w1)))" "ts_loop (pr_server w1) \<notin> set ls"
    using w1(4) assms(6,8) by simp_all
  ultimately obtain w2 ph2 where w2: "teardown_run S inet_addr ucb alloc user (Stopping ls, {}, w1, ph) (Stopping [], {} \<union> set ls, w2, ph2)"
      "pr_conns w2 = pr_conns w1" "pr_server w2 = pr_server w1" "\<forall>l\<in>set ls. ph2 l = Waiting \<and> pending w2 l = []"
    using stop_run [OF assms(7), of "{}" w1 ph S inet_addr ucb alloc user] by auto
  let ?wb = "in_thread (ts_loop (pr_server w2)) w2"
  have s: "st_acceptor (acceptor_view ?wb) = ts_acceptor (pr_server w)" "acceptor_st.more (acceptor_view ?wb) = ?wb"
      "st_self (acceptor_view ?wb) = ?b" "st_loop (acceptor_view ?wb) = pr_loops w2 ?b"
    using w2(3) w1(4) by (simp_all add: acceptor_view_def Let_def)
  obtain q ch where d: "Acceptor_destroy S (acceptor_view ?wb) = Inr (upd_acceptor (\<lambda>a. a\<lparr>ac_channel := ch\<rparr>) (with_poller q (acceptor_view ?wb)))"
    using Acceptor_destroy_returns [of "acceptor_view ?wb" S] assms(10) s(1) by auto
  let ?w3 = "acceptor_put (upd_acceptor (\<lambda>a. a\<lparr>ac_channel := ch\<rparr>) (with_poller q (acceptor_view ?wb)))"
  have "teardown_step S inet_addr ucb alloc user (Stopping [], set ls, w2, ph2) (Closed, set ls, ?w3, ph2)"
    by (rule td_acceptor) (simp add: on_acceptor_def d)
  with w2(1) have r2: "teardown_run S inet_addr ucb alloc user (Stopping ls, {}, w1, ph) (Closed, set ls, ?w3, ph2)" by simp
  have "pr_conns ?w3 = pr_conns w" "ts_connections (pr_server ?w3) = Map.empty" "pending ?w3 l = pending w2 l" for l
    using w1(2) w2(2,3) t1 s by (simp_all add: acceptor_put_def upd_acceptor_def with_poller_def upd_server_def pending_def)
  with r1 t1 p1 r2 w2(4) show ?thesis
    by (intro exI [of _ w1] exI [of _ ?w3] exI [of _ ph2]) (simp add: outstanding_def)
qed

text \<open>The listening server with one connection on loop 1.\<close>

definition busy_process :: "sim process" where
  "busy_process = ready_process\<lparr>
     pr_conns := (case TcpConnection_init sim_sys 9 (Some 1) (conn_name (pr_server ready_process) 1) 20
         (InetAddress_of \<lparr>sin_family = 2, sin_port = 0, sin_addr = 0\<rparr>)
         (InetAddress_of \<lparr>sin_family = 2, sin_port = 0, sin_addr = 0\<rparr>) sim_init of
       Inr (c, k) \<Rightarrow> [9 \<mapsto> c] | Inl e \<Rightarrow> Map.empty),
     pr_loops := (\<lambda>l. (pr_loops ready_process l)\<lparr>el_wakeupChannel :=
       (Channel_init (el_wakeupFd (pr_loops ready_process l)))\<lparr>ch_events := kReadEvent, ch_index := kAdded\<rparr>\<rparr>),
     pr_server := (pr_server ready_process)\<lparr>ts_nextConnId := 2,
       ts_connections := [conn_name (pr_server ready_process) 1 \<mapsto> 9]\<rparr>\<rparr>"

theorem destructor_loses_connections_witness:
  "\<exists>w1 w2 ph2. teardown_run sim_sys (\<lambda>_. 0) no_server_callbacks (\<lambda>_. 9) (\<lambda>_. Inr)
      (Walking [conn_name (pr_server ready_process) 1], {}, busy_process, (\<lambda>_. Waiting)(1 := Draining [])) (Stopping [1], {}, w1, (\<lambda>_. Waiting)(1 := Draining [])) \<and>
    pending w1 1 = [ConnectDestroyed 9] \<and>
    teardown_run sim_sys (\<lambda>_. 0) no_server_callbacks (\<lambda>_. 9) (\<lambda>_. Inr)
      (Stopping [1], {}, w1, (\<lambda>_. Waiting)(1 := Draining [])) (Closed, {1}, w2, ph2) \<and>
    pr_conns w2 9 = pr_conns busy_process 9 \<and> pr_conns w2 9 \<noteq> None \<and> outstanding w2 ph2 1 = []"
proof -
  let ?w = busy_process and ?n = "conn_name (pr_server ready_process) 1" and ?ph = "(\<lambda>_. Waiting)(1 := Draining [])"
  let ?a = "InetAddress_of \<lparr>sin_family = 2, sin_port = 0, sin_addr = 0\<rparr>"
  obtain c k where c: "TcpConnection_init sim_sys 9 (Some 1) ?n 20 ?a ?a sim_init = Inr (c, k)" "tc_loop c = 1" "new_object 9 ?n 20 c"
    using TcpConnection_init_ok [of sim_sys 9 1 ?n 20 ?a ?a sim_init] by blast
  have conns: "pr_conns ?w = [9 \<mapsto> c]" using c(1) by (simp add: busy_process_def)
  have table: "ts_connections (pr_server ?w) = [?n \<mapsto> 9]" by (simp add: busy_process_def)
  have srv: "pr_server ?w = (pr_server ready_process)\<lparr>ts_nextConnId := 2, ts_connections := [?n \<mapsto> 9]\<rparr>"
    by (simp add: busy_process_def)
  have names: "conn_name (pr_server ?w) = conn_name (pr_server ready_process)" unfolding srv by (simp add: conn_name_def fun_eq_iff)
  have loops: "el_threadId (pr_loops ?w l) = 100 + int l" "el_pendingFunctors (pr_loops ?w l) = []"
      "ch_index (el_wakeupChannel (pr_loops ?w l)) = kAdded" "pr_tid ?w = 100" for l
    by (simp_all add: busy_process_def) (simp_all add: ready_process_def sample_process_def sample_loop_def)
  have "process_ok ready_process" using ready_fresh by (simp add: fresh_server_def)
  then have "server_ok (pr_server ?w)" unfolding srv by (simp add: process_ok_def server_ok_def)
  moreover have "tc_id c = 9" "tc_name c = ?n" using c(3) by (simp_all add: new_object_def)
  moreover have "1 \<le> (1 :: int) \<and> 1 < ts_nextConnId (pr_server ?w)" unfolding srv by simp
  ultimately have ok: "process_ok ?w" unfolding process_ok_def conns table names by (auto split: if_splits)
  have ls: "ts_loop (pr_server ?w) = 0" "tp_loops (ts_threadPool (pr_server ?w)) = [1]"
    "ch_index (ac_channel (ts_acceptor (pr_server ?w))) = kAdded"
    unfolding srv by (simp_all add: ready_process_def sample_process_def sample_server_def)
  have own: "pr_tid ?w = el_threadId (pr_loops ?w (ts_loop (pr_server ?w)))" by (simp add: ls loops)
  have away: "\<forall>i d. pr_conns ?w i = Some d \<longrightarrow> el_threadId (pr_loops ?w (tc_loop d)) \<noteq> pr_tid ?w"
    using c(2) unfolding conns by (simp add: loops split: if_splits)
  have d: "distinct [?n]" "set [?n] = dom (ts_connections (pr_server ?w))" unfolding table by simp_all
  have e: "distinct [1 :: loop_id]" "ts_loop (pr_server ?w) \<notin> set [1]"
      "\<forall>l\<in>set [1]. ?ph l = Draining [] \<and> ch_index (el_wakeupChannel (pr_loops ?w l)) = kAdded"
    by (simp_all add: ls loops)
  have 1: "(1 :: loop_id) \<in> set [1]" "set [1 :: loop_id] = {1}" by simp_all
  obtain w1 w2 ph2 where r: "teardown_run sim_sys (\<lambda>_. 0) no_server_callbacks (\<lambda>_. 9) (\<lambda>_. Inr) (Walking [?n], {}, ?w, ?ph) (Stopping [1], {}, w1, ?ph)"
      "pending w1 1 = pending ?w 1 @ goodbyes ?w 1 [?n]"
      "teardown_run sim_sys (\<lambda>_. 0) no_server_callbacks (\<lambda>_. 9) (\<lambda>_. Inr) (Stopping [1], {}, w1, ?ph) (Closed, {1}, w2, ph2)"
      "pr_conns w2 = pr_conns ?w" "outstanding w2 ph2 1 = []"
    using destructor_loses_connections [OF ok own d away ls(2) e ls(3), of sim_sys "\<lambda>_. 0" no_server_callbacks "\<lambda>_. 9" "\<lambda>_. Inr",
      unfolded 1(2)] by blast
  have "pending ?w 1 = []" "goodbyes ?w 1 [?n] = [ConnectDestroyed 9]"
    by (simp_all add: pending_def loops goodbyes_def conns table c(2))
  with r show ?thesis by (intro exI [of _ w1] exI [of _ w2] exI [of _ ph2]) (simp add: conns)
qed

end
