(* ===== verification/ServerStart.thy ===== *)
theory ServerStart
  imports ServerProperties
begin

text \<open>
  From the constructors to a server under way: \<open>TcpServer::start\<close> (src/src/TcpServer.cpp) starts the
  pool's loops and listens, and leaves a server that is fresh in the sense of the theory
  ServerProperties, so everything proved of runs holds of it. The locale \<open>loop_spawner\<close> is what the
  start relies on when a thread with a loop is started.

  Addresses and descriptors are numbers given out by the allocator and the kernel; that things alive
  at the same time have different ones is a premise (\<open>apart\<close>).
\<close>

section \<open>New loops\<close>

text \<open>What is relied on of the kernel while the server is set up: beside epoll, that socket(2), bind(2) and
  listen(2) change no registration.\<close>

definition startup_doc :: "'k sys \<Rightarrow> 'k view \<Rightarrow> bool" where
  "startup_doc S V \<longleftrightarrow> epoll_ctl_doc S V \<and> epoll_create_doc S V \<and> passive_doc S V \<and>
     (\<forall>k. v_reg V (snd (sys_socket S k)) = v_reg V k) \<and> (\<forall>f a k. v_reg V (snd (sys_bind S f a k)) = v_reg V k) \<and>
     (\<forall>f n k. v_reg V (snd (sys_listen S f n k)) = v_reg V k)"

lemma startup_docD:
  assumes "startup_doc S V"
  shows "epoll_ctl_doc S V" "epoll_create_doc S V" "passive_doc S V" "v_reg V (snd (sys_socket S k)) = v_reg V k"
    "v_reg V (snd (sys_bind S f a k)) = v_reg V k" "v_reg V (snd (sys_listen S f n k)) = v_reg V k"
  using assms by (simp_all add: startup_doc_def)

text \<open>The loop has nothing to do, and its poller and epoll set know its wakeup channel only.\<close>

definition own_loop :: "'k view \<Rightarrow> 'k process \<Rightarrow> loop_id \<Rightarrow> bool" where
  "own_loop V w l \<longleftrightarrow> pending w l = [] \<and>
     (\<forall>f p. registered V w l f p \<longrightarrow> p = WakeupChannelOf l \<and> f = el_wakeupFd (pr_loops w l))"

text \<open>A loop has been made at the address \<open>l\<close>; nothing else has changed.\<close>

definition loop_added :: "'k view \<Rightarrow> loop_id \<Rightarrow> 'k process \<Rightarrow> 'k process \<Rightarrow> bool" where
  "loop_added V l w w' \<longleftrightarrow> own_loop V w' l \<and>
     w' = w\<lparr>pr_kern := pr_kern w', pr_loops := (pr_loops w)(l := pr_loops w' l)\<rparr> \<and>
     (\<forall>ep. ep \<noteq> ep_epollfd (el_poller (pr_loops w' l)) \<longrightarrow> v_reg V (pr_kern w') ep = v_reg V (pr_kern w) ep)"

definition apart :: "'k process \<Rightarrow> loop_id list \<Rightarrow> bool" where
  "apart w ls \<longleftrightarrow> distinct ls \<and> inj_on (\<lambda>l. ep_epollfd (el_poller (pr_loops w l))) (set ls)"

lemma loop_addedD:
  assumes "loop_added V l w w'"
  shows "own_loop V w' l" "pr_server w' = pr_server w" "pr_conns w' = pr_conns w" "pr_tid w' = pr_tid w"
    "l' \<noteq> l \<Longrightarrow> pr_loops w' l' = pr_loops w l'"
    "ep \<noteq> ep_epollfd (el_poller (pr_loops w' l)) \<Longrightarrow> v_reg V (pr_kern w') ep = v_reg V (pr_kern w) ep"
proof -
  have w': "w' = w\<lparr>pr_kern := pr_kern w', pr_loops := (pr_loops w)(l := pr_loops w' l)\<rparr>"
    using assms by (simp add: loop_added_def)
  show "pr_server w' = pr_server w" "pr_conns w' = pr_conns w" "pr_tid w' = pr_tid w" by (subst w', simp)+
  show "pr_loops w' l' = pr_loops w l'" if "l' \<noteq> l" by (subst w') (simp add: that)
qed (use assms in \<open>simp_all add: loop_added_def\<close>)

lemma own_loop_other:
  assumes a: "loop_added V l w w'" and l: "l' \<noteq> l" and own: "own_loop V w l'"
    and fd: "ep_epollfd (el_poller (pr_loops w' l')) \<noteq> ep_epollfd (el_poller (pr_loops w' l))"
  shows "own_loop V w' l'"
  using own loop_addedD(5) [OF a l] loop_addedD(6) [OF a fd] by (simp add: own_loop_def registered_def pending_def)

lemma apart_before:
  assumes a: "loop_added V l w w'" and ap: "apart w' (ls @ [l])"
  shows "apart w ls" "\<And>l'. l' \<in> set ls \<Longrightarrow> l' \<noteq> l \<and>
    ep_epollfd (el_poller (pr_loops w' l')) \<noteq> ep_epollfd (el_poller (pr_loops w' l))"
proof -
  have d: "distinct ls" "l \<notin> set ls" "inj_on (\<lambda>l. ep_epollfd (el_poller (pr_loops w' l))) (insert l (set ls))"
    using ap by (auto simp: apart_def)
  show ne: "l' \<noteq> l \<and> ep_epollfd (el_poller (pr_loops w' l')) \<noteq> ep_epollfd (el_poller (pr_loops w' l))" if "l' \<in> set ls" for l'
    using d that by (auto simp: inj_on_def)
  have "pr_loops w' l' = pr_loops w l'" if "l' \<in> set ls" for l'
    using loop_addedD(5) [OF a] ne [OF that] by blast
  then show "apart w ls" using d by (auto simp: apart_def inj_on_def)
qed

text \<open>The constructor of a loop makes such a loop.\<close>

lemma EventLoop_init_own:
  assumes docs: "startup_doc S V" and r: "EventLoop_init S self tid use_poll slot k = Inr (s, slot')"
  shows "el_pendingFunctors (st_loop s) = []" "el_threadId (st_loop s) = tid"
    "ep_channels (el_poller (st_loop s)) f = Some p \<or> v_reg V (st_kern s) (ep_epollfd (el_poller (st_loop s))) f = Some (ev, p) \<Longrightarrow>
     p = WakeupChannelOf self \<and> f = el_wakeupFd (st_loop s)"
    "ep \<noteq> ep_epollfd (el_poller (st_loop s)) \<Longrightarrow> v_reg V (st_kern s) ep = v_reg V k ep"
proof -
  obtain po k1 g k2 ch s1 where po: "newDefaultPoller S use_poll k = Inr (Some po, k1)" "sys_eventfd S k1 = (Done g, k2)"
      "enableReading S (WakeupChannelOf self) (Channel_init g) (EventLoop_members self tid po g k2) = Inr (ch, s1)"
      "s = s1\<lparr>st_loop := (st_loop s1)\<lparr>el_wakeupChannel := ch\<rparr>\<rparr>"
    using r by (auto simp: EventLoop_init_def createEventfd_def elim!: bindE_InrE split: option.splits if_splits io.splits prod.splits)
  let ?s0 = "EventLoop_members self tid po g k2 :: ('b, 'a) loop_st"
  let ?ch = "Channel_init g\<lparr>ch_events := ch_events (Channel_init g) OR kReadEvent\<rparr>"
  have p0: "ep_channels po = Map.empty" "v_reg V k1 = (v_reg V k)(ep_epollfd po := Map.empty)"
    using po(1) startup_docD(2) [OF docs] unfolding newDefaultPoller_def EPollPoller_init_def epoll_create_doc_def
    by (auto split: if_splits io.splits prod.splits elim!: bindE_InrE)
  have "v_reg V k2 = v_reg V k1"
    using startup_docD(3) [OF docs] po(2) unfolding passive_doc_def same_view_def by (metis snd_conv)
  then have reg: "v_reg V k2 = (v_reg V k)(ep_epollfd po := Map.empty)" by (simp add: p0)
  have kn: "known V (st_poller ?s0) (WakeupChannelOf self) ?ch"
    by (simp only: known_events known_new) (simp add: EventLoop_members_def p0 reg interest_def)
  obtain q where q: "s1 = with_poller q ?s0" "in_sync V q (WakeupChannelOf self) ch" "same_but V g (st_poller ?s0) q"
      "ch_fd ch = g"
    using holdsED [OF updateChannel_st [OF startup_docD(1) [OF docs] kn] po(3) [unfolded enableReading_def]]
    by (auto simp: Channel_init_def)
  have s: "st_loop s = (st_loop ?s0)\<lparr>el_poller := fst q, el_wakeupChannel := ch\<rparr>" "st_kern s = snd q"
    by (simp_all add: po(4) q(1) with_poller_def)
  have ep: "ep_epollfd (fst q) = ep_epollfd po" using q(3) by (simp add: same_but_def EventLoop_members_def)
  show "el_pendingFunctors (st_loop s) = []" "el_threadId (st_loop s) = tid" by (simp_all add: s EventLoop_members_def)
  show "v_reg V (st_kern s) ep = v_reg V k ep" if "ep \<noteq> ep_epollfd (el_poller (st_loop s))"
    using that q(3) reg ep by (auto simp: s same_but_def EventLoop_members_def fun_eq_iff)
  show "p = WakeupChannelOf self \<and> f = el_wakeupFd (st_loop s)"
    if h: "ep_channels (el_poller (st_loop s)) f = Some p \<or> v_reg V (st_kern s) (ep_epollfd (el_poller (st_loop s))) f = Some (ev, p)"
  proof (cases "f = g")
    case True
    then show ?thesis using h q(2,4) ep by (auto simp: s EventLoop_members_def in_sync_def known_def interest_def)
  next
    case False
    then show ?thesis using h q(3) reg p0 ep by (auto simp: s same_but_def EventLoop_members_def)
  qed
qed

text \<open>The constructor of the server registers nothing.\<close>

lemma TcpServer_init_reg:
  assumes docs: "startup_doc S V" and r: "TcpServer_init S lp addr name opt k = Inr (v, k')"
  shows "v_reg V k' = v_reg V k"
proof -
  obtain a where "Acceptor_init S addr (opt = kReusePort) k = Inr (a, k')"
    using r by (auto simp: TcpServer_init_def elim!: bindE_InrE split: option.splits)
  then obtain f k1 where f: "sys_socket S k = (Done f, k1)"
      "bindAddress S f addr (setReusePort S f True (setReuseAddr S f True k1)) = Inr k'"
    by (auto simp: Acceptor_init_def createNonblocking_def elim!: bindE_InrE split: io.splits prod.splits)
  let ?k2 = "setReusePort S f True (setReuseAddr S f True k1)"
  have "same_view V k1 ?k2"
    by (rule same_view_trans) (rule setsockopt_view [OF startup_docD(3) [OF docs]])+
  moreover have "k' = snd (sys_bind S f (getSockAddr addr) ?k2)"
    using f(2) by (auto simp: bindAddress_def split: io.splits prod.splits)
  ultimately show ?thesis
    using startup_docD(4) [OF docs, of k] by (simp add: startup_docD(5) [OF docs] f(1) same_view_def)
qed

section \<open>Starting the pool\<close>

definition loops_made :: "'k view \<Rightarrow> loop_id \<Rightarrow> loop_pool \<times> 'k process \<Rightarrow> loop_pool \<times> 'k process \<Rightarrow> bool" where
  "loops_made V b x y \<longleftrightarrow> (\<exists>ls. tp_loops (fst y) = tp_loops (fst x) @ ls) \<and>
     tp_next (fst y) = tp_next (fst x) \<and> tp_baseLoop (fst y) = tp_baseLoop (fst x) \<and>
     pr_server (snd y) = pr_server (snd x) \<and> pr_conns (snd y) = pr_conns (snd x) \<and> pr_tid (snd y) = pr_tid (snd x) \<and>
     (apart (snd y) (b # tp_loops (fst y)) \<longrightarrow> apart (snd x) (b # tp_loops (fst x)) \<and>
        pr_loops (snd y) b = pr_loops (snd x) b \<and>
        ((\<forall>l\<in>set (b # tp_loops (fst x)). own_loop V (snd x) l) \<longrightarrow> (\<forall>l\<in>set (b # tp_loops (fst y)). own_loop V (snd y) l)))"

lemma loops_made_refl: "loops_made V b x x"
  by (simp add: loops_made_def)

lemma loops_made_trans: "loops_made V b x y \<Longrightarrow> loops_made V b y z \<Longrightarrow> loops_made V b x z"
proof -
  assume 1: "loops_made V b x y" and 2: "loops_made V b y z"
  obtain ls ls' where "tp_loops (fst y) = tp_loops (fst x) @ ls" "tp_loops (fst z) = tp_loops (fst y) @ ls'"
    using 1 2 unfolding loops_made_def by blast
  then have "\<exists>ls. tp_loops (fst z) = tp_loops (fst x) @ ls" by simp
  then show ?thesis using 1 2 unfolding loops_made_def by metis
qed

lemma start_ones_length:
  "foldE (start_one spawn) is x = Inr y \<Longrightarrow> length (tp_loops (fst y)) = length (tp_loops (fst x)) + length is"
proof (induction "is" arbitrary: x)
  case (Cons i "is")
  then obtain x1 where x1: "start_one spawn i x = Inr x1" "foldE (start_one spawn) is x1 = Inr y" by auto
  have "length (tp_loops (fst x1)) = Suc (length (tp_loops (fst x)))"
    using x1(1) by (auto simp: start_one_def Let_def split: prod.splits elim!: bindE_InrE)
  then show ?case using Cons.IH [OF x1(2)] by simp
qed simp

locale loop_spawner =
  fixes S :: "'k sys" and V :: "'k view" and spawn :: "string \<Rightarrow> 'k process \<Rightarrow> error + (loop_id \<times> 'k process)"
  assumes spawned: "startup_doc S V \<Longrightarrow> spawn name w = Inr (l, w') \<Longrightarrow> loop_added V l w w'"
begin

lemma start_one_made:
  assumes "startup_doc S V" and "start_one spawn i x = Inr y"
  shows "loops_made V b x y"
proof -
  obtain p w where x: "x = (p, w)" by (cases x)
  obtain l w' buf where y: "spawn buf w = Inr (l, w')" "y = (p\<lparr>tp_threads := tp_threads p @ [buf], tp_loops := tp_loops p @ [l]\<rparr>, w')"
    using assms(2) by (auto simp: start_one_def x Let_def)
  note a = spawned [OF assms(1) y(1)]
  note d = loop_addedD [OF a]
  have "apart w (b # tp_loops p) \<and> pr_loops w' b = pr_loops w b \<and>
      ((\<forall>l\<in>set (b # tp_loops p). own_loop V w l) \<longrightarrow> (\<forall>l\<in>set ((b # tp_loops p) @ [l]). own_loop V w' l))"
    if ap: "apart w' ((b # tp_loops p) @ [l])"
  proof -
    note before = apart_before [OF a ap]
    have "own_loop V w' l'" if "l' \<in> set (b # tp_loops p)" "own_loop V w l'" for l'
      using own_loop_other [OF a _ that(2)] before(2) [OF that(1)] by blast
    then show ?thesis using before d(1,5) by auto
  qed
  then show ?thesis using d(2-4) unfolding loops_made_def x y(2) by simp
qed

lemma start_ones_made: "startup_doc S V \<Longrightarrow> foldE (start_one spawn) is x = Inr y \<Longrightarrow> loops_made V b x y"
proof (induction "is" arbitrary: x)
  case (Cons i "is")
  then obtain x1 where "start_one spawn i x = Inr x1" "foldE (start_one spawn) is x1 = Inr y" by auto
  then show ?case using loops_made_trans [OF start_one_made [OF Cons.prems(1)] Cons.IH [OF Cons.prems(1)]] by blast
qed (simp add: loops_made_refl)

end

section \<open>Listening\<close>

definition listens_on :: "'k process \<Rightarrow> fd" where
  "listens_on w = ac_sockfd (ts_acceptor (pr_server w))"

text \<open>\<open>listen()\<close> registers the acceptor's channel with the base loop, and nothing else changes.\<close>

lemma Acceptor_listen_registers:
  assumes docs: "epoll_ctl_doc S V" "\<And>f n k. v_reg V (snd (sys_listen S f n k)) = v_reg V k"
    and new: "ac_channel (st_acceptor s) = Channel_init (ac_sockfd (st_acceptor s))"
      "interest V (st_poller s) (ac_sockfd (st_acceptor s)) = None" "ep_channels (el_poller (st_loop s)) (ac_sockfd (st_acceptor s)) = None"
    and r: "Acceptor_listen S s = Inr s'"
  shows "\<exists>q ch. s' = s\<lparr>st_loop := (st_loop s)\<lparr>el_poller := fst q\<rparr>, st_kern := snd q,
      st_acceptor := (st_acceptor s)\<lparr>ac_channel := ch, ac_listenning := True\<rparr>\<rparr> \<and>
    ch_fd ch = ac_sockfd (st_acceptor s) \<and> known V q (accept_ptr s) ch \<and> ep_epollfd (fst q) = ep_epollfd (el_poller (st_loop s)) \<and>
    (\<forall>g. g \<noteq> ac_sockfd (st_acceptor s) \<longrightarrow> ep_channels (fst q) g = ep_channels (el_poller (st_loop s)) g) \<and>
    (\<forall>ep g. ep \<noteq> ep_epollfd (el_poller (st_loop s)) \<or> g \<noteq> ac_sockfd (st_acceptor s) \<longrightarrow> v_reg V (snd q) ep g = v_reg V (st_kern s) ep g)"
proof -
  let ?f = "ac_sockfd (st_acceptor s)" and ?a = "upd_acceptor (\<lambda>a. a\<lparr>ac_listenning := True\<rparr>) s"
  let ?ch = "Channel_init ?f\<lparr>ch_events := ch_events (Channel_init ?f) OR kReadEvent\<rparr>"
  obtain k where k: "snd (sys_listen S ?f 1024 (st_kern s)) = k" by blast
  then have reg: "v_reg V k = v_reg V (st_kern s)" using docs(2) [of ?f 1024 "st_kern s"] by simp
  let ?s = "?a\<lparr>st_kern := k\<rparr>"
  have kn: "known V (st_poller ?s) (accept_ptr s) ?ch"
    using new(2,3) reg by (simp only: known_events known_new) (simp add: interest_def)
  have "bindE (updateChannel S (accept_ptr s) ?ch ?s) (\<lambda>(ch, s). Inr (upd_acceptor (\<lambda>a. a\<lparr>ac_channel := ch\<rparr>) s)) = Inr s'"
    using r k new(1) by (auto simp: Acceptor_listen_def socket_listen_def Let_def enableReading_def accept_ptr_def
        elim!: bindE_InrE split: io.splits prod.splits)
  then obtain ch t where u: "updateChannel S (accept_ptr s) ?ch ?s = Inr (ch, t)" "s' = upd_acceptor (\<lambda>a. a\<lparr>ac_channel := ch\<rparr>) t"
    by (auto elim!: bindE_InrE)
  obtain q where q: "t = with_poller q ?s" "ch = set_index (next_index ?ch) ?ch" "in_sync V q (accept_ptr s) ch"
      "same_but V (ch_fd ?ch) (st_poller ?s) q"
    using holdsED [OF updateChannel_st [OF docs(1) kn] u(1)] by auto
  have "s' = s\<lparr>st_loop := (st_loop s)\<lparr>el_poller := fst q\<rparr>, st_kern := snd q,
      st_acceptor := (st_acceptor s)\<lparr>ac_channel := ch, ac_listenning := True\<rparr>\<rparr>"
    by (simp add: u(2) q(1) with_poller_def upd_acceptor_def)
  moreover have "ch_fd ch = ?f" by (simp add: q(2) Channel_init_def)
  moreover have "known V q (accept_ptr s) ch" using q(3) by (simp add: in_sync_def)
  moreover have "ch_fd ?ch = ?f" by (simp add: Channel_init_def)
  ultimately show ?thesis
    using q(4) reg unfolding same_but_def by (intro exI [of _ q] exI [of _ ch]) auto
qed

lemma poller_updateChannel_fd: "poller_updateChannel S p ch q = Inr (ch', q') \<Longrightarrow> ep_epollfd (fst q') = ep_epollfd (fst q)"
  by (cases q) (auto simp: poller_updateChannel_def Let_def split: if_splits elim!: bindE_InrE)

lemma listen_same_loop:
  assumes "on_acceptor (Acceptor_listen S) w = Inr w'"
  shows "same_loop w w' l"
proof -
  obtain s where s: "Acceptor_listen S (acceptor_view w) = Inr s" "w' = acceptor_put s"
    using assms by (auto simp: on_acceptor_def)
  have "\<exists>po. st_loop s = (st_loop (acceptor_view w))\<lparr>el_poller := po\<rparr> \<and> ep_epollfd po = ep_epollfd (el_poller (st_loop (acceptor_view w)))"
    using s(1) by (auto simp: Acceptor_listen_def Let_def enableReading_def updateChannel_def upd_acceptor_def
        dest!: poller_updateChannel_fd elim!: bindE_InrE)
  moreover have "st_self s = ts_loop (pr_server w)" "acceptor_st.more s = w"
    using Acceptor_listen_frame(2,3) [OF s(1)] by (simp_all add: acceptor_view_def Let_def)
  ultimately show ?thesis by (auto simp: same_loop_def s(2) acceptor_put_def upd_server_def acceptor_view_def Let_def)
qed

lemma listen_same_fd:
  assumes "on_acceptor (Acceptor_listen S) w = Inr w'"
  shows "listens_on w' = listens_on w"
proof -
  obtain s where s: "Acceptor_listen S (acceptor_view w) = Inr s" "w' = acceptor_put s"
    using assms by (auto simp: on_acceptor_def)
  have "ac_sockfd (st_acceptor s) = ac_sockfd (st_acceptor (acceptor_view w))"
    using s(1) by (auto simp: Acceptor_listen_def Let_def enableReading_def updateChannel_def upd_acceptor_def with_poller_def
        elim!: bindE_InrE)
  then show ?thesis by (simp add: listens_on_def s(2) acceptor_put_def upd_server_def acceptor_view_def Let_def)
qed

lemma listen_own:
  assumes docs: "epoll_ctl_doc S V" "\<And>f n k. v_reg V (snd (sys_listen S f n k)) = v_reg V k"
    and b: "b = ts_loop (pr_server w)" and new: "ac_channel (ts_acceptor (pr_server w)) = Channel_init (listens_on w)"
    and own: "\<forall>l\<in>L. own_loop V w l" "b \<in> L" and fd: "el_wakeupFd (pr_loops w b) \<noteq> listens_on w"
    and inj: "inj_on (\<lambda>l. ep_epollfd (el_poller (pr_loops w l))) L"
    and r: "on_acceptor (Acceptor_listen S) w = Inr w'"
  shows "\<exists>ch. pr_server w' = (pr_server w)\<lparr>ts_acceptor := (ts_acceptor (pr_server w))\<lparr>ac_channel := ch, ac_listenning := True\<rparr>\<rparr> \<and>
      ch_fd ch = listens_on w"
    and "pr_conns w' = pr_conns w" "pending w' = pending w"
    and "ep_epollfd (el_poller (pr_loops w' l)) = ep_epollfd (el_poller (pr_loops w l))"
    and "el_wakeupFd (pr_loops w' l) = el_wakeupFd (pr_loops w l)"
    and "l \<in> L \<Longrightarrow> registered V w' l f p \<Longrightarrow> registered V w l f p \<or> l = b \<and> f = listens_on w \<and> p = AcceptChannelOf b"
proof -
  let ?s = "acceptor_view w"
  have v: "st_acceptor ?s = ts_acceptor (pr_server w)" "st_loop ?s = pr_loops w b" "st_kern ?s = pr_kern w" "st_self ?s = b"
      "acceptor_st.more ?s = w" "accept_ptr ?s = AcceptChannelOf b"
    by (simp_all add: acceptor_view_def b Let_def accept_ptr_def)
  have none: "\<not> registered V w b (listens_on w) p" for p using own fd by (auto simp: own_loop_def)
  then have "v_reg V (pr_kern w) (ep_epollfd (el_poller (pr_loops w b))) (listens_on w) \<noteq> Some x" for x
    by (cases x) (auto simp: registered_def)
  then have 1: "interest V (st_poller ?s) (ac_sockfd (st_acceptor ?s)) = None"
    unfolding v interest_def fst_conv snd_conv by (auto simp: listens_on_def simp flip: not_Some_eq)
  have "ep_channels (el_poller (pr_loops w b)) (listens_on w) \<noteq> Some x" for x
    using none by (simp add: registered_def)
  then have 2: "ep_channels (el_poller (st_loop ?s)) (ac_sockfd (st_acceptor ?s)) = None"
    unfolding v by (auto simp: listens_on_def simp flip: not_Some_eq)
  obtain s' where s': "Acceptor_listen S ?s = Inr s'" "w' = acceptor_put s'" using r by (auto simp: on_acceptor_def)
  have 0: "ac_channel (st_acceptor ?s) = Channel_init (ac_sockfd (st_acceptor ?s))" using new by (simp add: v listens_on_def)
  obtain q ch where q: "s' = ?s\<lparr>st_loop := (st_loop ?s)\<lparr>el_poller := fst q\<rparr>, st_kern := snd q,
      st_acceptor := (st_acceptor ?s)\<lparr>ac_channel := ch, ac_listenning := True\<rparr>\<rparr>"
      "ch_fd ch = listens_on w" "known V q (AcceptChannelOf b) ch" "ep_epollfd (fst q) = ep_epollfd (el_poller (pr_loops w b))"
      "\<And>g. g \<noteq> listens_on w \<Longrightarrow> ep_channels (fst q) g = ep_channels (el_poller (pr_loops w b)) g"
      "\<And>ep g. ep \<noteq> ep_epollfd (el_poller (pr_loops w b)) \<or> g \<noteq> listens_on w \<Longrightarrow> v_reg V (snd q) ep g = v_reg V (pr_kern w) ep g"
    using Acceptor_listen_registers [OF docs 0 1 2 s'(1)] unfolding v listens_on_def [symmetric] by blast
  have w': "w' = w\<lparr>pr_kern := snd q, pr_loops := (pr_loops w)(b := (pr_loops w b)\<lparr>el_poller := fst q\<rparr>),
      pr_server := (pr_server w)\<lparr>ts_acceptor := (ts_acceptor (pr_server w))\<lparr>ac_channel := ch, ac_listenning := True\<rparr>\<rparr>\<rparr>"
    by (simp add: s'(2) q(1) acceptor_put_def upd_server_def v)
  show "\<exists>ch. pr_server w' = (pr_server w)\<lparr>ts_acceptor := (ts_acceptor (pr_server w))\<lparr>ac_channel := ch, ac_listenning := True\<rparr>\<rparr> \<and>
      ch_fd ch = listens_on w"
    using q(2) by (auto simp: w')
  show "pr_conns w' = pr_conns w" "pending w' = pending w" by (auto simp: w' pending_def)
  show fds: "ep_epollfd (el_poller (pr_loops w' l)) = ep_epollfd (el_poller (pr_loops w l))" for l
    using q(4) by (simp add: w')
  show "el_wakeupFd (pr_loops w' l) = el_wakeupFd (pr_loops w l)" by (simp add: w')
  assume l: "l \<in> L" and reg: "registered V w' l f p"
  show "registered V w l f p \<or> l = b \<and> f = listens_on w \<and> p = AcceptChannelOf b"
  proof (cases "l = b \<and> f = listens_on w")
    case True
    then have "p = AcceptChannelOf b"
      using reg q(2,3) unfolding registered_def fds by (auto simp: w' known_def interest_def q(4))
    then show ?thesis using True by simp
  next
    case False
    have "ep_epollfd (el_poller (pr_loops w l)) \<noteq> ep_epollfd (el_poller (pr_loops w b)) \<or> f \<noteq> listens_on w"
      using False inj l own(2) by (auto simp: inj_on_def)
    then have "v_reg V (pr_kern w') (ep_epollfd (el_poller (pr_loops w l))) f = v_reg V (pr_kern w) (ep_epollfd (el_poller (pr_loops w l))) f"
      using q(6) by (simp add: w')
    moreover have "ep_channels (el_poller (pr_loops w' l)) f = ep_channels (el_poller (pr_loops w l)) f"
      using False q(5) by (auto simp: w')
    ultimately show ?thesis using reg by (simp add: registered_def fds)
  qed
qed

section \<open>The server has started\<close>

context loop_spawner
begin

lemma start_fresh:
  assumes docs: "startup_doc S V"
    and v: "TcpServer_init S (Some b) addr name opt k0 = Inr (v, k1)" "pr_server w = server_setThreadNum n v"
    and w: "pr_conns w = Map.empty" "pr_tid w = el_threadId (pr_loops w b)" "own_loop V w b"
    and r: "server_start S spawn None w = Inr w'"
    and ap: "apart w' (b # tp_loops (ts_threadPool (pr_server w')))" "el_wakeupFd (pr_loops w' b) \<noteq> listens_on w'"
  shows "fresh_server V w' \<and> length (tp_loops (ts_threadPool (pr_server w'))) = nat n \<and> ac_listenning (ts_acceptor (pr_server w'))"
proof -
  have srv: "ts_loop v = b" "ts_started v = 0" "ts_nextConnId v = 1" "ts_connections v = Map.empty" "length (ts_ipPort v) \<le> 21"
      "ts_threadPool v = LoopPool_init b name" "ac_channel (ts_acceptor v) = Channel_init (ac_sockfd (ts_acceptor v))"
    using v(1) length_toIpPort by (auto simp: TcpServer_init_def Acceptor_init_def elim!: bindE_InrE)
  let ?w0 = "upd_server (\<lambda>v. v\<lparr>ts_started := 1\<rparr>) w"
  have w0: "pr_server ?w0 = (server_setThreadNum n v)\<lparr>ts_started := 1\<rparr>" "pr_conns ?w0 = Map.empty" "pr_tid ?w0 = pr_tid w"
      "pr_loops ?w0 = pr_loops w" "pr_kern ?w0 = pr_kern w"
    using v(2) w by (simp_all add: upd_server_def)
  let ?p0 = "(ts_threadPool (pr_server ?w0))\<lparr>tp_started := True\<rparr>"
  obtain p w1 where p: "foldE (start_one spawn) [0..<nat n] (?p0, ?w0) = Inr (p, w1)"
      "on_loop (ts_loop (pr_server w1)) (runInLoop S (\<lambda>_. from_loop (on_acceptor (Acceptor_listen S))) AcceptorListen)
         (upd_server (\<lambda>v. v\<lparr>ts_threadPool := p\<rparr>) w1) = Inr w'"
    using r srv v(2) w0(1) unfolding server_start_def pool_start_def Let_def
    by (auto simp: server_setThreadNum_def setThreadNum_def LoopPool_init_def elim!: bindE_InrE)
  have m: "loops_made V b (?p0, ?w0) (p, w1)" by (rule start_ones_made [OF docs p(1)])
  let ?w2 = "upd_server (\<lambda>v. v\<lparr>ts_threadPool := p\<rparr>) w1"
  have base: "tp_loops ?p0 = []" "tp_next p = 0" "tp_baseLoop p = b"
    using m w0(1) srv(6) by (simp_all add: loops_made_def server_setThreadNum_def setThreadNum_def LoopPool_init_def)
  have s1: "pr_server w1 = (server_setThreadNum n v)\<lparr>ts_started := 1\<rparr>" "pr_conns w1 = Map.empty" "pr_tid w1 = pr_tid w"
    using m w0 by (simp_all add: loops_made_def)
  have s2: "pr_server ?w2 = (server_setThreadNum n v)\<lparr>ts_started := 1, ts_threadPool := p\<rparr>" "pr_conns ?w2 = Map.empty"
      "pr_tid ?w2 = pr_tid w" "pr_loops ?w2 = pr_loops w1" "pr_kern ?w2 = pr_kern w1"
    using s1 by (simp_all add: upd_server_def)
  have out: "if el_threadId (pr_loops w1 b) = pr_tid w then on_acceptor (Acceptor_listen S) ?w2 = Inr w' else w' = queued S b AcceptorListen ?w2"
    using p(2) s1(1) srv(1) unfolding on_loop_run by (simp add: s2 server_setThreadNum_def split: if_splits)
  have pool: "ts_threadPool (pr_server w') = p" "same_loop ?w2 w' l" for l
    using out listen_frame(1) [of S ?w2 w'] listen_same_loop [of S ?w2 w'] s2(1)
    by (auto simp: same_loop_def split: if_splits)
  have ap1: "apart w1 (b # tp_loops p)"
    using ap(1) pool(1,2) unfolding apart_def same_loop_def s2 by (simp only:)
  have thread: "pr_loops w1 b = pr_loops w b" and own: "\<forall>l\<in>set (b # tp_loops p). own_loop V w1 l"
  proof -
    have own0: "own_loop V ?w0 b" using w(3) by (simp add: own_loop_def registered_def pending_def w0)
    show "pr_loops w1 b = pr_loops w b" "\<forall>l\<in>set (b # tp_loops p). own_loop V w1 l"
      using m ap1 own0 w0(4) base(1) unfolding loops_made_def by auto
  qed
  have listen: "on_acceptor (Acceptor_listen S) ?w2 = Inr w'" using out w(2) thread by simp
  let ?L = "set (b # tp_loops p)"
  have f: "listens_on ?w2 = ac_sockfd (ts_acceptor v)" "ts_loop (pr_server ?w2) = b" "ts_acceptor (pr_server ?w2) = ts_acceptor v"
    using s2(1) srv(1) by (simp_all add: listens_on_def server_setThreadNum_def)
  have own2: "\<forall>l\<in>?L. own_loop V ?w2 l" using own by (simp add: own_loop_def registered_def pending_def s2)
  have new: "ac_channel (ts_acceptor (pr_server ?w2)) = Channel_init (listens_on ?w2)" using srv(7) by (simp add: f)
  have same: "listens_on w' = listens_on ?w2"
    by (rule listen_same_fd) fact
  have fd: "el_wakeupFd (pr_loops ?w2 b) \<noteq> listens_on ?w2"
    using ap(2) pool(2) [of b] same by (simp add: same_loop_def)
  have inj: "inj_on (\<lambda>l. ep_epollfd (el_poller (pr_loops ?w2 l))) ?L" using ap1 s2(4) by (simp only: apart_def)
  note lo = listen_own [OF startup_docD(1,6) [OF docs] f(2) [symmetric] new own2 _ fd inj listen]
  obtain ch where s3: "pr_server w' = (pr_server ?w2)\<lparr>ts_acceptor := (ts_acceptor v)\<lparr>ac_channel := ch, ac_listenning := True\<rparr>\<rparr>"
      "ch_fd ch = listens_on ?w2"
    using lo(1) f(3) by auto
  have c3: "pr_conns w' = Map.empty" using lo(2) s2(2) by simp
  have s4: "ts_loop (pr_server w') = b" "ts_connections (pr_server w') = Map.empty" "ts_nextConnId (pr_server w') = 1"
      "length (ts_ipPort (pr_server w')) \<le> 21" "ch_fd (ac_channel (ts_acceptor (pr_server w'))) = listens_on ?w2"
    using srv s2(1) s3 by (simp_all add: server_setThreadNum_def)
  have "process_ok w'"
    using s4 c3 pool(1) base(2) by (simp add: process_ok_def server_ok_def pool_ok_def)
  moreover have L: "server_loops (pr_server w') = ?L"
    using s4(1) pool(1) base(3) by (auto simp: server_loops_def getAllLoops_def)
  moreover have "pending w' l = [] \<and> (\<forall>f p. registered V w' l f p \<longrightarrow> at_home w' l f p)" if l: "l \<in> ?L" for l
  proof (intro conjI allI impI)
    have o: "own_loop V ?w2 l" using own2 l by blast
    show "pending w' l = []" using lo(3) o by (simp add: own_loop_def)
    fix g c assume "registered V w' l g c"
    then consider "registered V ?w2 l g c" | "l = b" "g = listens_on ?w2" "c = AcceptChannelOf b"
      using lo(6) [OF _ l] by auto
    then show "at_home w' l g c"
    proof cases
      case 1
      then have "c = WakeupChannelOf l" "g = el_wakeupFd (pr_loops ?w2 l)" using o unfolding own_loop_def by blast+
      then show ?thesis using lo(5) by simp
    qed (simp add: s4)
  qed
  moreover have "inj_on (\<lambda>l. ep_epollfd (el_poller (pr_loops w' l))) ?L" using ap(1) pool(1) by (simp only: apart_def)
  ultimately have "fresh_server V w'"
    using c3 pool(1) base(3) s4(1) unfolding fresh_server_def by (intro conjI) (simp_all only:, blast)
  moreover have "length (tp_loops p) = nat n" using start_ones_length [OF p(1)] base(1) by simp
  ultimately show ?thesis using pool(1) s3(1) by simp
qed

end

end
