(* ===== verification/EchoServer.thy ===== *)
theory EchoServer
  imports ServerStart
begin

text \<open>
  The echo server and \<open>main\<close> (src/main.cpp). The callbacks are stated on a connection and its loop, so
  the theorems of the theory ConnProperties apply to them, and installed in the server through the
  theory TcpServer. The locale \<open>connection_user\<close> is interpreted with them.
\<close>

section \<open>The callbacks\<close>

text \<open>\<open>onConnection\<close> only logs, with the peer's address.\<close>

definition onConnection :: "('k, 'z) conn_st_scheme \<Rightarrow> error + ('k, 'z) conn_st_scheme" where
  "onConnection s = bindE (toIpPort (tc_peerAddr (st_conn s))) (\<lambda>_. Inr s)"

text \<open>\<open>msg\<close> is a local string, at the address \<open>p\<close> while the function runs. \<open>rest\<close> are the other
  callbacks of the connection.\<close>

definition onMessage :: "'k sys \<Rightarrow> ('k, 'z) conn_st_scheme callbacks \<Rightarrow>
    (task \<Rightarrow> ('k, 'z) conn_st_scheme \<Rightarrow> error + ('k, 'z) conn_st_scheme) \<Rightarrow> str_ptr \<Rightarrow>
    ('k, 'z) conn_st_scheme \<Rightarrow> error + ('k, 'z) conn_st_scheme" where
  "onMessage S rest other p s =
     bindE (retrieveAllAsString (tc_inputBuffer (st_conn s))) (\<lambda>(msg, b).
     let s = upd_conn (\<lambda>c. c\<lparr>tc_inputBuffer := b\<rparr>) s in
     bindE (toIpPort (tc_peerAddr (st_conn s))) (\<lambda>_.
     bindE (send S rest other p (s\<lparr>st_mem := (st_mem s)(p \<mapsto> msg)\<rparr>)) (\<lambda>s.
     Inr (s\<lparr>st_mem := (st_mem s)(p := None)\<rparr>))))"

definition echo_rest :: "(('k, 'z) conn_st_scheme \<Rightarrow> error + ('k, 'z) conn_st_scheme) option \<Rightarrow>
    ('k, 'z) conn_st_scheme callbacks" where
  "echo_rest close = \<lparr>cb_connection = Some onConnection, cb_message = None, cb_writeComplete = None,
     cb_highWaterMark = None, cb_close = close\<rparr>"

definition echo_callbacks :: "'k sys \<Rightarrow> (('k, 'z) conn_st_scheme \<Rightarrow> error + ('k, 'z) conn_st_scheme) option \<Rightarrow>
    str_ptr \<Rightarrow> ('k, 'z) conn_st_scheme callbacks" where
  "echo_callbacks S close p = (echo_rest close)\<lparr>cb_message := Some (\<lambda>t. onMessage S (echo_rest close) (\<lambda>_. Inr) p)\<rparr>"

section \<open>The server object and main\<close>

definition echo_server_callbacks :: "'k sys \<Rightarrow> str_ptr \<Rightarrow> 'k process server_callbacks" where
  "echo_server_callbacks S p =
     (let ucb = \<lparr>sc_connection = Some (\<lambda>i. on_conn i onConnection), sc_message = None, sc_writeComplete = None\<rparr>
      in ucb\<lparr>sc_message := Some (\<lambda>i t. on_conn i (onMessage S (server_conn_callbacks S ucb) (\<lambda>_. Inr) p))\<rparr>)"

definition EchoServer_init :: "'k sys \<Rightarrow> loop_id option \<Rightarrow> inet_address \<Rightarrow> string \<Rightarrow> 'k \<Rightarrow> error + (tcpserver \<times> 'k)" where
  "EchoServer_init S loop_ptr addr name k =
     bindE (TcpServer_init S loop_ptr addr name kNoReusePort k) (\<lambda>(v, k). Inr (server_setThreadNum 3 v, k))"

text \<open>Starting a thread with its loop, after the handshake of the theory EventLoopThread: \<open>new_loop\<close>
  gives the new loop's address and thread.\<close>

definition spawn_loop :: "'k sys \<Rightarrow> ('k process \<Rightarrow> loop_id \<times> tid) \<Rightarrow> string \<Rightarrow> 'k process \<Rightarrow>
    error + (loop_id \<times> 'k process)" where
  "spawn_loop S new_loop name w =
     (let (l, tid) = new_loop w in
      bindE (EventLoop_init S l tid False None (pr_kern w)) (\<lambda>(s, slot).
      Inr (l, w\<lparr>pr_kern := st_kern s, pr_loops := (pr_loops w)(l := st_loop s)\<rparr>)))"

text \<open>\<open>main\<close> in the thread \<open>tid\<close>; the main loop has address 0. First what comes before \<open>loop()\<close>.\<close>

definition echo_setup :: "'k sys \<Rightarrow> (string \<Rightarrow> 32 word) \<Rightarrow> ('k process \<Rightarrow> loop_id \<times> tid) \<Rightarrow> tid \<Rightarrow> bool \<Rightarrow> 'k \<Rightarrow>
    error + 'k process" where
  "echo_setup S inet_addr new_loop tid use_poll k =
     bindE (EventLoop_init S 0 tid use_poll None k) (\<lambda>(s, slot).
     bindE (EchoServer_init S (Some 0) (InetAddress_init inet_addr 8080 ''0.0.0.0'') ''EchoServer'' (st_kern s)) (\<lambda>(v, k).
     server_start S (spawn_loop S new_loop) None
       \<lparr>pr_tid = tid, pr_kern = k, pr_mem = Map.empty, pr_loops = (\<lambda>_. st_loop s), pr_conns = Map.empty, pr_server = v\<rparr>))"

text \<open>The value is that of \<open>loop()\<close>: \<open>None\<close> when it runs for ever.\<close>

definition echo_main :: "'k sys \<Rightarrow> (string \<Rightarrow> 32 word) \<Rightarrow> ('k process \<Rightarrow> loop_id \<times> tid) \<Rightarrow> ('k process \<Rightarrow> conn_id) \<Rightarrow>
    str_ptr \<Rightarrow> tid \<Rightarrow> bool \<Rightarrow> 'k \<Rightarrow> error + (error + (task, 'k, 'k process) loop_st_scheme) option" where
  "echo_main S inet_addr new_loop alloc p tid use_poll k =
     bindE (echo_setup S inet_addr new_loop tid use_poll k)
       (\<lambda>w. Inr (loop (process_round S inet_addr (echo_server_callbacks S p) alloc (\<lambda>_. Inr)) (loop_view 0 w)))"

section \<open>Lemmas\<close>

text \<open>The memory of strings is no part of the invariant.\<close>

lemma mem_ok [simp]:
  "conn_ok V (s\<lparr>st_mem := m\<rparr>) = conn_ok V s" "out_stream V (s\<lparr>st_mem := m\<rparr>) = out_stream V s"
  "evolves V s' (s\<lparr>st_mem := m\<rparr>) = evolves V s' s" "evolves V (s\<lparr>st_mem := m\<rparr>) s' = evolves V s s'"
  "isInLoopThread (s\<lparr>st_mem := m\<rparr>) = isInLoopThread s"
  by (simp_all add: conn_ok_def conn_core_def out_stream_def evolves_def fin_sent_def self_ptr_def isInLoopThread_def)

lemma input_ok:
  assumes "conn_ok V s" and "buffer_ok b"
  shows "conn_ok V (upd_conn (\<lambda>c. c\<lparr>tc_inputBuffer := b\<rparr>) s)"
    "evolves V s (upd_conn (\<lambda>c. c\<lparr>tc_inputBuffer := b\<rparr>) s)"
    "out_stream V (upd_conn (\<lambda>c. c\<lparr>tc_inputBuffer := b\<rparr>) s) = out_stream V s"
  using assms by (simp_all add: conn_ok_def conn_core_def evolves_def out_stream_def fin_sent_def live_def)

lemma onConnection_eq: "onConnection s = Inr s"
  using toIpPort_returns [of "tc_peerAddr (st_conn s)"] by (auto simp: onConnection_def)

definition taken :: "('k, 'z) conn_st_scheme \<Rightarrow> ('k, 'z) conn_st_scheme" where
  "taken s = upd_conn (\<lambda>c. c\<lparr>tc_inputBuffer := retrieveAll (tc_inputBuffer (st_conn s))\<rparr>) s"

lemma onMessage_eq:
  assumes "conn_ok V s"
  shows "onMessage S rest other p s =
    bindE (send S rest other p ((taken s)\<lparr>st_mem := (st_mem s)(p \<mapsto> readable (tc_inputBuffer (st_conn s)))\<rparr>))
    (\<lambda>s. Inr (s\<lparr>st_mem := (st_mem s)(p := None)\<rparr>))"
proof -
  have b: "buffer_ok (tc_inputBuffer (st_conn s))" using assms by (simp add: conn_ok_def conn_core_def)
  obtain t where t: "toIpPort (tc_peerAddr (st_conn s)) = Inr t" using toIpPort_returns by blast
  show ?thesis by (simp add: onMessage_def retrieveAllAsString_ok [OF b] t Let_def taken_def)
qed

lemma taken_ok:
  assumes "conn_ok V s"
  shows "conn_ok V (taken s)" "evolves V s (taken s)" "out_stream V (taken s) = out_stream V s"
    "readable (tc_inputBuffer (st_conn (taken s))) = []" "memory_block (readable (tc_inputBuffer (st_conn s)))"
proof -
  have b: "buffer_ok (tc_inputBuffer (st_conn s))" using assms by (simp add: conn_ok_def conn_core_def)
  show "conn_ok V (taken s)" "evolves V s (taken s)" "out_stream V (taken s) = out_stream V s"
    unfolding taken_def by (rule input_ok [OF assms retrieveAll_ok [OF b]])+
  show "readable (tc_inputBuffer (st_conn (taken s))) = []" by (simp add: taken_def readable_retrieveAll)
  show "memory_block (readable (tc_inputBuffer (st_conn s)))" using readable_bound [OF b] by (simp add: memory_block_def)
qed

lemma send_keeps:
  assumes S: "kernel_doc S V" and ok: "conn_ok V s" and mem: "st_mem s p = Some d" "memory_block d"
  shows "keeps V s (send S cbs other p s)"
proof (cases "send S cbs other p s")
  case (Inl e)
  then show ?thesis
    using holdsE_mono [OF sendInLoop_ok [OF S ok mem(2), of cbs], of conn_error "\<lambda>_. True"] mem
    by (auto simp: send_def keeps_def runInLoop_def split: if_splits)
next
  case (Inr s')
  then show ?thesis using send_ok [OF S ok mem Inr] by (simp add: keeps_def)
qed

lemma onMessage_keeps:
  assumes S: "kernel_doc S V" and ok: "conn_ok V s"
  shows "keeps V s (onMessage S rest other p s)"
proof -
  let ?t = "(taken s)\<lparr>st_mem := (st_mem s)(p \<mapsto> readable (tc_inputBuffer (st_conn s)))\<rparr>"
  have "keeps V ?t (send S rest other p ?t)"
    using taken_ok [OF ok] by (intro send_keeps [OF S]) simp_all
  then have "keeps V s (send S rest other p ?t)" using taken_ok(2) [OF ok] by (intro keeps_after [of V s ?t]) simp_all
  then show ?thesis
    unfolding onMessage_eq [OF ok] by (rule keeps_bind) (simp add: keeps_Inr)
qed

interpretation echo: connection_user S V "echo_callbacks S None p" for S V p
proof
  assume "kernel_doc S V"
  then show "good_callbacks V (echo_callbacks S None p)"
    using onMessage_keeps by (auto simp: good_callbacks_def echo_callbacks_def echo_rest_def onConnection_eq keeps_Inr)
qed

text \<open>The callbacks change their own connection only, so the whole server runs safely with them.\<close>

lemma onMessage_steady:
  assumes S: "kernel_doc S V" and ok: "conn_ok V s" and l: "isInLoopThread s" and r: "onMessage S rest other p s = Inr s'"
  shows "steady V s s'"
proof -
  let ?t = "(taken s)\<lparr>st_mem := (st_mem s)(p \<mapsto> readable (tc_inputBuffer (st_conn s)))\<rparr>"
  obtain s1 where s1: "send S rest other p ?t = Inr s1" "s' = s1\<lparr>st_mem := (st_mem s1)(p := None)\<rparr>"
    using r unfolding onMessage_eq [OF ok] by auto
  have "steady V s ?t" unfolding taken_def by (rule steady_trans [OF steady_buffer(1) steady_mem])
  moreover have "steady V ?t s1" by (rule send_steady [OF S _ _ s1(1)]) (use taken_ok [OF ok] l in \<open>simp_all add: taken_def\<close>)
  ultimately show ?thesis unfolding s1(2) by (blast intro: steady_trans steady_mem)
qed

lemma echo_user: "kernel_doc S V \<Longrightarrow> good_user V (echo_server_callbacks S p)"
proof -
  assume S: "kernel_doc S V"
  have "own_callback V (\<lambda>i. on_conn i onConnection)"
    by (rule own_on_conn) (simp add: onConnection_eq step_of_def calm_def moves_refl)
  moreover have "own_callback V (\<lambda>i. on_conn i (onMessage S rest other p))" for rest other
    by (rule own_on_conn, rule step_of_keeps)
      (simp_all add: onMessage_keeps [OF S] onMessage_steady [OF S] seated_def)
  ultimately show ?thesis by (simp add: good_user_def echo_server_callbacks_def Let_def)
qed
interpretation echo_server: server_user S V "echo_server_callbacks S p" for S V p
  by unfold_locales (rule echo_user)

section \<open>Setting up\<close>

lemma spawn_loop_adds:
  assumes docs: "startup_doc S V" and r: "spawn_loop S new_loop name w = Inr (l, w')"
  shows "loop_added V l w w'"
proof -
  obtain tid s slot where s: "EventLoop_init S l tid False None (pr_kern w) = Inr (s, slot)"
      "w' = w\<lparr>pr_kern := st_kern s, pr_loops := (pr_loops w)(l := st_loop s)\<rparr>"
    using r by (auto simp: spawn_loop_def elim!: bindE_InrE split: prod.splits)
  note i = EventLoop_init_own [OF docs s(1)]
  have "own_loop V w' l" using i(1,3) by (auto simp: own_loop_def pending_def registered_def s(2))
  then show ?thesis using i(4) by (simp add: loop_added_def s(2))
qed

interpretation echo_spawn: loop_spawner S V "spawn_loop S new_loop" for S V new_loop
  by unfold_locales (rule spawn_loop_adds)

lemma EventLoop_init_self: "EventLoop_init S self tid use_poll slot k = Inr (s, slot') \<Longrightarrow> st_self s = self \<and> st_tid s = tid"
  by (auto simp: EventLoop_init_def enableReading_def EventLoop_members_def elim!: bindE_InrE
      split: if_splits option.splits dest!: updateChannel_frame)

lemma setup_fresh:
  assumes docs: "startup_doc S V" and r: "echo_setup S inet_addr new_loop tid use_poll k = Inr w"
    and ap: "apart w (0 # tp_loops (ts_threadPool (pr_server w)))" "el_wakeupFd (pr_loops w 0) \<noteq> listens_on w"
  shows "fresh_server V w \<and> length (tp_loops (ts_threadPool (pr_server w))) = 3 \<and> ac_listenning (ts_acceptor (pr_server w))"
proof -
  let ?addr = "InetAddress_init inet_addr 8080 ''0.0.0.0''"
  obtain s slot v k1 where s: "EventLoop_init S 0 tid use_poll None k = Inr (s, slot)"
      "TcpServer_init S (Some 0) ?addr ''EchoServer'' kNoReusePort (st_kern s) = Inr (v, k1)"
      "server_start S (spawn_loop S new_loop) None \<lparr>pr_tid = tid, pr_kern = k1, pr_mem = Map.empty, pr_loops = (\<lambda>_. st_loop s),
         pr_conns = Map.empty, pr_server = server_setThreadNum 3 v\<rparr> = Inr w"
    using r by (auto simp: echo_setup_def EchoServer_init_def elim!: bindE_InrE)
  let ?w = "\<lparr>pr_tid = tid, pr_kern = k1, pr_mem = Map.empty, pr_loops = (\<lambda>_. st_loop s),
         pr_conns = Map.empty, pr_server = server_setThreadNum 3 v\<rparr>"
  note i = EventLoop_init_own [OF docs s(1)]
  have "own_loop V ?w 0"
    using i(1,3) TcpServer_init_reg [OF docs s(2)] by (auto simp: own_loop_def pending_def registered_def)
  then show ?thesis
    using echo_spawn.start_fresh [OF docs s(2) _ _ _ _ s(3) ap] i(2) by simp
qed

section \<open>Echoing\<close>

definition same_side :: "('k, 'z) conn_st_scheme \<Rightarrow> ('k, 'z) conn_st_scheme \<Rightarrow> bool" where
  "same_side s s' \<longleftrightarrow> st_tid s' = st_tid s \<and> el_threadId (st_loop s') = el_threadId (st_loop s) \<and>
     tc_state (st_conn s') = tc_state (st_conn s) \<and> tc_inputBuffer (st_conn s') = tc_inputBuffer (st_conn s) \<and>
     tc_sockfd (st_conn s') = tc_sockfd (st_conn s)"

lemma on_channel_frame:
  assumes "on_channel (\<lambda>p ch. updateChannel S p (f ch)) s = Inr s'"
  shows "same_side s s'"
  using assms by (auto simp: on_channel_def same_side_def upd_conn_def dest!: updateChannel_frame)

lemma same_side_simps [simp]:
  "same_side s s" "same_side s (queueInLoop S t u) = same_side s u" "same_side s (u\<lparr>st_kern := k\<rparr>) = same_side s u"
  "same_side s (upd_conn (\<lambda>c. c\<lparr>tc_outputBuffer := b\<rparr>) u) = same_side s u"
  by (simp_all add: same_side_def)

lemma same_side_trans: "same_side a b \<Longrightarrow> same_side b c \<Longrightarrow> same_side a c"
  by (simp add: same_side_def)

lemma send_direct_side: "send_direct S cbs d s = (n, r, e, s1) \<Longrightarrow> same_side s s1"
  by (auto simp: send_direct_def Let_def split: if_splits prod.splits io.splits)

lemma send_buffered_side: "send_buffered S cbs d n r s = Inr s' \<Longrightarrow> same_side s s'"
  unfolding send_buffered_def Let_def channel_ops_eta
  by (elim bindE_InrE) (auto split: if_splits dest!: on_channel_frame, simp_all add: same_side_def)

lemma sendInLoop_side: "sendInLoop S cbs d s = Inr s' \<Longrightarrow> same_side s s'"
  by (auto simp: sendInLoop_def Let_def split: if_splits prod.splits
      dest!: send_direct_side send_buffered_side intro: same_side_trans)

lemma onMessage_side:
  assumes ok: "conn_ok V s" and m: "onMessage S rest other p s = Inr s'"
    and up: "tc_state (st_conn s) = kConnected" "isInLoopThread s"
  shows "\<exists>s1. sendInLoop S rest (readable (tc_inputBuffer (st_conn s))) (taken s\<lparr>st_mem := (st_mem s)(p \<mapsto> readable (tc_inputBuffer (st_conn s)))\<rparr>) = Inr s1 \<and>
    s' = s1\<lparr>st_mem := (st_mem s1)(p := None)\<rparr> \<and> same_side (taken s) s'"
proof -
  let ?t = "taken s\<lparr>st_mem := (st_mem s)(p \<mapsto> readable (tc_inputBuffer (st_conn s)))\<rparr>"
  obtain s1 where s1: "send S rest other p ?t = Inr s1" "s' = s1\<lparr>st_mem := (st_mem s1)(p := None)\<rparr>"
    using m unfolding onMessage_eq [OF ok] by auto
  have "isInLoopThread ?t" "tc_state (st_conn ?t) = kConnected" "st_mem ?t p = Some (readable (tc_inputBuffer (st_conn s)))"
    using up by (simp_all add: taken_def)
  then have "sendInLoop S rest (readable (tc_inputBuffer (st_conn s))) ?t = Inr s1" using s1(1) by (simp add: send_def)
  moreover have "same_side ?t s1" by (rule sendInLoop_side) fact
  then have "same_side (taken s) s'" by (simp add: s1(2) same_side_def)
  ultimately show ?thesis using s1(2) by blast
qed

text \<open>The life of an echoed connection while the peer is there: data arrives, a read finds nothing, or
  the descriptor becomes writable. The list is what was received.\<close>

inductive echo_run :: "'k sys \<Rightarrow> (('k, 'z) conn_st_scheme \<Rightarrow> error + ('k, 'z) conn_st_scheme) option \<Rightarrow> str_ptr \<Rightarrow>
    ('k, 'z) conn_st_scheme \<Rightarrow> byte list \<Rightarrow> ('k, 'z) conn_st_scheme \<Rightarrow> bool"
  for S close p s0 where
  echo_start: "echo_run S close p s0 [] s0"
| echo_data: "echo_run S close p s0 r s \<Longrightarrow>
    sys_readv S (ch_fd (tc_channel (st_conn s))) (readFd_iov (tc_inputBuffer (st_conn s))) (st_kern s) = (Done d, k) \<Longrightarrow>
    d \<noteq> [] \<Longrightarrow> conn_handleRead S (echo_callbacks S close p) t s = Inr s' \<Longrightarrow> echo_run S close p s0 (r @ d) s'"
| echo_nothing: "echo_run S close p s0 r s \<Longrightarrow>
    sys_readv S (ch_fd (tc_channel (st_conn s))) (readFd_iov (tc_inputBuffer (st_conn s))) (st_kern s) = (Fail e, k) \<Longrightarrow>
    conn_handleRead S (echo_callbacks S close p) t s = Inr s' \<Longrightarrow> echo_run S close p s0 r s'"
| echo_write: "echo_run S close p s0 r s \<Longrightarrow> handleWrite S (echo_callbacks S close p) s = Inr s' \<Longrightarrow>
    echo_run S close p s0 r s'"

text \<open>The peer has not reset the connection.\<close>

definition peer_there :: "'k sys \<Rightarrow> 'k view \<Rightarrow> fd \<Rightarrow> bool" where
  "peer_there S V f \<longleftrightarrow> (\<forall>d k. \<not> v_fin V k f \<longrightarrow> \<not> fatal_write (fst (sys_write S f d k)))"

definition echoing :: "'k view \<Rightarrow> ('k, 'z) conn_st_scheme \<Rightarrow> bool" where
  "echoing V s \<longleftrightarrow> conn_ok V s \<and> tc_state (st_conn s) = kConnected \<and> isInLoopThread s \<and>
     readable (tc_inputBuffer (st_conn s)) = []"

lemma echo_read:
  assumes S: "kernel_doc S V" and e: "echoing V s" and peer: "peer_there S V (tc_sockfd (st_conn s))"
    and w: "sys_readv S (ch_fd (tc_channel (st_conn s))) (readFd_iov (tc_inputBuffer (st_conn s))) (st_kern s) = (Done d, k)"
    and d: "d \<noteq> []" and r: "conn_handleRead S (echo_callbacks S close p) t s = Inr s'"
  shows "echoing V s' \<and> out_stream V s' = out_stream V s @ d \<and> tc_sockfd (st_conn s') = tc_sockfd (st_conn s)"
proof -
  have ok: "conn_ok V s" using e by (simp add: echoing_def)
  obtain b where b: "buffer_ok b" "readable b = d"
      "onMessage S (echo_rest close) (\<lambda>_. Inr) p (upd_conn (\<lambda>c. c\<lparr>tc_inputBuffer := b\<rparr>) (s\<lparr>st_kern := k\<rparr>)) = Inr s'"
    using handleRead_cases [OF S ok w, of "echo_callbacks S close p" t] r d e
    by (auto simp: echo_callbacks_def echoing_def)
  let ?u = "upd_conn (\<lambda>c. c\<lparr>tc_inputBuffer := b\<rparr>) (s\<lparr>st_kern := k\<rparr>)"
  let ?m = "(st_mem ?u)(p \<mapsto> readable (tc_inputBuffer (st_conn ?u)))"
  have u: "conn_ok V ?u" by (rule conn_ok_read [OF S ok b(1) w])
  have up: "tc_state (st_conn ?u) = kConnected" "isInLoopThread ?u" using e by (simp_all add: echoing_def isInLoopThread_def)
  obtain s1 where s1: "sendInLoop S (echo_rest close) d (taken ?u\<lparr>st_mem := ?m\<rparr>) = Inr s1"
      "s' = s1\<lparr>st_mem := (st_mem s1)(p := None)\<rparr>" "same_side (taken ?u) s'"
    using onMessage_side [OF u b(3) up] b(2) by auto
  have sent: "v_sent V k = v_sent V (st_kern s)"
    using kernel_docD(1) [OF S] w by (simp add: readv_doc_def)
  then have str: "out_stream V ?u = out_stream V s" by (simp add: out_stream_def)
  have td: "tc_state (st_conn (taken ?u)) = kConnected" "tc_sockfd (st_conn (taken ?u)) = tc_sockfd (st_conn s)"
      "isInLoopThread (taken ?u)" "ch_fd (tc_channel (st_conn (taken ?u))) = tc_sockfd (st_conn s)"
    using up ok by (simp_all add: taken_def conn_ok_def conn_core_def)
  have "\<not> fin_sent V (taken ?u)" using taken_ok(1) [OF u] td(1) by (auto simp: conn_ok_def)
  then have rej: "\<not> send_rejected S d (taken ?u\<lparr>st_mem := ?m\<rparr>)"
    using peer td by (simp add: send_rejected_def peer_there_def write_result_def fin_sent_def)
  have mem: "memory_block d" using taken_ok(5) [OF u] b(2) by simp
  have "conn_ok V s1 \<and> out_stream V s1 = out_stream V s @ d"
    using holdsED [OF sendInLoop_ok [OF S _ mem] s1(1)] taken_ok [OF u] td rej str by simp
  then show ?thesis
    using s1(2,3) td taken_ok(4) [OF u] by (simp add: echoing_def same_side_def isInLoopThread_def)
qed

lemma echo_write_ok:
  assumes S: "kernel_doc S V" and e: "echoing V s" and r: "handleWrite S (echo_callbacks S close p) s = Inr s'"
  shows "echoing V s' \<and> out_stream V s' = out_stream V s \<and> tc_sockfd (st_conn s') = tc_sockfd (st_conn s)"
proof -
  have "same_side s s'" using r e
    unfolding handleWrite_def Let_def channel_ops_eta
    by (auto simp: echo_callbacks_def echo_rest_def echoing_def split: if_splits io.splits elim!: bindE_InrE dest!: on_channel_frame)
      (auto simp: same_side_def upd_conn_def)
  moreover have "conn_ok V s' \<and> out_stream V s' = out_stream V s"
    using holdsED [OF handleWrite_ok [OF S, of s] r] e by (simp add: echoing_def)
  ultimately show ?thesis using e by (simp add: echoing_def same_side_def isInLoopThread_def)
qed

lemma echo_idle:
  assumes S: "kernel_doc S V" and e: "echoing V s"
    and w: "sys_readv S (ch_fd (tc_channel (st_conn s))) (readFd_iov (tc_inputBuffer (st_conn s))) (st_kern s) = (Fail x, k)"
    and r: "conn_handleRead S (echo_callbacks S close p) t s = Inr s'"
  shows "echoing V s' \<and> out_stream V s' = out_stream V s \<and> tc_sockfd (st_conn s') = tc_sockfd (st_conn s)"
proof -
  have ok: "conn_ok V s" using e by (simp add: echoing_def)
  have "conn_handleRead S (echo_callbacks S close p) t s = handleError S (s\<lparr>st_kern := k\<rparr>)"
    using handleRead_cases [OF S ok w, of "echo_callbacks S close p" t] r by auto
  then obtain k' where s': "s' = s\<lparr>st_kern := k'\<rparr>" "k' = snd (sys_so_error S (ch_fd (tc_channel (st_conn s))) k)"
    using r by (simp add: handleError_def)
  have v: "same_view V (st_kern s) k'"
    using kernel_docD(1,4) [OF S] w s'(2)
    by (auto simp: readv_doc_def so_error_doc_def same_view_def) (metis prod.collapse)+
  have "keeps V s (Inr s')" unfolding s'(1) by (rule keeps_same_view) (use v ok in \<open>simp_all add: same_view_def\<close>)
  then show ?thesis
    using e v s'(1) by (simp add: keeps_Inr echoing_def out_stream_def same_view_def isInLoopThread_def)
qed

lemma echo_run_ok:
  assumes S: "kernel_doc S V" and e: "echoing V s0" and peer: "peer_there S V (tc_sockfd (st_conn s0))"
  shows "echo_run S close p s0 r s \<Longrightarrow>
    echoing V s \<and> out_stream V s = out_stream V s0 @ r \<and> tc_sockfd (st_conn s) = tc_sockfd (st_conn s0)"
proof (induction rule: echo_run.induct)
  case (echo_data r s d k t s')
  then show ?case using echo_read [OF S _ _ echo_data(2,3,4)] peer by simp
next
  case (echo_nothing r s x k t s')
  then show ?case using echo_idle [OF S _ echo_nothing(2,3)] by simp
next
  case (echo_write r s s')
  then show ?case using echo_write_ok [OF S _ echo_write(2)] by simp
qed (use e in simp)

lemma echo_flush:
  assumes S: "kernel_doc S V" and w: "accepts S V f"
  shows "echoing V s \<Longrightarrow> tc_sockfd (st_conn s) = f \<Longrightarrow> length (readable (tc_outputBuffer (st_conn s))) \<le> n \<Longrightarrow>
    holdsE conn_error (\<lambda>s'. v_sent V (st_kern s') f = out_stream V s) (rounds (handleWrite S (echo_callbacks S close p)) n s)"
proof (induction n arbitrary: s)
  case 0
  then show ?case by (simp add: out_stream_def)
next
  case (Suc n)
  let ?out = "\<lambda>s. readable (tc_outputBuffer (st_conn s))"
  have ok: "conn_ok V s" using Suc.prems(1) by (simp add: echoing_def)
  have "holdsE conn_error (\<lambda>s1. echoing V s1 \<and> out_stream V s1 = out_stream V s \<and> tc_sockfd (st_conn s1) = f \<and>
      length (?out s1) \<le> n) (handleWrite S (echo_callbacks S close p) s)"
  proof (cases "handleWrite S (echo_callbacks S close p) s")
    case (Inl x)
    then show ?thesis using handleWrite_ok [OF S ok, of "echo_callbacks S close p"] by simp
  next
    case (Inr s1)
    note eff = holdsED [OF handleWrite_ok [OF S ok] Inr]
    have "length (?out s1) \<le> n"
    proof (cases "?out s = []")
      case True
      then have "\<not> isWriting (tc_channel (st_conn s))" using ok by (simp add: conn_ok_def)
      then show ?thesis using eff True by (simp add: write_effect_def)
    next
      case False
      then have wr: "isWriting (tc_channel (st_conn s))" and nofin: "\<not> fin_sent V s"
        using ok Suc.prems(1) by (auto simp: conn_ok_def live_def echoing_def)
      obtain m where "0 < m" "write_result S (?out s) s = Done m"
        using w nofin False Suc.prems(2) unfolding accepts_def write_result_def fin_sent_def by blast
      then show ?thesis using eff wr Suc.prems(3) by (simp add: write_effect_def write_count_def)
    qed
    then show ?thesis using echo_write_ok [OF S Suc.prems(1) Inr] Inr Suc.prems(2) by simp
  qed
  then show ?case
    unfolding rounds.simps
  proof (rule holdsE_bind)
    fix s1 :: "('a, 'b) conn_st_scheme"
    assume "echoing V s1 \<and> out_stream V s1 = out_stream V s \<and> tc_sockfd (st_conn s1) = f \<and> length (?out s1) \<le> n"
    then show "holdsE conn_error (\<lambda>s'. v_sent V (st_kern s') f = out_stream V s)
        (rounds (handleWrite S (echo_callbacks S close p)) n s1)"
      using Suc.IH [of s1] by simp
  qed
qed

section \<open>Properties\<close>

text \<open>C6: The echo server echoes. For a connection that is up, while the peer does not reset it: at
  every moment of every sequence of arrivals, empty reads and write events, what the kernel was
  given is a prefix of what was received, in order; and as long as the kernel takes at least one
  byte at each write event, after as many of those as bytes are waiting it has been given
  everything that was received. (The one other outcome is a fatal error.)\<close>

theorem echo_everything:
  assumes "kernel_doc S V" and "echoing V s0" and "peer_there S V (tc_sockfd (st_conn s0))"
    and "accepts S V (tc_sockfd (st_conn s0))" and "echo_run S close p s0 r s"
  shows "prefix (v_sent V (st_kern s) (tc_sockfd (st_conn s0))) (out_stream V s0 @ r) \<and>
    holdsE conn_error (\<lambda>s'. v_sent V (st_kern s') (tc_sockfd (st_conn s0)) = out_stream V s0 @ r)
      (rounds (handleWrite S (echo_callbacks S close p)) (length (readable (tc_outputBuffer (st_conn s)))) s)"
proof -
  have e: "echoing V s" "out_stream V s = out_stream V s0 @ r" "tc_sockfd (st_conn s) = tc_sockfd (st_conn s0)"
    using echo_run_ok [OF assms(1-3,5)] by auto
  then have "prefix (v_sent V (st_kern s) (tc_sockfd (st_conn s0))) (out_stream V s0 @ r)"
    by (metis out_stream_def prefixI)
  then show ?thesis using echo_flush [OF assms(1,4) e(1,3) order_refl, of close p] e(2) by simp
qed


text \<open>On the concrete kernel, with new loops at the next free number: \<open>main\<close> gets to its loop.\<close>

definition next_loop :: "sim process \<Rightarrow> loop_id \<times> tid" where
  "next_loop w = (nat (sim_next (pr_kern w)), sim_next (pr_kern w))"

definition sim_loop :: "loop_id \<Rightarrow> tid \<Rightarrow> fd \<Rightarrow> task eventloop" where
  "sim_loop l tid f = \<lparr>el_looping = False, el_quit = False, el_threadId = tid,
        el_pollRetureTime = Timestamp_default, el_poller = \<lparr>ep_channels = [f + 1 \<mapsto> WakeupChannelOf l],
          ep_epollfd = f, ep_events_size = kInitEventListSize\<rparr>, el_wakeupFd = f + 1,
        el_wakeupChannel = (Channel_init (f + 1))\<lparr>ch_events := kReadEvent, ch_index := kAdded\<rparr>, el_activeChannels = [],
        el_callingPendingFunctors = False, el_pendingFunctors = []\<rparr>"

definition sim_looped :: "loop_id \<Rightarrow> sim \<Rightarrow> sim" where
  "sim_looped l k = k\<lparr>sim_next := sim_next k + 2, sim_reg := (sim_reg k)(sim_next k := [sim_next k + 1 \<mapsto> (kReadEvent, WakeupChannelOf l)])\<rparr>"

lemma loop_init_sim: "EventLoop_init sim_sys l tid False None k = Inr
    (\<lparr>st_tid = tid, st_self = l, st_loop = sim_loop l tid (sim_next k), st_kern = sim_looped l k\<rparr>, Some l)"
  by (simp add: EventLoop_init_def newDefaultPoller_def EPollPoller_init_def createEventfd_def
      sim_epoll_create_def sim_fresh_def enableReading_def updateChannel_def poller_updateChannel_def
      poller_update_def Channel_init_def index_defs EventLoop_members_def set_index_def Let_def isNoneEvent_def
      kNoneEvent_def kReadEvent_def sim_loop_def sim_looped_def)

lemma spawn_sim: "spawn_loop sim_sys next_loop name w = Inr (nat (sim_next (pr_kern w)),
    w\<lparr>pr_kern := sim_looped (nat (sim_next (pr_kern w))) (pr_kern w), pr_loops := (pr_loops w)(nat (sim_next (pr_kern w)) :=
       sim_loop (nat (sim_next (pr_kern w))) (sim_next (pr_kern w)) (sim_next (pr_kern w)))\<rparr>)"
  by (simp add: spawn_loop_def next_loop_def loop_init_sim)

definition set_up :: "tcpserver \<Rightarrow> sim process" where
  "set_up v = \<lparr>pr_tid = 100, pr_kern = sim_looped 0 sim_init\<lparr>sim_next := 6\<rparr>, pr_mem = Map.empty,
     pr_loops = (\<lambda>_. sim_loop 0 100 3), pr_conns = Map.empty, pr_server = server_setThreadNum 3 v\<rparr>"

lemma start_sim:
  assumes "ts_loop v = 0" "ts_threadPool v = LoopPool_init 0 name" "ts_started v = 0"
    "ts_acceptor v = \<lparr>ac_sockfd = 5, ac_channel = Channel_init 5, ac_listenning = False\<rparr>"
  shows "\<exists>w. server_start sim_sys (spawn_loop sim_sys next_loop) None (set_up v) = Inr w \<and>
     apart w (0 # tp_loops (ts_threadPool (pr_server w))) \<and> el_wakeupFd (pr_loops w 0) \<noteq> listens_on w"
  using assms
  by (simp add: set_up_def server_start_def pool_start_def LoopPool_init_def server_setThreadNum_def setThreadNum_def upt_rec
     start_one_def Let_def spawn_sim sim_looped_def upd_server_def sim_init_def on_loop_run on_acceptor_def
     Acceptor_listen_def acceptor_view_def upd_acceptor_def socket_listen_def enableReading_def updateChannel_def poller_updateChannel_def
        poller_update_def Channel_init_def index_defs set_index_def isNoneEvent_def kNoneEvent_def kReadEvent_def sim_loop_def
        accept_ptr_def acceptor_put_def apart_def listens_on_def with_poller_def)

lemma echo_setup_sim:
  "\<exists>w. echo_setup sim_sys (\<lambda>_. 0) next_loop 100 False sim_init = Inr w \<and>
     apart w (0 # tp_loops (ts_threadPool (pr_server w))) \<and> el_wakeupFd (pr_loops w 0) \<noteq> listens_on w"
proof -
  let ?addr = "InetAddress_init (\<lambda>_. 0) 8080 ''0.0.0.0''"
  obtain v where v: "TcpServer_init sim_sys (Some 0) ?addr ''EchoServer'' kNoReusePort (sim_looped 0 sim_init) =
      Inr (v, sim_looped 0 sim_init\<lparr>sim_next := 6\<rparr>)" "ts_loop v = 0" "ts_threadPool v = LoopPool_init 0 ''EchoServer''"
      "ts_started v = 0" "ts_acceptor v = \<lparr>ac_sockfd = 5, ac_channel = Channel_init 5, ac_listenning = False\<rparr>"
    using toIpPort_returns [of ?addr]
    by (auto simp: TcpServer_init_def Acceptor_init_def createNonblocking_def sim_fresh_def sim_looped_def sim_init_def
        bindAddress_def setReusePort_def setReuseAddr_def)
  have "echo_setup sim_sys (\<lambda>_. 0) next_loop 100 False sim_init =
      server_start sim_sys (spawn_loop sim_sys next_loop) None (set_up v)"
    by (simp add: echo_setup_def loop_init_sim EchoServer_init_def v(1) set_up_def) (simp add: sim_init_def)
  then show ?thesis using start_sim [OF v(2-5)] by simp
qed

lemma sim_startup_doc: "startup_doc sim_sys sim_view"
  using sim_epoll_ctl_doc sim_epoll_create_doc sim_passive_doc by (simp add: startup_doc_def sim_fresh_def)


text \<open>Two bytes arrive; the kernel takes one at once.\<close>

definition echo_conn :: "sim conn_st" where
  "echo_conn = sample_conn kConnected [] (sim_init\<lparr>sim_reads := [Done [5, 6]]\<rparr>)"

theorem echo_everything_witness:
  "\<exists>s. echo_run greedy_sys None 1 echo_conn [5, 6] s \<and> prefix (sim_sent (st_kern s) 7) [5, 6] \<and>
     holdsE conn_error (\<lambda>s'. sim_sent (st_kern s') 7 = [5, 6])
       (rounds (handleWrite greedy_sys (echo_callbacks greedy_sys None 1)) (length (readable (tc_outputBuffer (st_conn s)))) s)"
proof -
  have ok: "conn_ok sim_view echo_conn" unfolding echo_conn_def by (rule sample_conn_ok) (simp_all add: sim_init_def)
  have e: "echoing sim_view echo_conn"
    using ok buffer_with_ok [of "[]"] by (simp add: echoing_def) (simp add: echo_conn_def sample_conn_def isInLoopThread_def sample_loop_def)
  have f: "tc_sockfd (st_conn echo_conn) = 7" "out_stream sim_view echo_conn = []"
    using buffer_with_ok [of "[]"] by (simp_all add: echo_conn_def sample_conn_def out_stream_def sim_init_def)
  have k: "peer_there greedy_sys sim_view 7" "accepts greedy_sys sim_view 7"
    by (simp_all add: peer_there_def accepts_def greedy_sys_def sim_write_def fatal_write_def)
  have w: "\<exists>k. sys_readv greedy_sys (ch_fd (tc_channel (st_conn echo_conn))) (readFd_iov (tc_inputBuffer (st_conn echo_conn)))
      (st_kern echo_conn) = (Done [5, 6], k)"
    by (simp add: greedy_sys_def echo_conn_def sample_conn_def sim_readv_def sim_init_def readFd_iov_def extrabuf_size_def)
  obtain t where t: "toIpPort (InetAddress_of \<lparr>sin_family = 2, sin_port = 0, sin_addr = 0\<rparr>) = Inr t"
    using toIpPort_returns by blast
  have r: "\<exists>s. conn_handleRead greedy_sys (echo_callbacks greedy_sys None 1) Timestamp_default echo_conn = Inr s"
    by (simp add: conn_handleRead_def readFd_def echo_conn_def sample_conn_def greedy_sys_def sim_readv_def sim_init_def readFd_iov_def
        extrabuf_size_def buffer_with_def writableBytes_def vector_size_def copy_in_def Let_def echo_callbacks_def)
      (simp add: onMessage_def retrieveAllAsString_def retrieveAsString_def peek_def readableBytes_def retrieve_def retrieveAll_def
        kCheapPrepend_def t Let_def send_def isInLoopThread_def sample_loop_def sendInLoop_def send_direct_def isWriting_bit
        sample_events_def write_bit Channel_init_def vector_size_def sim_write_def echo_rest_def)
  obtain s where run: "echo_run greedy_sys None 1 echo_conn ([] @ [5, 6]) s"
    using w r echo_data [OF echo_start] by (metis list.discI)
  from echo_everything [OF greedy_kernel_doc e k [folded f(1)] run, unfolded f] run show ?thesis by auto
qed

end
