(* ===== verification/ServerIsolation.thy ===== *)
theory ServerIsolation
  imports ServerProperties
begin

text \<open>
  The connections of a running server are isolated from each other: every step of a run, whichever
  thread makes it, is the work of at most one of them. The operations' own frames are in the theory
  ConnMoves, and in ServerAlone what they leave alone of other connections. And the stream of a connection only grows, as
  long as its object lives.
\<close>

section \<open>Whose step it is\<close>

text \<open>The connections a step concerns: the one whose channel is handled, the one whose functor is run,
  the one that is destroyed. An accept, a poll and the two ends of the functors' queue concern none.\<close>

definition acting :: "'k schedule \<Rightarrow> 'k schedule \<Rightarrow> conn_id set" where
  "acting st st' = {i. (\<exists>l ps. snd st l = Dispatching (ConnChannelOf i # ps) \<and> snd st' l = Dispatching ps) \<or>
     (\<exists>l t ts. snd st l = Draining (t # ts) \<and> snd st' l = Draining ts \<and> task_conn t = Some i) \<or>
     pr_conns (fst st) i \<noteq> None \<and> pr_conns (fst st') i = None}"

text \<open>Any number of steps throughout which the object \<open>i\<close> is there.\<close>

definition survives :: "'k sys \<Rightarrow> (string \<Rightarrow> 32 word) \<Rightarrow> 'k process server_callbacks \<Rightarrow> ('k process \<Rightarrow> conn_id) \<Rightarrow>
    (nat \<Rightarrow> 'k process \<Rightarrow> error + 'k process) \<Rightarrow> conn_id \<Rightarrow> 'k schedule \<Rightarrow> 'k schedule \<Rightarrow> bool" where
  "survives S inet_addr ucb alloc user i =
     rtranclp (\<lambda>st st'. server_step S inet_addr ucb alloc user st st' \<and> pr_conns (fst st') i \<noteq> None)"

section \<open>Lemmas\<close>

lemma fill_kern: "fillActiveChannels with_channel evs s = (ps, s') \<Longrightarrow> st_kern s' = st_kern s"
proof (induction evs arbitrary: s ps)
  case (Cons x evs)
  obtain e p where x: "x = (e, p)" by (cases x)
  have "st_kern (with_channel p (set_revents e) s) = st_kern s" by (cases p) simp_all
  then show ?case using Cons x by (auto split: prod.splits)
qed simp

lemma turn_poll_kern:
  assumes p: "poll S kPollTimeMs (el_poller (pr_loops w l)) (pr_kern w) = (now, evs, po, k)"
  shows "pr_kern (turn_poll S l w) = k"
proof -
  obtain ps s where f: "fillActiveChannels with_channel evs
      ((loop_view l (in_thread l w))\<lparr>st_loop := (pr_loops w l)\<lparr>el_poller := po\<rparr>, st_kern := k\<rparr>) = (ps, s)" by fastforce
  show ?thesis using p f fill_kern [OF f] by (simp add: turn_poll_def loop_poll_def Let_def)
qed

lemma turn_poll_leaves:
  assumes "kernel_doc S V" and "passive_doc S V"
  shows "leaves_alone V X w (turn_poll S l w)"
proof (rule alike_leaves [OF turn_poll_alike(1) [OF assms]])
  fix j e
  obtain now evs po k where p: "poll S kPollTimeMs (el_poller (pr_loops w l)) (pr_kern w) = (now, evs, po, k)" by (metis prod_cases4)
  show "v_sent V (pr_kern (turn_poll S l w)) (tc_sockfd e) = v_sent V (pr_kern w) (tc_sockfd e)"
    using poll_alike(1) [OF assms p] by (simp add: turn_poll_kern [OF p] same_view_def)
qed

lemma turn_swap_leaves: "leaves_alone V X w (turn_swap l w)"
  by (rule alike_leaves [OF turn_swap_alike(1)]) (simp add: turn_swap_def swap_begin_def)

lemma turn_done_leaves: "leaves_alone V X w (turn_done l w)"
  by (rule alike_leaves [OF turn_done_alike(1)]) (simp add: turn_done_def drain_end_def)

lemma in_thread_leaves: "leaves_alone V X (in_thread l w) w' \<Longrightarrow> leaves_alone V X w w'"
  by (auto simp: leaves_alone_def same_at_def same_loop_def)

lemma free_leaves:
  assumes "close_own_doc S V" and s: "safe V w q d" and f: "TcpConnection_destroy S i w = Inr w'"
  shows "leaves_alone V {i} w w'"
  unfolding leaves_alone_def
proof (intro allI impI)
  fix j e assume j: "j \<notin> {i}" and e: "pr_conns w j = Some e"
  obtain c where c: "pr_conns w i = Some c"
      "w' = w\<lparr>pr_kern := Socket_destroy S (tc_sockfd c) (pr_kern w), pr_conns := (pr_conns w)(i := None)\<rparr>"
    using f by (auto simp: TcpConnection_destroy_def split: option.splits)
  have fd: "tc_sockfd e \<noteq> tc_sockfd c"
    using safeD(3) [OF s, unfolded distinct_fds_def, THEN conjunct1, rule_format, OF e c(1)] j by blast
  have "ep_epollfd (el_poller (pr_loops w (tc_loop e))) \<noteq> tc_sockfd c"
    using soundD(3) [OF safeD(4) [OF s c(1)] soundD(2) [OF safeD(4) [OF s e]]] by simp
  then show "(\<exists>e'. pr_conns w' j = Some e' \<and> plain e' = plain e) \<and>
     ts_connections (pr_server w') (tc_name e) = ts_connections (pr_server w) (tc_name e) \<and>
     v_sent V (pr_kern w') (tc_sockfd e) = v_sent V (pr_kern w) (tc_sockfd e) \<and> same_at V w w' (tc_loop e) (tc_sockfd e)"
    using assms(1) e j fd by (simp add: c(2) close_own_doc_def Socket_destroy_def same_at_def same_loop_def)
qed

lemma acting_within:
  assumes "leaves_alone V X w w'"
    and "\<And>i ps. ph l = Dispatching (ConnChannelOf i # ps) \<Longrightarrow> i \<in> X" and "\<And>t ts i. ph l = Draining (t # ts) \<Longrightarrow> task_conn t = Some i \<Longrightarrow> i \<in> X"
  shows "acting (w, ph) (w', ph(l := x)) \<subseteq> X"
proof -
  have "i \<in> X" if "pr_conns w i \<noteq> None" "pr_conns w' i = None" for i
    using leaves_aloneD(1) [OF assms(1)] that by fastforce
  then show ?thesis using assms(2,3) by (auto simp: acting_def split: if_splits)
qed

lemma acting_quiet:
  assumes "leaves_alone V {} w w'" and "ph l = Waiting \<or> ph l = Dispatching [] \<or> ph l = Draining []"
  shows "acting (w, ph) (w', ph(l := x)) = {}"
  using acting_within [OF assms(1), of ph l] assms(2) by auto

text \<open>Each step is the work of at most one connection, and leaves the others alone.\<close>

lemma step_leaves:
  assumes D: "server_doc S V" and u: "good_user V ucb"
  shows "server_step S inet_addr ucb alloc user st st' \<Longrightarrow> safe_schedule V st \<Longrightarrow>
    leaves_alone V (acting st st') (fst st) (fst st') \<and> (\<exists>i. acting st st' \<subseteq> {i})"
proof (induction rule: server_step.induct)
  case (step_poll l w ph)
  note t = turn_poll_leaves [OF server_docD(1,2) [OF D], where w = w and l = l]
  show ?case using t by (simp add: acting_quiet [OF t] step_poll.hyps(2))
next
  case (step_handle l w ph p ps w')
  have "turned V (handled_conn p) (in_thread l w) w'" by (rule handled_turned [where ph = ph, OF D u step_handle.prems(1) step_handle.hyps])
  then have t: "leaves_alone V (handled_conn p) w w'" unfolding turned_def by (blast intro: in_thread_leaves)
  have sub: "acting (w, ph) (w', ph(l := Dispatching ps)) \<subseteq> handled_conn p"
    by (rule acting_within [OF t]) (use step_handle.hyps(2) in auto)
  have sup: "handled_conn p \<subseteq> acting (w, ph) (w', ph(l := Dispatching ps))"
    using step_handle.hyps(2) by (cases p) (auto simp: acting_def)
  have "\<exists>i. handled_conn p \<subseteq> {i}" by (cases p) auto
  then show ?case using t equalityI [OF sub sup] by simp
next
  case (step_swap l w ph)
  show ?case using turn_swap_leaves by (simp add: acting_quiet [OF turn_swap_leaves] step_swap.hyps(2))
next
  case (step_run l w ph t ts w')
  have "turned V (set_option (task_conn t)) (in_thread l w) w'" by (rule run_turned [where ph = ph, OF D u step_run.prems(1) step_run.hyps])
  then have a: "leaves_alone V (set_option (task_conn t)) w w'" unfolding turned_def by (blast intro: in_thread_leaves)
  have sub: "acting (w, ph) (w', ph(l := Draining ts)) \<subseteq> set_option (task_conn t)"
    by (rule acting_within [OF a]) (use step_run.hyps(2) in auto)
  have sup: "set_option (task_conn t) \<subseteq> acting (w, ph) (w', ph(l := Draining ts))"
    using step_run.hyps(2) by (auto simp: acting_def)
  have "\<exists>i. set_option (task_conn t) \<subseteq> {i}" by (cases "task_conn t") auto
  then show ?case using a equalityI [OF sub sup] by simp
next
  case (step_done l w ph)
  show ?case using turn_done_leaves by (simp add: acting_quiet [OF turn_done_leaves] step_done.hyps(2))
next
  case (step_free w i ph w')
  have "leaves_alone V {i} w w'"
    using free_leaves [OF server_docD(6) [OF D] _ step_free.hyps(3)] step_free.prems by (auto simp: safe_schedule_def)
  moreover have "acting (w, ph) (w', ph) = {i}"
    using step_free.hyps(1,3) by (auto simp: TcpConnection_destroy_def acting_def split: option.splits if_splits)
  ultimately show ?case by auto
qed

lemma in_thread_carries: "carries V (in_thread l w) w' \<Longrightarrow> carries V w w'"
  by (simp add: carries_def lives_on_def)

text \<open>A connection that is still there after a step has lived on.\<close>

lemma step_lives_on:
  assumes D: "server_doc S V" and u: "good_user V ucb"
  shows "server_step S inet_addr ucb alloc user st st' \<Longrightarrow> safe_schedule V st \<Longrightarrow> pr_conns (fst st) i = Some c \<Longrightarrow>
    pr_conns (fst st') i \<noteq> None \<Longrightarrow> \<exists>c'. pr_conns (fst st') i = Some c' \<and> lives_on V c (fst st) c' (fst st')"
proof (induction rule: server_step.induct)
  case (step_poll l w ph)
  show ?case using leaves_carries [OF turn_poll_leaves [OF server_docD(1,2) [OF D]]] step_poll.prems by (simp add: carries_def)
next
  case (step_handle l w ph p ps w')
  have "turned V (handled_conn p) (in_thread l w) w'" by (rule handled_turned [where ph = ph, OF D u step_handle.prems(1) step_handle.hyps])
  then have "carries V w w'" unfolding turned_def by (blast intro: in_thread_carries)
  then show ?case using step_handle.prems by (simp add: carries_def)
next
  case (step_swap l w ph)
  show ?case using leaves_carries [OF turn_swap_leaves [where V = V and w = w and l = l]] step_swap.prems by (simp add: carries_def)
next
  case (step_run l w ph t ts w')
  have "turned V (set_option (task_conn t)) (in_thread l w) w'" by (rule run_turned [where ph = ph, OF D u step_run.prems(1) step_run.hyps])
  then have "carries V w w'" unfolding turned_def by (blast intro: in_thread_carries)
  then show ?case using step_run.prems by (simp add: carries_def)
next
  case (step_done l w ph)
  show ?case using leaves_carries [OF turn_done_leaves [where V = V and w = w and l = l]] step_done.prems by (simp add: carries_def)
next
  case (step_free w j ph w')
  have "i \<noteq> j" using step_free by (auto simp: TcpConnection_destroy_def split: option.splits)
  then show ?case
    using alone_lives_on [OF free_leaves [OF server_docD(6) [OF D] _ step_free.hyps(3)]] step_free.prems by (auto simp: safe_schedule_def)
qed

lemma survivor_lives_on:
  assumes D: "server_doc S V" and u: "good_user V ucb" and s: "safe_schedule V st" and c: "pr_conns (fst st) i = Some c"
  shows "survives S inet_addr ucb alloc user i st st' \<Longrightarrow>
    safe_schedule V st' \<and> (\<exists>c'. pr_conns (fst st') i = Some c' \<and> lives_on V c (fst st) c' (fst st'))"
  unfolding survives_def
proof (induction rule: rtranclp_induct)
  case (step st1 st2)
  then obtain c1 where c1: "safe_schedule V st1" "pr_conns (fst st1) i = Some c1" "lives_on V c (fst st) c1 (fst st1)" by blast
  from step_lives_on [OF D u _ c1(1,2)] step.hyps(2) step_safe [OF D u _ c1(1)] c1(3) show ?case
    by (blast intro: lives_on_trans)
qed (use s c in auto)

lemma plain_events: "plain e' = plain e \<Longrightarrow> e' = e\<lparr>tc_channel := set_revents (ch_revents (tc_channel e')) (tc_channel e)\<rparr>"
  by (cases e; cases e'; cases "tc_channel e"; cases "tc_channel e'") (simp add: plain_def set_revents_def)

section \<open>Properties\<close>

text \<open>C11: Connections do not interfere. Every step of a run of a started server, in whichever of
  its threads, concerns at most one connection, and none when it accepts, polls or takes or ends a
  queue of functors. Every other living connection is the same object
  afterwards (state, buffers, settings, all but the events last reported), under the same entry of the
  server's table; not a byte is added to its stream, its write end stays as it was, and so does its
  registration, interest set included, with its loop's poller and epoll set.\<close>

theorem connections_do_not_interfere:
  assumes "server_doc S V" and "good_user V ucb" and "fresh_server V w0"
    and "server_run S inet_addr ucb alloc user (w0, \<lambda>_. Waiting) (w, ph)"
    and "server_step S inet_addr ucb alloc user (w, ph) (w', ph')"
  shows "(\<exists>i. acting (w, ph) (w', ph') \<subseteq> {i}) \<and>
    (\<forall>j e. pr_conns w j = Some e \<and> j \<notin> acting (w, ph) (w', ph') \<longrightarrow>
       (\<exists>ev. pr_conns w' j = Some (e\<lparr>tc_channel := set_revents ev (tc_channel e)\<rparr>)) \<and>
       ts_connections (pr_server w') (tc_name e) = ts_connections (pr_server w) (tc_name e) \<and>
       v_sent V (pr_kern w') (tc_sockfd e) = v_sent V (pr_kern w) (tc_sockfd e) \<and>
       v_fin V (pr_kern w') (tc_sockfd e) = v_fin V (pr_kern w) (tc_sockfd e) \<and>
       ep_channels (el_poller (pr_loops w' (tc_loop e))) (tc_sockfd e) = ep_channels (el_poller (pr_loops w (tc_loop e))) (tc_sockfd e) \<and>
       v_reg V (pr_kern w') (ep_epollfd (el_poller (pr_loops w (tc_loop e)))) (tc_sockfd e) =
         v_reg V (pr_kern w) (ep_epollfd (el_poller (pr_loops w (tc_loop e)))) (tc_sockfd e))"
proof -
  have "server_user S V ucb" using assms(2) by unfold_locales
  note s = server_user.always_safe [OF this assms(1,3,4)]
  have i: "leaves_alone V (acting (w, ph) (w', ph')) w w'" "\<exists>i. acting (w, ph) (w', ph') \<subseteq> {i}"
    using step_leaves [OF assms(1,2,5)] s by (auto simp: safe_schedule_def)
  show ?thesis using i(2) leaves_aloneD [OF i(1)] plain_events unfolding same_at_def by metis
qed

lemma accepted_loops:
  assumes "server_run sim_sys inet_addr no_server_callbacks alloc user (ready_process, \<lambda>_. Waiting) (w, ph)"
  shows "0 \<in> server_loops (pr_server w)"
  using run_loops [OF sim_server_doc no_callbacks_user fresh_safe [OF ready_fresh] assms] ready_loops(1) by simp

text \<open>The base loop has accepted the connection 9 and goes on to its functors.\<close>

theorem connections_do_not_interfere_witness:
  "\<exists>w c ev. server_run sim_sys (\<lambda>_. 0) no_server_callbacks (\<lambda>_. 9) (\<lambda>_. Inr) (ready_process, \<lambda>_. Waiting)
      (w, ready_phases(0 := Dispatching [])) \<and> pr_conns w 9 = Some c \<and>
     pr_conns (turn_swap 0 w) 9 = Some (c\<lparr>tc_channel := set_revents ev (tc_channel c)\<rparr>)"
proof -
  obtain w c where w: "server_run sim_sys (\<lambda>_. 0) no_server_callbacks (\<lambda>_. 9) (\<lambda>_. Inr) (ready_process, \<lambda>_. Waiting)
      (w, ready_phases(0 := Dispatching []))" "pr_conns w 9 = Some c"
    using accepted_run by blast
  have "0 \<in> server_loops (pr_server w)" using accepted_loops [OF w(1)] .
  then have st: "server_step sim_sys (\<lambda>_. 0) no_server_callbacks (\<lambda>_. 9) (\<lambda>_. Inr) (w, ready_phases(0 := Dispatching []))
      (turn_swap 0 w, (ready_phases(0 := Dispatching []))(0 := Draining (pending w 0)))"
    by (rule step_swap) simp
  have "9 \<notin> acting (w, ready_phases(0 := Dispatching [])) (turn_swap 0 w, (ready_phases(0 := Dispatching []))(0 := Draining (pending w 0)))"
    by (subst acting_quiet [OF turn_swap_leaves]) simp_all
  then show ?thesis
    using connections_do_not_interfere [OF sim_server_doc no_callbacks_user ready_fresh w(1) st, THEN conjunct2] w by blast
qed

text \<open>C9: Streams only grow. In any run of a started server, and however many steps of whichever
  threads lie between: as long as a connection lives, it keeps its name, its loop and its descriptor, its
  state never goes back, what has been sent stays sent, and what had been accepted and waited in its output
  buffer follows it in the same order, without a gap, sent or still waiting. Once the write end is shut it stays shut; and
  while it is shut on a connection that is not down, everything accepted has been sent.\<close>

theorem streams_only_grow:
  assumes "server_doc S V" and "good_user V ucb" and "fresh_server V w0"
    and "server_run S inet_addr ucb alloc user (w0, \<lambda>_. Waiting) (w, ph)" and "pr_conns w i = Some c"
    and "survives S inet_addr ucb alloc user i (w, ph) (w', ph')"
  shows "\<exists>c'. pr_conns w' i = Some c' \<and> tc_name c' = tc_name c \<and> tc_loop c' = tc_loop c \<and> tc_sockfd c' = tc_sockfd c \<and>
    state_rank (tc_state c) \<le> state_rank (tc_state c') \<and>
    prefix (v_sent V (pr_kern w) (tc_sockfd c)) (v_sent V (pr_kern w') (tc_sockfd c)) \<and>
    prefix (v_sent V (pr_kern w) (tc_sockfd c) @ readable (tc_outputBuffer c))
      (v_sent V (pr_kern w') (tc_sockfd c) @ readable (tc_outputBuffer c')) \<and>
    (v_fin V (pr_kern w) (tc_sockfd c) \<longrightarrow> v_fin V (pr_kern w') (tc_sockfd c)) \<and>
    (v_fin V (pr_kern w') (tc_sockfd c) \<and> tc_state c' \<noteq> kDisconnected \<longrightarrow>
      prefix (v_sent V (pr_kern w) (tc_sockfd c) @ readable (tc_outputBuffer c)) (v_sent V (pr_kern w') (tc_sockfd c)))"
proof -
  have "server_user S V ucb" using assms(2) by unfold_locales
  then have "safe_schedule V (w, ph)" using server_user.always_safe [OF _ assms(1,3,4)] by (simp add: safe_schedule_def)
  from survivor_lives_on [OF assms(1,2) this _ assms(6)] assms(5) obtain c' where c': "safe_schedule V (w', ph')"
    "pr_conns w' i = Some c'" "lives_on V c w c' w'" by auto
  have "conn_ok V (conn_view c' w')"
    using soundD(1) [OF safeD(4) [OF c'(1) [unfolded safe_schedule_def fst_conv snd_conv] c'(2)]] .
  then have "v_fin V (pr_kern w') (tc_sockfd c') \<and> tc_state c' \<noteq> kDisconnected \<longrightarrow> readable (tc_outputBuffer c') = []"
    by (auto simp: conn_ok_def fin_sent_def)
  then show ?thesis using c'(2,3) by (auto simp: lives_on_def same_ident_def)
qed

theorem streams_only_grow_witness:
  "\<exists>w c c'. pr_conns w 9 = Some c \<and> pr_conns (turn_swap 0 w) 9 = Some c' \<and>
     prefix (v_sent sim_view (pr_kern w) (tc_sockfd c) @ readable (tc_outputBuffer c))
       (v_sent sim_view (pr_kern (turn_swap 0 w)) (tc_sockfd c) @ readable (tc_outputBuffer c'))"
proof -
  obtain w c where w: "server_run sim_sys (\<lambda>_. 0) no_server_callbacks (\<lambda>_. 9) (\<lambda>_. Inr) (ready_process, \<lambda>_. Waiting)
      (w, ready_phases(0 := Dispatching []))" "pr_conns w 9 = Some c"
    using accepted_run by blast
  have st: "server_step sim_sys (\<lambda>_. 0) no_server_callbacks (\<lambda>_. 9) (\<lambda>_. Inr) (w, ready_phases(0 := Dispatching []))
      (turn_swap 0 w, (ready_phases(0 := Dispatching []))(0 := Draining (pending w 0)))"
    using accepted_loops [OF w(1)] by (rule step_swap) simp
  have "pr_conns (turn_swap 0 w) 9 = Some c" using w(2) by (simp add: turn_swap_def swap_begin_def)
  with st have "survives sim_sys (\<lambda>_. 0) no_server_callbacks (\<lambda>_. 9) (\<lambda>_. Inr) 9 (w, ready_phases(0 := Dispatching []))
      (turn_swap 0 w, (ready_phases(0 := Dispatching []))(0 := Draining (pending w 0)))"
    unfolding survives_def by (intro r_into_rtranclp) simp
  from streams_only_grow [OF sim_server_doc no_callbacks_user ready_fresh w this] w(2) show ?thesis by blast
qed

end
