(* ===== verification/ServerEcho.thy ===== *)
theory ServerEcho
  imports EchoServer ServerIsolation
begin

text \<open>
  The echo server as a whole, clients, threads and table together. Whatever its threads do, what a
  connection has been given to send is what was received on this connection, in order. The history of
  what was received is an observation \<open>R\<close> of the kernel's state.
\<close>

section \<open>What was received\<close>

text \<open>\<open>R k f\<close> are the bytes readv(2) has delivered from the descriptor \<open>f\<close>; read(2) may count for its own
  descriptor, close(2) may forget, and a new descriptor has neither received nor sent anything.\<close>

definition input_doc :: "'k sys \<Rightarrow> 'k view \<Rightarrow> ('k \<Rightarrow> fd \<Rightarrow> byte list) \<Rightarrow> bool" where
  "input_doc S V R \<longleftrightarrow>
     (\<forall>f lens k r k'. sys_readv S f lens k = (r, k') \<longrightarrow>
        R k' = (case r of Done d \<Rightarrow> (R k)(f := R k f @ d) | Fail _ \<Rightarrow> R k)) \<and>
     (\<forall>f d k. R (snd (sys_write S f d k)) = R k) \<and> (\<forall>f k. R (snd (sys_shutdown_wr S f k)) = R k) \<and>
     (\<forall>f k. R (snd (sys_so_error S f k)) = R k) \<and> (\<forall>ep x f ev k. R (snd (sys_epoll_ctl S ep x f ev k)) = R k) \<and>
     (\<forall>ep n t k. R (snd (sys_epoll_wait S ep n t k)) = R k) \<and> (\<forall>k. R (snd (sys_time S k)) = R k) \<and>
     (\<forall>f k. R (snd (sys_getsockname S f k)) = R k) \<and> (\<forall>f l n v k. R (snd (sys_setsockopt S f l n v k)) = R k) \<and>
     (\<forall>f g n k. g \<noteq> f \<longrightarrow> R (snd (sys_read S f n k)) g = R k g) \<and>
     (\<forall>f g k. g \<noteq> f \<longrightarrow> R (snd (sys_close S f k)) g = R k g) \<and>
     (\<forall>f k r k'. sys_accept4 S f k = (r, k') \<longrightarrow> (case r of
        Done (g, a) \<Rightarrow> v_sent V k' g = [] \<and> R k' = (R k)(g := []) | Fail _ \<Rightarrow> R k' = R k))"

lemma input_docD:
  assumes "input_doc S V R"
  shows "R (snd (sys_write S f d k)) = R k" "R (snd (sys_shutdown_wr S f k)) = R k" "R (snd (sys_so_error S f k)) = R k"
    "R (snd (sys_epoll_ctl S ep x f ev k)) = R k" "R (snd (sys_epoll_wait S ep n t k)) = R k" "R (snd (sys_time S k)) = R k"
    "R (snd (sys_getsockname S f k)) = R k" "R (snd (sys_setsockopt S f l m v k)) = R k"
    "g \<noteq> f \<Longrightarrow> R (snd (sys_read S f n k)) g = R k g" "g \<noteq> f \<Longrightarrow> R (snd (sys_close S f k)) g = R k g"
  using assms by (simp_all add: input_doc_def del: split_paired_All)

lemma readv_input: "input_doc S V R \<Longrightarrow> sys_readv S f lens k = (r, k') \<Longrightarrow>
    R k' = (case r of Done d \<Rightarrow> (R k)(f := R k f @ d) | Fail _ \<Rightarrow> R k)"
  unfolding input_doc_def by (elim conjE) blast

lemma accept_input:
  assumes "input_doc S V R" and "sys_accept4 S f k = (r, k')"
  shows "case r of Done (g, a) \<Rightarrow> v_sent V k' g = [] \<and> R k' = (R k)(g := []) | Fail _ \<Rightarrow> R k' = R k"
proof -
  have "\<forall>f k r k'. sys_accept4 S f k = (r, k') \<longrightarrow> (case r of
      Done (g, a) \<Rightarrow> v_sent V k' g = [] \<and> R k' = (R k)(g := []) | Fail _ \<Rightarrow> R k' = R k)"
    using assms(1) by (simp add: input_doc_def)
  from this [rule_format, OF assms(2)] show ?thesis .
qed

lemma write_input: "input_doc S V R \<Longrightarrow> sys_write S f d k = (r, k') \<Longrightarrow> R k' = R k"
  using input_docD(1) [of S V R f d k] by simp

section \<open>Operations that receive nothing\<close>

fun is_file :: "task \<Rightarrow> bool" where
  "is_file (SendFileInLoop i f off n) = True"
| "is_file t = False"

text \<open>Nothing is received, the input buffer holds the same bytes, and no file is queued to be sent.\<close>

definition idle :: "('k \<Rightarrow> fd \<Rightarrow> byte list) \<Rightarrow> ('k, 'z) conn_st_scheme \<Rightarrow> ('k, 'z) conn_st_scheme \<Rightarrow> bool" where
  "idle R s s' \<longleftrightarrow> R (st_kern s') = R (st_kern s) \<and>
     readable (tc_inputBuffer (st_conn s')) = readable (tc_inputBuffer (st_conn s)) \<and>
     (\<forall>t\<in>set (pend s'). is_file t \<longrightarrow> t \<in> set (pend s))"

lemma idle_refl [simp]: "idle R s s"
  by (simp add: idle_def)

lemma idle_trans: "idle R s s1 \<Longrightarrow> idle R s1 s2 \<Longrightarrow> idle R s s2"
  by (auto simp: idle_def)

lemma idle_queue:
  assumes "input_doc S V R" and "\<not> is_file t"
  shows "idle R s (queueInLoop S t u) = idle R s u"
  using assms by (auto simp: idle_def queueInLoop_kern input_docD)

lemma idle_simps [simp]:
  "idle R s (upd_conn (\<lambda>c. c\<lparr>tc_outputBuffer := b\<rparr>) u) = idle R s u"
  "idle R s (upd_conn (\<lambda>c. c\<lparr>tc_outputBuffer := g (tc_outputBuffer c)\<rparr>) u) = idle R s u"
  "idle R s (upd_conn (\<lambda>c. c\<lparr>tc_channel := ch\<rparr>) u) = idle R s u"
  "idle R s (upd_conn (\<lambda>c. c\<lparr>tc_channel := h c\<rparr>) u) = idle R s u"
  "idle R s (setState x u) = idle R s u" "idle R s (u\<lparr>st_mem := m\<rparr>) = idle R s u"
  by (simp_all add: idle_def setState_def pend_def)

lemma idle_kern: "R k = R (st_kern u) \<Longrightarrow> idle R s (u\<lparr>st_kern := k\<rparr>) = idle R s u"
  by (simp add: idle_def pend_def)

text \<open>The poller's calls.\<close>

lemma update_input: "input_doc S V R \<Longrightarrow> poller_update S x p ch po k = Inr k' \<Longrightarrow> R k' = R k"
  using input_docD(4) [of S V R] by (auto simp: poller_update_def split: if_splits prod.splits io.splits) (metis snd_conv)+

lemma updateChannel_idle: "input_doc S V R \<Longrightarrow> updateChannel S p ch s = Inr (ch', s') \<Longrightarrow>
    R (st_kern s') = R (st_kern s) \<and> pend s' = pend s \<and> (\<exists>q. s' = with_poller q s)"
  by (auto simp: updateChannel_eq poller_updateChannel_def Let_def elim!: bindE_InrE split: if_splits dest!: update_input)

lemma removeChannel_idle: "input_doc S V R \<Longrightarrow> removeChannel S p ch s = Inr (ch', s') \<Longrightarrow>
    R (st_kern s') = R (st_kern s) \<and> pend s' = pend s \<and> (\<exists>q. s' = with_poller q s)"
  by (auto simp: removeChannel_eq poller_removeChannel_def Let_def elim!: bindE_InrE split: if_splits dest!: update_input)

lemma on_channel_idle:
  assumes "input_doc S V R" and "on_channel (\<lambda>p ch. updateChannel S p (f ch)) s = Inr s'"
  shows "idle R s s'"
  using assms(2) by (auto simp: on_channel_def idle_def dest!: updateChannel_idle [OF assms(1)] elim!: bindE_InrE)

lemma on_channel_remove_idle:
  assumes "input_doc S V R" and "on_channel (removeChannel S) s = Inr s'"
  shows "idle R s s'"
  using assms(2) by (auto simp: on_channel_def idle_def dest!: removeChannel_idle [OF assms(1)] elim!: bindE_InrE)

text \<open>The connection's own operations, with callbacks that have no marks and no completions.\<close>

lemma shutdownInLoop_idle: "input_doc S V R \<Longrightarrow> shutdownInLoop S s = Inr s' \<Longrightarrow> idle R s s'"
  using input_docD(2) [of S V R] by (auto simp: shutdownInLoop_def shutdownWrite_def idle_kern split: if_splits)

lemma handleError_idle: "input_doc S V R \<Longrightarrow> handleError S s = Inr s' \<Longrightarrow> idle R s s'"
  using input_docD(3) [of S V R] by (auto simp: handleError_def idle_kern)

lemma send_direct_idle:
  assumes D: "input_doc S V R" and d: "send_direct S cbs d s = (n, r, e, s1)"
  shows "idle R s s1"
proof -
  obtain x k where w: "sys_write S (ch_fd (tc_channel (st_conn s))) d (st_kern s) = (x, k)" by fastforce
  have "idle R s (s\<lparr>st_kern := k\<rparr>)" using write_input [OF D w] by (simp add: idle_kern)
  then show ?thesis
    using d by (auto simp: send_direct_def Let_def w idle_queue [OF D] split: if_splits io.splits)
qed

lemma send_buffered_idle:
  assumes D: "input_doc S V R" and r: "send_buffered S cbs d n rem s = Inr s'"
  shows "idle R s s'"
proof -
  let ?mark = "HighWaterMark (tc_id (st_conn s)) (readableBytes (tc_outputBuffer (st_conn s)) + rem)"
  let ?b = "tc_highWaterMark (st_conn s) \<le> readableBytes (tc_outputBuffer (st_conn s)) + rem \<and>
      readableBytes (tc_outputBuffer (st_conn s)) < tc_highWaterMark (st_conn s) \<and> cb_highWaterMark cbs \<noteq> None"
  let ?s = "if ?b then queueInLoop S ?mark s else s"
  obtain b where b: "(let s = upd_conn (\<lambda>c. c\<lparr>tc_outputBuffer := b\<rparr>) ?s in
       if \<not> isWriting (tc_channel (st_conn s)) then on_channel (enableWriting S) s else Inr s) = Inr s'"
    using r by (auto simp: send_buffered_def Let_def)
  have "idle R s (upd_conn (\<lambda>c. c\<lparr>tc_outputBuffer := b\<rparr>) ?s)" using idle_queue [OF D, of ?mark s s] by simp
  moreover have "upd_conn (\<lambda>c. c\<lparr>tc_outputBuffer := b\<rparr>) ?s = s' \<or> on_channel (enableWriting S) (upd_conn (\<lambda>c. c\<lparr>tc_outputBuffer := b\<rparr>) ?s) = Inr s'"
    using b unfolding Let_def by (simp only: split: if_split_asm) simp_all
  ultimately show ?thesis
  proof (elim disjE)
    assume "on_channel (enableWriting S) (upd_conn (\<lambda>c. c\<lparr>tc_outputBuffer := b\<rparr>) ?s) = Inr s'"
    note on_channel_idle [OF D this [unfolded channel_ops_eta]]
    with \<open>idle R s _\<close> show ?thesis by (rule idle_trans)
  qed (simp only:)
qed

lemma sendInLoop_idle:
  assumes D: "input_doc S V R" and r: "sendInLoop S cbs d s = Inr s'"
  shows "idle R s s'"
proof -
  obtain n rem e s1 where d: "send_direct S cbs d s = (n, rem, e, s1)" by (metis prod_cases4)
  have "s' = s \<or> s' = s1 \<or> send_buffered S cbs d n rem s1 = Inr s'"
    using r d by (auto simp: sendInLoop_def split: if_splits)
  then show ?thesis
    using send_direct_idle [OF D d] send_buffered_idle [OF D] idle_trans by (metis idle_refl)
qed

lemma writeFd_input: "input_doc S V R \<Longrightarrow> writeFd S f b k = Inr (r, k') \<Longrightarrow> R k' = R k"
  by (auto simp: writeFd_def elim!: bindE_InrE dest!: write_input)

lemma write_end_idle:
  assumes D: "input_doc S V R" and s1: "idle R s s1"
    and r: "(let s = (if b then queueInLoop S (WriteComplete i) s1 else s1)
       in if tc_state (st_conn s) = kDisconnecting then shutdownInLoop S s else Inr s) = Inr s'"
  shows "idle R s s'"
proof -
  let ?t = "if b then queueInLoop S (WriteComplete i) s1 else s1"
  have t: "idle R s ?t" using s1 by (simp add: idle_queue [OF D])
  show ?thesis
  proof (cases "tc_state (st_conn ?t) = kDisconnecting")
    case True
    then have "shutdownInLoop S ?t = Inr s'" using r unfolding Let_def by (rule if_P [THEN subst])
    from idle_trans [OF t shutdownInLoop_idle [OF D this]] show ?thesis .
  next
    case False
    then have "s' = ?t" using r unfolding Let_def if_not_P [OF False] by simp
    then show ?thesis using t by simp
  qed
qed

lemma handleWrite_idle:
  assumes D: "input_doc S V R" and r: "handleWrite S cbs s = Inr s'"
  shows "idle R s s'"
proof (cases "isWriting (tc_channel (st_conn s))")
  case on: True
  obtain x k where w: "writeFd S (ch_fd (tc_channel (st_conn s))) (tc_outputBuffer (st_conn s)) (st_kern s) = Inr (x, k)"
    using r on by (auto simp: handleWrite_def)
  have k: "idle R s (s\<lparr>st_kern := k\<rparr>)" using writeFd_input [OF D w] by (simp add: idle_kern)
  show ?thesis
  proof (cases x)
    case (Done n)
    let ?u = "upd_conn (\<lambda>c. c\<lparr>tc_outputBuffer := retrieve (of_nat n) (tc_outputBuffer c)\<rparr>) (s\<lparr>st_kern := k\<rparr>)"
    have u: "idle R s ?u" using k by simp
    show ?thesis
    proof (cases "0 < n \<and> readableBytes (tc_outputBuffer (st_conn ?u)) = 0")
      case n: True
      then obtain s1 where s1: "on_channel (disableWriting S) ?u = Inr s1"
          "(let s = (if cb_writeComplete cbs \<noteq> None then queueInLoop S (WriteComplete (tc_id (st_conn s1))) s1 else s1)
            in if tc_state (st_conn s) = kDisconnecting then shutdownInLoop S s else Inr s) = Inr s'"
        using r on w Done by (auto simp: handleWrite_def Let_def)
      show ?thesis
        by (rule write_end_idle [OF D idle_trans [OF u on_channel_idle [OF D s1(1) [unfolded channel_ops_eta]]] s1(2)])
    next
      case False
      show ?thesis
      proof (cases "0 < n")
        case pos: True
        then have "readableBytes (retrieve (of_nat n) (tc_outputBuffer (st_conn s))) \<noteq> 0" using False by simp
        then have "?u = s'" using r on w Done pos by (simp add: handleWrite_def Let_def)
        then show ?thesis using u by blast
      qed (use r on w Done k in \<open>simp add: handleWrite_def\<close>)
    qed
  qed (use r on w k in \<open>simp add: handleWrite_def\<close>)
qed (use r in \<open>simp add: handleWrite_def\<close>)

text \<open>The poller's calls add nothing to a stream.\<close>

lemma update_sent:
  assumes "epoll_ctl_doc S V" and "poller_update S x p ch po k = Inr k'"
  shows "v_sent V k' = v_sent V k"
proof -
  obtain r k1 where w: "sys_epoll_ctl S (ep_epollfd po) x (ch_fd ch) (ch_events ch, p) k = (r, k1)" by fastforce
  from assms(1) [unfolded epoll_ctl_doc_def, rule_format, OF w] assms(2) w show ?thesis
    by (auto simp: poller_update_def split: io.splits if_splits)
qed

lemma on_channel_stream:
  assumes E: "epoll_ctl_doc S V"
  shows "on_channel (\<lambda>p ch. updateChannel S p (f ch)) s = Inr s' \<Longrightarrow> out_stream V s' = out_stream V s"
    and "on_channel (removeChannel S) s = Inr s' \<Longrightarrow> out_stream V s' = out_stream V s"
  by (auto simp: on_channel_def updateChannel_eq removeChannel_eq poller_updateChannel_def poller_removeChannel_def Let_def
      out_stream_def elim!: bindE_InrE split: if_splits dest!: update_sent [OF E])

section \<open>The history of a connection\<close>

text \<open>What is sent and what waits, in order, has been received in this order, and nothing twice; what
  came in has been taken out of the input buffer. While the peer has not reset the connection nothing is
  left out before the connection goes down.\<close>

definition echoed :: "'k sys \<Rightarrow> 'k view \<Rightarrow> ('k \<Rightarrow> fd \<Rightarrow> byte list) \<Rightarrow> tcpconnection \<Rightarrow> 'k \<Rightarrow> bool" where
  "echoed S V R c k \<longleftrightarrow> readable (tc_inputBuffer c) = [] \<and>
     subseq (v_sent V k (tc_sockfd c) @ readable (tc_outputBuffer c)) (R k (tc_sockfd c)) \<and>
     (peer_there S V (tc_sockfd c) \<longrightarrow>
        prefix (v_sent V k (tc_sockfd c) @ readable (tc_outputBuffer c)) (R k (tc_sockfd c)) \<and>
        (state_rank (tc_state c) \<le> 1 \<longrightarrow> v_sent V k (tc_sockfd c) @ readable (tc_outputBuffer c) = R k (tc_sockfd c)))"

text \<open>A step of the object \<open>c\<close> keeps its history, receives nothing for others and queues no file. (The
  base loop may be woken up.)\<close>

definition echo_step :: "'k sys \<Rightarrow> 'k view \<Rightarrow> ('k \<Rightarrow> fd \<Rightarrow> byte list) \<Rightarrow> tcpconnection \<Rightarrow> 'k process \<Rightarrow>
    tcpconnection \<Rightarrow> 'k process \<Rightarrow> bool" where
  "echo_step S V R c w c' w' \<longleftrightarrow> tc_sockfd c' = tc_sockfd c \<and>
     el_wakeupFd (pr_loops w' (ts_loop (pr_server w'))) = el_wakeupFd (pr_loops w (ts_loop (pr_server w))) \<and>
     (tc_sockfd c \<noteq> el_wakeupFd (pr_loops w (ts_loop (pr_server w))) \<longrightarrow> echoed S V R c (pr_kern w) \<longrightarrow> echoed S V R c' (pr_kern w')) \<and>
     (\<forall>g. g \<noteq> tc_sockfd c \<longrightarrow> R (pr_kern w') g = R (pr_kern w) g) \<and>
     (\<forall>l. \<forall>t\<in>set (pending w' l). is_file t \<longrightarrow> t \<in> set (pending w l))"

lemma echo_step_refl [simp]: "echo_step S V R c w c w"
  by (simp add: echo_step_def)

lemma echo_step_trans: "echo_step S V R c w c1 w1 \<Longrightarrow> echo_step S V R c1 w1 c2 w2 \<Longrightarrow> echo_step S V R c w c2 w2"
  by (auto simp: echo_step_def)

text \<open>An operation of the connection that leaves the stream as it is.\<close>

lemma local_frame:
  assumes l: "local_change V s s'" and files: "\<forall>t\<in>set (pend s'). is_file t \<longrightarrow> t \<in> set (pend s)"
  shows "tc_sockfd (st_conn s') = tc_sockfd (st_conn s)" "state_rank (tc_state (st_conn s)) \<le> state_rank (tc_state (st_conn s'))"
    "el_wakeupFd (pr_loops (conn_put s') (ts_loop (pr_server (conn_put s')))) = el_wakeupFd (pr_loops (conn_put s) (ts_loop (pr_server (conn_put s))))"
    "\<forall>l. \<forall>t\<in>set (pending (conn_put s') l). is_file t \<longrightarrow> t \<in> set (pending (conn_put s) l)"
  using assms by (simp_all add: local_change_def same_ident_def pending_def pend_def)

lemma local_echo:
  assumes l: "local_change V s s'" and i: "idle R s s'" and o: "out_stream V s' = out_stream V s"
  shows "echo_step S V R (st_conn s) (conn_put s) (st_conn s') (conn_put s')"
proof -
  have "\<forall>t\<in>set (pend s'). is_file t \<longrightarrow> t \<in> set (pend s)" using i by (simp add: idle_def)
  note f = local_frame [OF l this]
  then show ?thesis using i o unfolding echo_step_def echoed_def idle_def out_stream_def by auto
qed

lemma steady_echo:
  assumes "steady V s s'" and "idle R s s'" and "out_stream V s' = out_stream V s"
  shows "echo_step S V R (st_conn s) (conn_put s) (st_conn s') (conn_put s')"
  using local_echo assms by (auto simp: steady_def)

section \<open>The callbacks in the process\<close>

text \<open>A callback of the user that works on its connection.\<close>

lemma from_on_conn:
  assumes s: "seated s" and r: "from_conn (\<lambda>i. on_conn i f) s = Inr s'"
    and id: "\<And>u'. f (conn_view (st_conn s) (conn_put s)) = Inr u' \<Longrightarrow> tc_id (st_conn u') = tc_id (st_conn s)"
  shows "\<exists>u'. f (conn_view (st_conn s) (conn_put s)) = Inr u' \<and> st_conn s' = st_conn u' \<and> conn_put s' = conn_put u'"
proof -
  obtain u' where u': "f (conn_view (st_conn s) (conn_put s)) = Inr u'"
      "(case pr_conns (conn_put u') (tc_id (st_conn s)) of None \<Rightarrow> Inl UseAfterFree | Some c \<Rightarrow> Inr (conn_view c (conn_put u'))) = Inr s'"
    using r by (auto simp: from_conn_def on_conn_def Let_def elim!: bindE_InrE)
  then have "s' = conn_view (st_conn u') (conn_put u')" using id by simp
  then show ?thesis using u'(1) by (simp add: conn_put_view)
qed

lemma view_put_seated: "seated s \<Longrightarrow> seated (conn_view (st_conn s) (conn_put s))"
  by (rule seated_view) (rule seated_thread)

text \<open>Waking up a loop is no part of a stream.\<close>

lemma queued_echo:
  assumes S: "write_doc S V" and D: "input_doc S V R" and "\<not> is_file t" and own: "tc_sockfd c \<noteq> el_wakeupFd (pr_loops w (tc_loop c))"
    and l: "l = tc_loop c \<or> l = ts_loop (pr_server w)"
  shows "echo_step S V R c w c (queued S l t w)"
  using assms write_other(1) [OF S] input_docD(1) [OF D]
  by (auto simp: echo_step_def queued_kern pending_def echoed_def)

lemma removal_echo:
  assumes S: "write_doc S V" and D: "input_doc S V R" and c: "pr_conns w i = Some c" "tc_id c = i"
    and own: "tc_sockfd c \<noteq> el_wakeupFd (pr_loops w (tc_loop c))"
  shows "\<exists>w'. removeConnectionInLoop S i w = Inr w' \<and> pr_conns w' = pr_conns w \<and> echo_step S V R c w c w'"
proof -
  let ?e = "erased (tc_name c) w"
  have e: "removeConnectionInLoop S i w = Inr (queued S (tc_loop c) (ConnectDestroyed i) ?e)"
    using c by (simp add: removeConnectionInLoop_def on_loop_queue erased_def)
  have f: "pr_kern ?e = pr_kern w" "pr_loops ?e = pr_loops w" "ts_loop (pr_server ?e) = ts_loop (pr_server w)" "pr_conns ?e = pr_conns w"
    by (simp_all add: erased_def upd_server_def)
  have "echo_step S V R c w c ?e" using f by (simp add: echo_step_def pending_def)
  moreover have "echo_step S V R c ?e c (queued S (tc_loop c) (ConnectDestroyed i) ?e)"
    by (rule queued_echo [OF S D]) (use own f in simp_all)
  ultimately show ?thesis using e f(4) by (auto intro: echo_step_trans)
qed

lemma removeConnection_echo:
  assumes S: "write_doc S V" and D: "input_doc S V R" and c: "pr_conns w i = Some c" "tc_id c = i"
    and own: "tc_sockfd c \<noteq> el_wakeupFd (pr_loops w (tc_loop c))"
  shows "\<exists>w'. removeConnection S i w = Inr w' \<and> pr_conns w' = pr_conns w \<and> echo_step S V R c w c w'"
  using removal_echo [OF assms] queued_echo [OF S D _ own, of "RemoveConnectionInLoop i" "ts_loop (pr_server w)"]
  by (simp add: removeConnection_def on_loop_run)

abbreviation echo_conn_callbacks :: "'k sys \<Rightarrow> str_ptr \<Rightarrow> ('k, 'k process) conn_st_scheme callbacks" where
  "echo_conn_callbacks S p \<equiv> server_conn_callbacks S (echo_server_callbacks S p)"

lemma echo_conn_callbacks_simps:
  "cb_connection (echo_conn_callbacks S p) = Some (from_conn (\<lambda>i. on_conn i onConnection))"
  "cb_writeComplete (echo_conn_callbacks S p) = None" "cb_highWaterMark (echo_conn_callbacks S p) = None"
  "cb_close (echo_conn_callbacks S p) = Some (from_conn (removeConnection S))"
  "\<exists>rest. cb_message (echo_conn_callbacks S p) = Some (\<lambda>t. from_conn (\<lambda>i. on_conn i (onMessage S rest (\<lambda>_. Inr) p)))"
  by (simp_all add: server_conn_callbacks_def echo_server_callbacks_def Let_def) blast

lemma connection_callback_echo:
  assumes s: "seated s" and r: "call (cb_connection (echo_conn_callbacks S p)) s = Inr s'"
  shows "st_conn s' = st_conn s \<and> conn_put s' = conn_put s"
  using from_on_conn [OF s, of onConnection s'] r by (simp add: echo_conn_callbacks_simps onConnection_eq conn_put_view)

text \<open>\<open>onMessage\<close> on the connection that has just received \<open>d\<close>.\<close>

lemma onMessage_echo:
  assumes S: "kernel_doc S V" and D: "input_doc S V R" and ok: "conn_ok V s" and s: "seated s"
    and up: "tc_state (st_conn s) \<noteq> kConnecting" and r: "onMessage S rest (\<lambda>_. Inr) p s = Inr s'"
  shows "local_change V s s' \<and> readable (tc_inputBuffer (st_conn s')) = [] \<and> R (st_kern s') = R (st_kern s) \<and>
    (\<forall>t\<in>set (pend s'). is_file t \<longrightarrow> t \<in> set (pend s)) \<and>
    (tc_state (st_conn s) = kConnected \<and> out_stream V s' = out_stream V s @ readable (tc_inputBuffer (st_conn s)) \<or>
     out_stream V s' = out_stream V s \<and>
       (peer_there S V (tc_sockfd (st_conn s)) \<longrightarrow> tc_state (st_conn s) \<noteq> kConnected))"
proof -
  have loop: "isInLoopThread s" using s by (simp add: seated_def)
  have l: "local_change V s s'" using onMessage_steady [OF S ok loop r] by (simp add: steady_def)
  let ?d = "readable (tc_inputBuffer (st_conn s))"
  let ?t = "(taken s)\<lparr>st_mem := (st_mem s)(p \<mapsto> ?d)\<rparr>"
  obtain s1 where s1: "send S rest (\<lambda>_. Inr) p ?t = Inr s1" "s' = s1\<lparr>st_mem := (st_mem s1)(p := None)\<rparr>"
    using r unfolding onMessage_eq [OF ok] by auto
  have t: "conn_ok V ?t" "out_stream V ?t = out_stream V s" "readable (tc_inputBuffer (st_conn ?t)) = []" "memory_block ?d"
      "R (st_kern ?t) = R (st_kern s)" "pend ?t = pend s" "tc_state (st_conn ?t) = tc_state (st_conn s)"
      "isInLoopThread ?t" "tc_sockfd (st_conn ?t) = tc_sockfd (st_conn s)"
    using taken_ok [OF ok] loop by (simp_all add: taken_def pend_def)
  have e: "idle R s1 s'" "out_stream V s' = out_stream V s1" "pend s' = pend s1" by (simp_all add: s1(2) pend_def)
  show ?thesis
  proof (cases "tc_state (st_conn s) = kConnected")
    case True
    then have m: "sendInLoop S rest ?d ?t = Inr s1" using s1(1) t(7,8) by (simp add: send_def)
    note i = sendInLoop_idle [OF D m]
    have "tc_state (st_conn ?t) \<noteq> kConnecting" using True t(7) by simp
    from holdsED [OF sendInLoop_ok [OF S t(1,4) this, of rest] m]
    have o: "out_stream V s1 = out_stream V s @ (if send_rejected S ?d ?t then [] else ?d)" using t(2) by simp
    have "\<not> send_rejected S ?d ?t" if "peer_there S V (tc_sockfd (st_conn s))"
    proof -
      have "\<not> fin_sent V ?t" using t(1,7) True by (auto simp: conn_ok_def)
      then show ?thesis using that True t(7,9) by (simp add: send_rejected_def peer_there_def write_result_def fin_sent_def)
    qed
    then show ?thesis using l i e t(3,5,6) o True by (auto simp: idle_def)
  next
    case False
    then have "s1 = ?t" using s1(1) t(7) by (simp add: send_def)
    then show ?thesis using l e t False by (auto simp: idle_def)
  qed
qed

lemma handleClose_echo:
  assumes S: "kernel_doc S V" and D: "input_doc S V R" and ok: "conn_ok V s" and s: "seated s"
    and r: "handleClose S (echo_conn_callbacks S p) s = Inr s'"
  shows "echo_step S V R (st_conn s) (conn_put s) (st_conn s') (conn_put s')"
proof -
  note docs = kernel_docD [OF S]
  let ?d = "setState kDisconnected s"
  obtain s1 s2 where s1: "on_channel (disableAll S) ?d = Inr s1" "call (cb_connection (echo_conn_callbacks S p)) s1 = Inr s2"
      "from_conn (removeConnection S) s2 = Inr s'"
    using r by (auto simp: handleClose_def echo_conn_callbacks_simps elim!: bindE_InrE)
  have d: "local_change V s ?d" by (cases "tc_state (st_conn s)", simp_all add: local_change_def same_ident_def setState_def)
  have "linked V ?d" using conn_ok_linked [OF ok] by simp
  from local_trans [OF d on_channel_local(1) [OF docs(5) this s1(1) [unfolded channel_ops_eta]]]
  have l: "local_change V s s1" .
  have i: "idle R s s1" using idle_trans [OF _ on_channel_idle [OF D s1(1) [unfolded channel_ops_eta]]] by simp
  have ok1: "conn_ok V s1" "out_stream V s1 = out_stream V s" using holdsED [OF take_down_ok [OF docs(5) ok] s1(1)] by auto
  have se1: "seated s1" by (rule local_seated [OF l s])
  note s2 = connection_callback_echo [OF se1 s1(2)]
  let ?c = "st_conn s1" and ?w = "conn_put s1"
  have own: "tc_sockfd ?c \<noteq> el_wakeupFd (pr_loops ?w (tc_loop ?c))"
    using conn_ok_wakeup [OF ok1(1)] se1 by (simp add: seated_def)
  obtain w' where w': "removeConnection S (tc_id ?c) ?w = Inr w'" "pr_conns w' = pr_conns ?w" "echo_step S V R ?c ?w ?c w'"
    using removeConnection_echo [OF docs(2) D _ refl own] by auto
  have "s' = conn_view ?c w'" using s1(3) s2 w'(1,2) by (simp add: from_conn_def Let_def)
  moreover have "conn_put (conn_view ?c w') = w'" using w'(2) by (simp add: conn_put_view)
  ultimately show ?thesis using echo_step_trans [OF local_echo [OF l i ok1(2)] w'(3)] by simp
qed

lemma handleRead_echo:
  assumes S: "kernel_doc S V" and D: "input_doc S V R" and ok: "conn_ok V s" and s: "seated s"
    and up: "tc_state (st_conn s) \<noteq> kConnecting" and r: "conn_handleRead S (echo_conn_callbacks S p) t s = Inr s'"
  shows "echo_step S V R (st_conn s) (conn_put s) (st_conn s') (conn_put s')"
proof -
  note docs = kernel_docD [OF S]
  let ?cbs = "echo_conn_callbacks S p" and ?f = "tc_sockfd (st_conn s)"
  have f: "ch_fd (tc_channel (st_conn s)) = ?f" using conn_ok_linked [OF ok] by (simp add: linked_def)
  obtain x k where w: "sys_readv S (ch_fd (tc_channel (st_conn s))) (readFd_iov (tc_inputBuffer (st_conn s))) (st_kern s) = (x, k)" by fastforce
  note d = docs(1) [unfolded readv_doc_def, rule_format, OF w]
  note h = readv_input [OF D w, unfolded f]
  have k: "steady V s (s\<lparr>st_kern := k\<rparr>)" using d by (intro steady_kern) auto
  have kok: "conn_ok V (s\<lparr>st_kern := k\<rparr>)" using keeps_same_view [of V k s] d ok by (simp add: keeps_Inr)
  obtain b where b: "buffer_ok b" "case x of
        Done d \<Rightarrow> readable b = readable (tc_inputBuffer (st_conn s)) @ d \<and> conn_handleRead S ?cbs t s =
          (if d \<noteq> [] then call_read (cb_message ?cbs) t else handleClose S ?cbs)
            (upd_conn (\<lambda>c. c\<lparr>tc_inputBuffer := b\<rparr>) (s\<lparr>st_kern := k\<rparr>))
      | Fail e \<Rightarrow> conn_handleRead S ?cbs t s = handleError S (s\<lparr>st_kern := k\<rparr>)"
    using handleRead_cases [OF S ok w, of ?cbs t] r by auto
  let ?s = "upd_conn (\<lambda>c. c\<lparr>tc_inputBuffer := b\<rparr>) (s\<lparr>st_kern := k\<rparr>)"
  have s1: "steady V s ?s" by (rule steady_trans [OF k steady_buffer(1)])
  have se1: "seated ?s" by (rule steady_seated [OF s1 s])
  have ok1: "conn_ok V ?s" by (rule conn_ok_read [OF S ok b(1) w])
  have o: "out_stream V ?s = out_stream V s" using d by (simp add: out_stream_def)
  show ?thesis
  proof (cases x)
    case (Fail e)
    have i: "idle R s (s\<lparr>st_kern := k\<rparr>)" using h Fail by (simp add: idle_kern)
    have e: "handleError S (s\<lparr>st_kern := k\<rparr>) = Inr s'" using b(2) r Fail by simp
    have "out_stream V s' = out_stream V s"
      using docs(4) d e by (auto simp: handleError_def so_error_doc_def out_stream_def) (metis prod.collapse)
    then show ?thesis
      by (rule steady_echo [OF steady_trans [OF k handleError_steady [OF docs(4) e]] idle_trans [OF i handleError_idle [OF D e]]])
  next
    case (Done d')
    show ?thesis
    proof (cases "d' = []")
      case True
      have i: "idle R s ?s" using h b(2) Done True by (simp add: idle_def pend_def)
      have e: "handleClose S ?cbs ?s = Inr s'" using b(2) r Done True by simp
      show ?thesis
        by (rule echo_step_trans [OF steady_echo [OF s1 i o] handleClose_echo [OF S D ok1 se1 e]])
    next
      case False
      obtain rest where "from_conn (\<lambda>i. on_conn i (onMessage S rest (\<lambda>_. Inr) p)) ?s = Inr s'"
        using b(2) r Done False echo_conn_callbacks_simps(5) [of S p] by auto
      let ?v = "conn_view (st_conn ?s) (conn_put ?s)"
      have v: "conn_ok V ?v" "seated ?v" using view_put_ok [OF se1] ok1 view_put_seated [OF se1] by simp_all
      have vs: "st_conn ?v = st_conn ?s" "st_kern ?v = k" "pend ?v = pend s" "conn_put ?v = conn_put ?s"
        using se1 by (simp_all add: pend_def seated_def conn_put_view)
      have m: "tc_id (st_conn u) = tc_id (st_conn ?s)" if "onMessage S rest (\<lambda>_. Inr) p ?v = Inr u" for u
        using onMessage_steady [OF S v(1) _ that] v(2) by (simp add: seated_def steady_def local_change_def same_ident_def)
      obtain u where u: "onMessage S rest (\<lambda>_. Inr) p ?v = Inr u" "st_conn s' = st_conn u" "conn_put s' = conn_put u"
        using from_on_conn [OF se1 \<open>from_conn _ ?s = Inr s'\<close> m] by auto
      have "tc_state (st_conn ?v) \<noteq> kConnecting" using up by simp
      note e = onMessage_echo [OF S D v this u(1)]
      have l1: "local_change V s ?s" using s1 by (simp add: steady_def)
      note f1 = local_frame [OF l1] and f2 = local_frame [OF e [THEN conjunct1]]
      have fr: "tc_sockfd (st_conn u) = ?f" "state_rank (tc_state (st_conn s)) \<le> state_rank (tc_state (st_conn u))"
          "el_wakeupFd (pr_loops (conn_put u) (ts_loop (pr_server (conn_put u)))) = el_wakeupFd (pr_loops (conn_put s) (ts_loop (pr_server (conn_put s))))"
          "\<forall>l. \<forall>t\<in>set (pending (conn_put u) l). is_file t \<longrightarrow> t \<in> set (pending (conn_put s) l)"
        using f1 f2 e vs by (auto simp: pend_def)
      have rk: "R (st_kern u) = (R (st_kern s))(?f := R (st_kern s) ?f @ d')" using e vs(2) h Done by simp
      have os: "out_stream V ?v = out_stream V s" using o vs(1,2) by (simp add: out_stream_def)
      have bd: "readable b = d'" if "echoed S V R (st_conn s) (st_kern s)"
        using that b(2) Done by (simp add: echoed_def)
      have "echoed S V R (st_conn u) (st_kern u)" if a: "echoed S V R (st_conn s) (st_kern s)"
      proof -
        have x: "tc_state (st_conn s) = kConnected \<and> out_stream V u = out_stream V s @ d' \<or> out_stream V u = out_stream V s \<and>
            (peer_there S V ?f \<longrightarrow> tc_state (st_conn s) \<noteq> kConnected)"
          using e os bd [OF a] vs(1) by simp
        have a': "subseq (out_stream V s) (R (st_kern s) ?f)"
            "peer_there S V ?f \<Longrightarrow> prefix (out_stream V s) (R (st_kern s) ?f)"
            "peer_there S V ?f \<Longrightarrow> state_rank (tc_state (st_conn s)) \<le> 1 \<Longrightarrow> out_stream V s = R (st_kern s) ?f"
          using a by (simp_all add: echoed_def out_stream_def)
        have g: "R (st_kern u) ?f = R (st_kern s) ?f @ d'" using rk by simp
        have 1: "subseq (out_stream V u) (R (st_kern u) ?f)"
          using x a'(1) unfolding g by (auto intro: list_emb_append_mono subseq_rev_drop_many)
        have low: "tc_state (st_conn s) = kConnected" if "state_rank (tc_state (st_conn s)) \<le> 1"
          using that up by (cases "tc_state (st_conn s)") simp_all
        have 2: "prefix (out_stream V u) (R (st_kern u) ?f)" if p: "peer_there S V ?f"
          using x
        proof (elim disjE conjE)
          assume "tc_state (st_conn s) = kConnected" "out_stream V u = out_stream V s @ d'"
          then show ?thesis using a'(3) p g by simp
        qed (use a'(2) p g in \<open>auto intro: prefix_order.trans\<close>)
        have 3: "out_stream V u = R (st_kern u) ?f" if p: "peer_there S V ?f" "state_rank (tc_state (st_conn u)) \<le> 1"
          using x a'(3) low g p fr(2) by auto
        show ?thesis using e 1 2 3 fr(1) by (simp add: echoed_def out_stream_def)
      qed
      then show ?thesis using fr rk u(2,3) by (simp add: echo_step_def)
    qed
  qed
qed

text \<open>A whole event, and the functors of a connection.\<close>

definition echo_handled :: "'k sys \<Rightarrow> 'k view \<Rightarrow> ('k \<Rightarrow> fd \<Rightarrow> byte list) \<Rightarrow>
    ('k, 'k process) conn_st_scheme \<Rightarrow> error + ('k, 'k process) conn_st_scheme \<Rightarrow> bool" where
  "echo_handled S V R s m \<longleftrightarrow> step_of V (\<lambda>c w c' w'. progress V c w c' w' \<and> echo_step S V R c w c' w') s m"

lemma echo_handledI:
  assumes "handled V s m" and "\<And>s'. m = Inr s' \<Longrightarrow> echo_step S V R (st_conn s) (conn_put s) (st_conn s') (conn_put s')"
  shows "echo_handled S V R s m"
  using assms by (cases m) (auto simp: echo_handled_def step_of_def)

lemma echo_bind:
  assumes "echo_handled S V R s m" and up: "tc_state (st_conn s) \<noteq> kConnecting"
    and f: "\<And>s'. conn_ok V s' \<Longrightarrow> seated s' \<Longrightarrow> tc_state (st_conn s') \<noteq> kConnecting \<Longrightarrow> echo_handled S V R s' (f s')"
  shows "echo_handled S V R s (bindE m f)"
  unfolding echo_handled_def step_of_def
proof (rule holdsE_bind [OF assms(1) [unfolded echo_handled_def step_of_def]])
  fix s1 assume a: "conn_ok V s1 \<and> seated s1 \<and> progress V (st_conn s) (conn_put s) (st_conn s1) (conn_put s1) \<and>
      echo_step S V R (st_conn s) (conn_put s) (st_conn s1) (conn_put s1)"
  have "tc_state (st_conn s1) \<noteq> kConnecting"
    using a up up_stays movesD(5) unfolding progress_def by blast
  with a have "echo_handled S V R s1 (f s1)" using f by blast
  then show "holdsE conn_error (\<lambda>s'. conn_ok V s' \<and> seated s' \<and> progress V (st_conn s) (conn_put s) (st_conn s') (conn_put s') \<and>
      echo_step S V R (st_conn s) (conn_put s) (st_conn s') (conn_put s')) (f s1)"
    unfolding echo_handled_def step_of_def
    by (rule holdsE_mono) (use a in \<open>auto intro: progress_trans echo_step_trans\<close>)
qed

lemma echo_refl: "conn_ok V s \<Longrightarrow> seated s \<Longrightarrow> echo_handled S V R s (Inr s)"
  by (simp add: echo_handled_def step_of_def progress_refl)

lemma handleError_echo:
  assumes S: "kernel_doc S V" and D: "input_doc S V R" and r: "handleError S s = Inr s'"
  shows "echo_step S V R (st_conn s) (conn_put s) (st_conn s') (conn_put s')"
proof (rule steady_echo [OF handleError_steady [OF kernel_docD(4) [OF S] r] handleError_idle [OF D r]])
  obtain x k where w: "sys_so_error S (ch_fd (tc_channel (st_conn s))) (st_kern s) = (x, k)" by fastforce
  from kernel_docD(4) [OF S, unfolded so_error_doc_def, rule_format, OF w] r
  show "out_stream V s' = out_stream V s" by (auto simp: handleError_def w out_stream_def)
qed

lemma handleWrite_echo:
  assumes S: "kernel_doc S V" and D: "input_doc S V R" and ok: "conn_ok V s" and r: "handleWrite S cbs s = Inr s'"
  shows "echo_step S V R (st_conn s) (conn_put s) (st_conn s') (conn_put s')"
  by (rule steady_echo [OF handleWrite_steady [OF S ok r] handleWrite_idle [OF D r]])
    (use holdsED [OF handleWrite_ok [OF S ok] r] in simp)

lemma handleEvent_echo:
  assumes S: "kernel_doc S V" and D: "input_doc S V R" and ok: "conn_ok V s" and s: "seated s"
    and up: "tc_state (st_conn s) \<noteq> kConnecting"
  shows "echo_handled S V R s (conn_handleEvent S (echo_conn_callbacks S p) alive t s)"
proof -
  note docs = kernel_docD [OF S] and u = echo_user [OF S, of p]
  have 1: "echo_handled S V R s (handleClose S (echo_conn_callbacks S p) s)" if "conn_ok V s" "seated s" for s
    by (rule echo_handledI [OF handleClose_handled [OF S u that] handleClose_echo [OF S D that]])
  have 2: "echo_handled S V R s (handleError S s)" if "conn_ok V s" "seated s" for s
    by (rule echo_handledI [OF handled_keeps [OF handleError_ok [OF S that(1)] handleError_steady [OF docs(4)] that(2)] handleError_echo [OF S D]])
  have 3: "echo_handled S V R s (conn_handleRead S (echo_conn_callbacks S p) t s)"
    if "conn_ok V s" "seated s" "tc_state (st_conn s) \<noteq> kConnecting" for s
    by (rule echo_handledI [OF handleRead_handled [OF S u that(1,2)] handleRead_echo [OF S D that]])
  have 4: "echo_handled S V R s (handleWrite S (echo_conn_callbacks S p) s)" if "conn_ok V s" "seated s" for s
    by (rule echo_handledI [OF handleWrite_handled [OF S that] handleWrite_echo [OF S D that(1)]])
  have "echo_handled S V R s (handleEventWithGuard (\<lambda>s. tc_channel (st_conn s)) (conn_callbacks S (echo_conn_callbacks S p)) t s)"
    unfolding handleEventWithGuard_def conn_callbacks_def
    using ok s up by (intro echo_bind) (auto intro: echo_refl 1 2 3 4)
  then show ?thesis
    using ok s by (auto simp: conn_handleEvent_def handleEvent_def echo_refl split: option.splits)
qed

lemma connectEstablished_echo:
  assumes S: "kernel_doc S V" and D: "input_doc S V R" and ok: "conn_ok V s" and s: "seated s"
    and new: "tc_state (st_conn s) = kConnecting" and r: "connectEstablished S (echo_conn_callbacks S p) s = Inr s'"
  shows "echo_step S V R (st_conn s) (conn_put s) (st_conn s') (conn_put s')"
proof -
  obtain s1 where s1: "connectEstablished S no_callbacks s = Inr s1" "call (cb_connection (echo_conn_callbacks S p)) s1 = Inr s'"
    using r unfolding connectEstablished_split [of S "echo_conn_callbacks S p"] by (elim bindE_InrE)
  note st = connectEstablished_steady(1) [OF S ok new s1(1)]
  let ?u = "upd_conn (\<lambda>c. c\<lparr>tc_channel := Channel_tie (tc_id c) (tc_channel c)\<rparr>) (setState kConnected s)"
  have u: "on_channel (enableReading S) ?u = Inr s1" using s1(1) by (auto simp: connectEstablished_def no_callbacks_def Let_def)
  have i: "idle R s s1" by (rule idle_trans [OF _ on_channel_idle [OF D u [unfolded channel_ops_eta]]]) simp
  have "out_stream V s1 = out_stream V s"
    using on_channel_stream(1) [OF kernel_docD(5) [OF S] u [unfolded channel_ops_eta]] by (simp add: out_stream_def setState_def)
  from steady_echo [OF st i this] connection_callback_echo [OF steady_seated [OF st s] s1(2)] show ?thesis by simp
qed

lemma connectDestroyed_echo:
  assumes S: "kernel_doc S V" and D: "input_doc S V R" and ok: "conn_ok V s"
    and down: "tc_state (st_conn s) = kDisconnected" and r: "connectDestroyed S cbs s = Inr s'"
  shows "echo_step S V R (st_conn s) (conn_put s) (st_conn s') (conn_put s')"
proof -
  have e: "on_channel (removeChannel S) s = Inr s'" using r down by (simp add: connectDestroyed_def)
  obtain s1 where "on_channel (removeChannel S) s = Inr s1" "local_change V s s1"
    using on_channel_remove_local [OF kernel_docD(5) [OF S] conn_ok_linked [OF ok]] by blast
  then show ?thesis
    using local_echo [OF _ on_channel_remove_idle [OF D e] on_channel_stream(2) [OF kernel_docD(5) [OF S] e]] e by simp
qed

section \<open>The process\<close>

text \<open>All connections, and the functors that wait.\<close>

definition echo_ok :: "'k sys \<Rightarrow> 'k view \<Rightarrow> ('k \<Rightarrow> fd \<Rightarrow> byte list) \<Rightarrow> 'k process \<Rightarrow> (loop_id \<Rightarrow> task list) \<Rightarrow> bool" where
  "echo_ok S V R w q \<longleftrightarrow> (\<forall>i c. pr_conns w i = Some c \<longrightarrow> echoed S V R c (pr_kern w)) \<and>
     (\<forall>l\<in>server_loops (pr_server w). \<forall>t\<in>set (q l). \<not> is_file t)"

lemma echoed_plain:
  assumes "plain c' = plain c" and "v_sent V k' (tc_sockfd c) = v_sent V k (tc_sockfd c)" and "R k' (tc_sockfd c) = R k (tc_sockfd c)"
  shows "echoed S V R c' k' = echoed S V R c k"
proof -
  have "tc_outputBuffer c' = tc_outputBuffer c" "tc_inputBuffer c' = tc_inputBuffer c"
    using arg_cong [OF assms(1), of tc_outputBuffer] arg_cong [OF assms(1), of tc_inputBuffer] by (simp_all add: plain_def)
  then show ?thesis using assms(2,3) plain_eqD [OF assms(1)] by (simp add: echoed_def)
qed

text \<open>A step that leaves all connections alone but \<open>i\<close>.\<close>

lemma others_echo:
  assumes a: "leaves_alone V X w w'" "j \<notin> X" "pr_conns w j = Some e" and r: "R (pr_kern w') (tc_sockfd e) = R (pr_kern w) (tc_sockfd e)"
    and e': "pr_conns w' j = Some e'" and "echoed S V R e (pr_kern w)"
  shows "echoed S V R e' (pr_kern w')"
proof -
  have "plain e' = plain e" using leaves_aloneD(1) [OF a] e' by auto
  from echoed_plain [where R = R, OF this leaves_aloneD(3) [OF a] r] assms(6) show ?thesis by simp
qed

lemma quiet_echo:
  assumes e: "echo_ok S V R w q" and a: "leaves_alone V {} w w'" and old: "\<And>j. pr_conns w' j \<noteq> None \<Longrightarrow> pr_conns w j \<noteq> None"
    and r: "\<And>j c. pr_conns w j = Some c \<Longrightarrow> R (pr_kern w') (tc_sockfd c) = R (pr_kern w) (tc_sockfd c)"
    and l: "server_loops (pr_server w') = server_loops (pr_server w)"
    and q: "\<And>l t. l \<in> server_loops (pr_server w) \<Longrightarrow> t \<in> set (q' l) \<Longrightarrow> is_file t \<Longrightarrow> t \<in> set (q l)"
  shows "echo_ok S V R w' q'"
  unfolding echo_ok_def
proof (intro conjI allI impI ballI)
  fix j c' assume c': "pr_conns w' j = Some c'"
  then obtain c where c: "pr_conns w j = Some c" using old by fastforce
  then show "echoed S V R c' (pr_kern w')"
    using others_echo [where R = R and w = w and w' = w', OF a _ c r [OF c] c'] e by (simp add: echo_ok_def)
next
  fix m t assume "m \<in> server_loops (pr_server w')" "t \<in> set (q' m)"
  then show "\<not> is_file t" using q [of m t] e unfolding echo_ok_def l by blast
qed

lemma acted_echo:
  assumes s: "safe V w (outstanding w ph) d" and m: "moves V c w c' w'" and step: "echo_step S V R c w c' w'"
    and e: "echo_ok S V R w (outstanding w ph)"
  shows "echo_ok S V R w' (outstanding w' ph)"
  unfolding echo_ok_def
proof (intro conjI allI impI ballI notI)
  note md = movesD [OF m]
  fix j e' assume e': "pr_conns w' j = Some e'"
  have old: "echoed S V R x (pr_kern w)" if "pr_conns w y = Some x" for x y using e that by (simp add: echo_ok_def)
  show "echoed S V R e' (pr_kern w')"
  proof (cases "j = tc_id c")
    case True
    have "tc_sockfd c \<noteq> el_wakeupFd (pr_loops w (ts_loop (pr_server w)))"
      using soundD(8) [OF safeD(4) [OF s md(2)]] by (simp add: server_loops_def)
    then show ?thesis using step old [OF md(2)] e' True md(3) by (simp add: echo_step_def)
  next
    case False
    then have e0: "pr_conns w j = Some e'" using e' md(3) by simp
    then have "tc_sockfd e' \<noteq> tc_sockfd c"
      using safeD(3) [OF s, unfolded distinct_fds_def, THEN conjunct1, rule_format, OF e0 md(2)] False by blast
    then show ?thesis
      using others_echo [where R = R and w = w and w' = w', OF moves_leaves [OF s m] _ e0 _ e' old [OF e0]] False step by (simp add: echo_step_def)
  qed
next
  fix l t assume l: "l \<in> server_loops (pr_server w')" and t: "t \<in> set (outstanding w' ph l)" "is_file t"
  have "l \<in> server_loops (pr_server w)" using l same_table_loops [OF movesD(6) [OF m]] by simp
  moreover have "t \<in> set (outstanding w ph l)" using t step by (auto simp: outstanding_def echo_step_def)
  ultimately show False using e t(2) by (auto simp: echo_ok_def)
qed

lemma echo_ok_in_thread [simp]: "echo_ok S V R (in_thread l w) q = echo_ok S V R w q"
  by (simp add: echo_ok_def)

lemma echo_ok_fewer: "echo_ok S V R w q \<Longrightarrow> (\<And>l. set (q' l) \<subseteq> set (q l)) \<Longrightarrow> echo_ok S V R w q'"
  unfolding echo_ok_def by blast

text \<open>An operation on the connection \<open>i\<close>.\<close>

lemma on_conn_echo:
  assumes s: "safe V w (outstanding w ph) d" and e: "echo_ok S V R w (outstanding w ph)" and c: "pr_conns w i = Some c"
    and t: "pr_tid w = el_threadId (pr_loops w (tc_loop c))" and r: "on_conn i f w = Inr w'"
    and f: "conn_ok V (conn_view c w) \<Longrightarrow> seated (conn_view c w) \<Longrightarrow>
      step_of V (\<lambda>c w c' w'. moves V c w c' w' \<and> echo_step S V R c w c' w') (conn_view c w) (f (conn_view c w))"
  shows "echo_ok S V R w' (outstanding w' ph)"
proof -
  have id: "tc_id c = i" and ok: "conn_ok V (conn_view c w)" using safeD(4,5) [OF s c] soundD(1) by auto
  have "holdsE conn_error (\<lambda>w'. \<exists>c'. conn_ok V (conn_view c' w') \<and> moves V c w c' w' \<and> echo_step S V R c w c' w') (on_conn i f w)"
    by (rule on_conn_step [where R = "\<lambda>c w c' w'. moves V c w c' w' \<and> echo_step S V R c w c' w'" and f = f, OF c id f [OF ok seated_view [OF t]]])
  then obtain c' where "moves V c w c' w'" "echo_step S V R c w c' w'" using r by auto
  then show ?thesis using acted_echo [OF s _ _ e] by blast
qed

lemma echo_handled_moves: "echo_handled S V R s m \<Longrightarrow> step_of V (\<lambda>c w c' w'. moves V c w c' w' \<and> echo_step S V R c w c' w') s m"
  unfolding echo_handled_def by (erule handled_mono) (simp add: progress_def)

lemma connectEstablished_all:
  assumes S: "kernel_doc S V" and D: "input_doc S V R" and ok: "conn_ok V s" and s: "seated s" and new: "tc_state (st_conn s) = kConnecting"
  shows "echo_handled S V R s (connectEstablished S (echo_conn_callbacks S p) s)"
  by (rule echo_handledI [OF handled_mono [OF connectEstablished_handled [OF S echo_user [OF S] ok s new]]
      connectEstablished_echo [OF S D ok s new]]) simp_all

lemma connectDestroyed_all:
  assumes S: "kernel_doc S V" and D: "input_doc S V R" and ok: "conn_ok V s" and s: "seated s" and down: "tc_state (st_conn s) = kDisconnected"
  shows "step_of V (\<lambda>c w c' w'. moves V c w c' w' \<and> echo_step S V R c w c' w') s (connectDestroyed S cbs s)"
  using connectDestroyed_handled [OF S ok s down, of cbs] connectDestroyed_echo [OF S D ok down]
  by (cases "connectDestroyed S cbs s") (auto simp: step_of_def)

lemma queued_quiet:
  assumes "write_doc S V" and D: "input_doc S V R" and s: "safe V w q d" and l: "l \<in> server_loops (pr_server w)" and t: "\<not> is_file t"
    and e: "echo_ok S V R w (outstanding w ph)"
  shows "echo_ok S V R (queued S l t w) (outstanding (queued S l t w) ph)"
proof (rule quiet_echo [OF e])
  show "leaves_alone V {} w (queued S l t w)" using queued_turned [OF assms(1) s l] by (simp add: turned_def)
  show "R (pr_kern (queued S l t w)) (tc_sockfd c) = R (pr_kern w) (tc_sockfd c)" for c
    using input_docD(1) [OF D] by (simp add: queued_kern)
  fix m u assume "u \<in> set (outstanding (queued S l t w) ph m)" "is_file u"
  then show "u \<in> set (outstanding w ph m)" using t unfolding outstanding_queued by (auto split: if_splits)
qed simp_all

lemma newConnection_echo:
  assumes D: "server_doc S V" and I: "input_doc S V R" and s: "safe V w (outstanding w ph) d"
    and acc: "pr_conns w self = None" "ts_nextConnId (pr_server w) < 2147483647" "\<not> in_use w f"
    and k1: "new_fd V f (pr_kern w) k1" and new: "v_sent V k1 f = []" "R k1 = (R (pr_kern w))(f := [])"
    and e: "echo_ok S V R w (outstanding w ph)"
    and r: "newConnection S (echo_server_callbacks S p) self f peer (w\<lparr>pr_kern := k1\<rparr>) = Inr w'"
  shows "echo_ok S V R w' (outstanding w' ph)"
proof -
  note S = server_docD(1) [OF D]
  obtain q c k where made: "new_object self (conn_name (pr_server w) (ts_nextConnId (pr_server w))) f c"
    and kk: "k = setKeepAlive S f True (snd (local_address S f k1))" "same_view V k1 k"
    and L: "tc_loop c \<in> server_loops (pr_server w)"
    and sw: "safe V (with_connection q c k w) (outstanding (with_connection q c k w) ph) d"
    and tw: "turned V {} w (with_connection q c k w)"
    and code: "newConnection S (echo_server_callbacks S p) self f peer (w\<lparr>pr_kern := k1\<rparr>) =
      (if el_threadId (pr_loops w (tc_loop c)) = pr_tid w
       then on_conn self (connectEstablished S (echo_conn_callbacks S p)) (with_connection q c k w)
       else Inr (queued S (tc_loop c) (ConnectEstablished self) (with_connection q c k w)))"
    using newConnection_made [OF D s acc k1, of "echo_server_callbacks S p" peer] by blast
  let ?w = "with_connection q c k w"
  have c: "tc_id c = self" "tc_state c = kConnecting" "tc_sockfd c = f" "readable (tc_inputBuffer c) = []" "readable (tc_outputBuffer c) = []"
    using made by (simp_all add: new_object_def)
  have la: "snd (local_address S f k1) = snd (sys_getsockname S f k1)"
    by (simp add: local_address_def split: prod.splits io.splits)
  have k: "R k = (R (pr_kern w))(f := [])" "v_sent V k f = []"
    using kk new input_docD(7,8) [OF I] by (simp_all add: la setKeepAlive_def same_view_def)
  have loops: "server_loops (pr_server ?w) = server_loops (pr_server w)" using tw by (simp add: turned_def same_threads_def)
  have out: "outstanding ?w ph = outstanding w ph" by (simp add: outstanding_def pending_def fun_eq_iff)
  have ew: "echo_ok S V R ?w (outstanding ?w ph)"
    unfolding echo_ok_def out loops
  proof (intro conjI allI impI ballI)
    fix j x assume x: "pr_conns ?w j = Some x"
    show "echoed S V R x (pr_kern ?w)"
    proof (cases "j = self")
      case True
      then show ?thesis using x c k by (simp add: echoed_def)
    next
      case False
      then have x0: "pr_conns w j = Some x" using x c(1) by simp
      then have "tc_sockfd x \<noteq> f" using acc(3) by (auto simp: in_use_def)
      then have "R (pr_kern ?w) (tc_sockfd x) = R (pr_kern w) (tc_sockfd x)" using k(1) by simp
      from others_echo [where R = R and w = w and w' = ?w and X = "{}", OF _ _ x0 this x] tw e x0 show ?thesis
        by (simp add: turned_def echo_ok_def)
    qed
  qed (use e in \<open>simp add: echo_ok_def\<close>)
  show ?thesis
  proof (cases "el_threadId (pr_loops w (tc_loop c)) = pr_tid w")
    case True
    then have run: "on_conn self (connectEstablished S (echo_conn_callbacks S p)) ?w = Inr w'" using r code by simp
    show ?thesis
      by (rule on_conn_echo [OF sw ew _ _ run echo_handled_moves [OF connectEstablished_all [OF S I]]]) (use c True in simp_all)
  next
    case False
    then have "w' = queued S (tc_loop c) (ConnectEstablished self) ?w" using r code by simp
    then show ?thesis using queued_quiet [OF kernel_docD(2) [OF S] I sw _ _ ew] L loops by simp
  qed
qed

section \<open>The steps of a run\<close>

lemma handle_echo:
  assumes D: "server_doc S V" and I: "input_doc S V R" and s: "safe V w (outstanding w ph) d"
    and l: "l \<in> server_loops (pr_server w)" and p: "dispatchable w l p"
    and a: "\<And>m. p = AcceptChannelOf m \<Longrightarrow> can_accept S alloc (in_thread l w)"
    and e: "echo_ok S V R w (outstanding w ph)"
    and r: "handle_channel S inet_addr (echo_server_callbacks S q) alloc p t (in_thread l w) = Inr w'"
  shows "echo_ok S V R w' (outstanding w' ph)"
proof -
  note docs = server_docD [OF D]
  let ?w = "in_thread l w"
  have st: "safe V ?w (outstanding ?w ph) d" using safe_alike [OF s in_thread_alike] by simp
  have et: "echo_ok S V R ?w (outstanding ?w ph)" using e by simp
  show ?thesis
  proof (cases p)
    case (WakeupChannelOf m)
    obtain k where k: "handle_wakeup S t (loop_view m ?w) = Inr ((loop_view m ?w)\<lparr>st_kern := k\<rparr>)"
        "k = pr_kern w \<or> k = snd (sys_read S (el_wakeupFd (pr_loops w m)) 8 (pr_kern w))"
      using handle_wakeup_eq [of S t "loop_view m ?w"] by auto
    have put: "loop_put ((loop_view m u)\<lparr>st_kern := k\<rparr>) = u\<lparr>pr_kern := k\<rparr>" for u
      by (simp add: loop_put_def loop_view_def)
    have "loop_put ((loop_view m ?w)\<lparr>st_kern := k\<rparr>) = w'" using r k(1) WakeupChannelOf by (simp add: on_loop_def)
    then have w': "w' = ?w\<lparr>pr_kern := k\<rparr>" unfolding put by simp
    have sv: "same_view V (pr_kern ?w) k" using docs(2) k(2) by (auto simp: passive_doc_def)
    have m: "m \<in> server_loops (pr_server w)" using p l WakeupChannelOf by simp
    show ?thesis unfolding w'
    proof (rule quiet_echo [OF et])
      show "leaves_alone V {} ?w (?w\<lparr>pr_kern := k\<rparr>)" using same_view_turned [OF sv] by (simp add: turned_def)
      show "R (pr_kern (?w\<lparr>pr_kern := k\<rparr>)) (tc_sockfd c) = R (pr_kern ?w) (tc_sockfd c)" if "pr_conns ?w j = Some c" for j c
        using k(2) input_docD(9) [OF I] soundD(8) [OF safeD(4) [OF s] m] that by auto
    qed (simp_all add: outstanding_def pending_def)
  next
    case (AcceptChannelOf m)
    let ?r = "acceptor_read S inet_addr (echo_server_callbacks S q) (alloc ?w) ?w"
    have "handle_channel S inet_addr (echo_server_callbacks S q) alloc p t ?w \<in> {Inr ?w, ?r}"
      using AcceptChannelOf
      by (cases ?r) (auto simp: handleEvent_def handleEventWithGuard_def acceptor_callbacks_def split: option.splits)
    then consider "w' = ?w" | "?r = Inr w'" using r by auto
    then show ?thesis
    proof cases
      case 2
      obtain x k where x: "sys_accept4 S (ac_sockfd (ts_acceptor (pr_server ?w))) (pr_kern ?w) = (x, k)" by fastforce
      note d = docs(3) [unfolded accept_doc_def, rule_format, OF x] and n = accept_input [OF I x]
      show ?thesis
      proof (cases x)
        case (Fail z)
        then have w': "w' = ?w\<lparr>pr_kern := k\<rparr>" using 2 x by (simp add: acceptor_read_eq accept_def)
        show ?thesis unfolding w'
        proof (rule quiet_echo [OF et])
          show "leaves_alone V {} ?w (?w\<lparr>pr_kern := k\<rparr>)" using same_view_turned [of V ?w k] d Fail by (simp add: turned_def)
        qed (use n Fail in \<open>simp_all add: outstanding_def pending_def\<close>)
      next
        case (Done y)
        obtain g adr where y: "y = (g, adr)" by (cases y)
        have acc: "pr_conns ?w (alloc ?w) = None" "ts_nextConnId (pr_server ?w) < 2147483647" "\<not> in_use ?w g"
          using a [OF AcceptChannelOf] x Done y by (simp_all add: can_accept_def)
        have "newConnection S (echo_server_callbacks S q) (alloc ?w) g (setSockAddr adr (InetAddress_init inet_addr 0 ''127.0.0.1'')) (?w\<lparr>pr_kern := k\<rparr>) = Inr w'"
          using 2 x Done y by (simp add: acceptor_read_eq accept_def)
        then show ?thesis
          using newConnection_echo [OF D I st acc _ _ _ et] d n Done y by simp
      qed
    qed (use et in simp)
  next
    case (ConnChannelOf i)
    obtain c where c: "pr_conns w i = Some c" "tc_loop c = l" "ch_index (tc_channel c) \<noteq> kNew" using p ConnChannelOf by auto
    have up: "tc_state c \<noteq> kConnecting" using soundD(6) [OF safeD(4) [OF s c(1)]] c(3) by auto
    have run: "on_conn i (conn_handleEvent S (echo_conn_callbacks S q) (\<lambda>j s. True) t) ?w = Inr w'" using r ConnChannelOf by simp
    show ?thesis
      by (rule on_conn_echo [OF st et _ _ run echo_handled_moves [OF handleEvent_echo [OF docs(1) I]]]) (use c up in simp_all)
  qed
qed

lemma run_echo:
  assumes D: "server_doc S V" and I: "input_doc S V R" and s: "safe V w (outstanding w ph) d"
    and l: "l \<in> server_loops (pr_server w)" and ph: "ph l = Draining (t # ts)"
    and e: "echo_ok S V R w (outstanding w ph)"
    and r: "run_functor S (echo_server_callbacks S q) user t (in_thread l w) = Inr w'"
  shows "echo_ok S V R w' (outstanding w' ph)"
proof -
  note S = server_docD(1) [OF D]
  let ?w = "in_thread l w"
  have fit: "fits w l t" by (rule head_fits [OF s l ph])
  have st: "safe V ?w (outstanding ?w ph) d" using safe_alike [OF s in_thread_alike] by simp
  have et: "echo_ok S V R ?w (outstanding ?w ph)" using e by simp
  have nf: "\<not> is_file t" using e l outstanding_pop(2) [where ph = ph and l = l and w = w, OF ph] by (auto simp: echo_ok_def)
  have same: ?thesis if c: "pr_conns w i = Some c" and run: "on_conn i (\<lambda>s. Inr s) ?w = Inr w'" for i c
  proof -
    have "w' = ?w" using run c safeD(5) [OF s c] by (auto simp: on_conn_def)
    then show ?thesis using et by simp
  qed
  show ?thesis
  proof (cases t)
    case (ConnectEstablished i)
    then obtain c where c: "pr_conns w i = Some c" "tc_loop c = l" "tc_state c = kConnecting" using fit by auto
    have run: "on_conn i (connectEstablished S (echo_conn_callbacks S q)) ?w = Inr w'" using r ConnectEstablished by (simp add: run_task_eta)
    show ?thesis
      by (rule on_conn_echo [OF st et _ _ run echo_handled_moves [OF connectEstablished_all [OF S I]]]) (use c in simp_all)
  next
    case (ConnectDestroyed i)
    then obtain c where c: "pr_conns w i = Some c" "tc_loop c = l" "tc_state c = kDisconnected" using fit by auto
    have run: "on_conn i (connectDestroyed S (echo_conn_callbacks S q)) ?w = Inr w'" using r ConnectDestroyed by (simp add: run_task_eta)
    show ?thesis
      by (rule on_conn_echo [OF st et _ _ run connectDestroyed_all [OF S I]]) (use c in simp_all)
  next
    case (RemoveConnectionInLoop i)
    then obtain c where c: "pr_conns w i = Some c" "tc_state c = kDisconnected" using fit by auto
    have id: "tc_id c = i" using safeD(5) [OF s c(1)] .
    have "conn_ok V (conn_view c ?w)" by (rule soundD(1) [OF safeD(4) [OF st]]) (use c in simp)
    from conn_ok_wakeup [OF this] have own: "tc_sockfd c \<noteq> el_wakeupFd (pr_loops ?w (tc_loop c))" by simp
    have "moves V c ?w c w'"
      using removal_moves [OF kernel_docD(2) [OF S], of ?w c] c id own r RemoveConnectionInLoop by auto
    moreover have "echo_step S V R c ?w c w'"
      using removal_echo [OF kernel_docD(2) [OF S] I _ id own] c r RemoveConnectionInLoop by auto
    ultimately show ?thesis by (rule acted_echo [OF st _ _ et])
  next
    case (WriteComplete i)
    have "run_task S (echo_conn_callbacks S q) (\<lambda>_. Inr) t = Inr" using WriteComplete by (simp add: fun_eq_iff echo_conn_callbacks_simps)
    then show ?thesis using fit same r WriteComplete by auto
  next
    case (HighWaterMark i n)
    have "run_task S (echo_conn_callbacks S q) (\<lambda>_. Inr) t = Inr" using HighWaterMark by (simp add: fun_eq_iff echo_conn_callbacks_simps)
    then show ?thesis using fit same r HighWaterMark by auto
  qed (use fit nf in auto)
qed

lemma turn_poll_input:
  assumes I: "input_doc S V R"
  shows "R (pr_kern (turn_poll S l w)) = R (pr_kern w)"
proof -
  obtain now evs po k where p: "poll S kPollTimeMs (el_poller (pr_loops w l)) (pr_kern w) = (now, evs, po, k)" by (metis prod_cases4)
  obtain r k1 where w: "sys_epoll_wait S (ep_epollfd (el_poller (pr_loops w l))) (ep_events_size (el_poller (pr_loops w l))) kPollTimeMs (pr_kern w) = (r, k1)"
    by fastforce
  have "R k1 = R (pr_kern w)" using input_docD(5) [OF I] w by (metis snd_conv)
  moreover have "snd (Timestamp_now S k1) = k"
    using p by (auto simp: poll_def w Let_def split: prod.splits io.splits if_splits)
  moreover have "R (snd (Timestamp_now S k1)) = R k1"
    using input_docD(6) [OF I] by (simp add: Timestamp_now_def case_prod_unfold Let_def)
  ultimately show ?thesis by (simp add: turn_poll_kern [OF p])
qed

lemma step_echo:
  assumes D: "server_doc S V" and I: "input_doc S V R"
  shows "server_step S inet_addr (echo_server_callbacks S q) alloc user st st' \<Longrightarrow> safe_schedule V st \<Longrightarrow>
    echo_ok S V R (fst st) (outstanding (fst st) (snd st)) \<Longrightarrow> echo_ok S V R (fst st') (outstanding (fst st') (snd st'))"
proof (induction rule: server_step.induct)
  case (step_poll l w ph)
  let ?w = "turn_poll S l w"
  have "outstanding ?w (ph(l := Dispatching (el_activeChannels (pr_loops ?w l)))) = outstanding w ph"
    using turn_poll_alike(2) [OF server_docD(1,2) [OF D], where w = w and l = l] step_poll.hyps(2) by (simp add: outstanding_def fun_eq_iff)
  moreover have "echo_ok S V R ?w (outstanding w ph)"
    using turn_poll_input [OF I, of l w] alikeD(1,6) [OF turn_poll_alike(1) [OF server_docD(1,2) [OF D], where w = w and l = l]]
    by (intro quiet_echo [OF _ turn_poll_leaves [OF server_docD(1,2) [OF D]]]) (use step_poll.prems in auto, blast)
  ultimately show ?case by (simp only: fst_conv snd_conv)
next
  case (step_handle l w ph p ps w')
  have s: "safe V w (outstanding w ph) (\<lambda>m. dispatching (ph m))" using step_handle.prems by (simp add: safe_schedule_def)
  have p: "dispatchable w l p" by (rule safeD(7) [OF s step_handle.hyps(1)]) (simp add: step_handle.hyps(2))
  have "echo_ok S V R w' (outstanding w' ph)"
    using handle_echo [OF D I s step_handle.hyps(1) p _ _ step_handle.hyps(4)] step_handle.hyps(3) step_handle.prems by simp
  moreover have "outstanding w' (ph(l := Dispatching ps)) = outstanding w' ph"
    using step_handle.hyps(2) by (simp add: outstanding_def fun_eq_iff)
  ultimately show ?case by (simp only: fst_conv snd_conv)
next
  case (step_swap l w ph)
  have "outstanding (turn_swap l w) (ph(l := Draining (pending w l))) = outstanding w ph"
    using turn_swap_alike(2) [where l = l and w = w] step_swap.hyps(2) by (simp add: outstanding_def fun_eq_iff)
  moreover have "echo_ok S V R (turn_swap l w) (outstanding w ph)"
    using alikeD(1,6) [OF turn_swap_alike(1) [where w = w and l = l]]
    by (intro quiet_echo [OF _ turn_swap_leaves]) (use step_swap.prems in \<open>auto simp: turn_swap_def swap_begin_def\<close>)
  ultimately show ?case by (simp only: fst_conv snd_conv)
next
  case (step_run l w ph t ts w')
  have s: "safe V w (outstanding w ph) (\<lambda>m. dispatching (ph m))" using step_run.prems by (simp add: safe_schedule_def)
  have "echo_ok S V R w' (outstanding w' ph)"
    using run_echo [where ph = ph, OF D I s step_run.hyps(1,2) _ step_run.hyps(3)] step_run.prems by simp
  then show ?case
    by (simp only: fst_conv snd_conv) (erule echo_ok_fewer, use step_run.hyps(2) in \<open>auto simp: outstanding_def\<close>)
next
  case (step_done l w ph)
  have "outstanding (turn_done l w) (ph(l := Waiting)) = outstanding w ph"
    using turn_done_alike(2) [where l = l and w = w] step_done.hyps(2) by (simp add: outstanding_def fun_eq_iff)
  moreover have "echo_ok S V R (turn_done l w) (outstanding w ph)"
    using alikeD(1,6) [OF turn_done_alike(1) [where w = w and l = l]]
    by (intro quiet_echo [OF _ turn_done_leaves]) (use step_done.prems in \<open>auto simp: turn_done_def drain_end_def\<close>)
  ultimately show ?case by (simp only: fst_conv snd_conv)
next
  case (step_free w i ph w')
  have s: "safe V w (outstanding w ph) (\<lambda>m. dispatching (ph m))" using step_free.prems by (simp add: safe_schedule_def)
  obtain c where c: "pr_conns w i = Some c"
      "w' = w\<lparr>pr_kern := Socket_destroy S (tc_sockfd c) (pr_kern w), pr_conns := (pr_conns w)(i := None)\<rparr>"
    using step_free.hyps(3) by (auto simp: TcpConnection_destroy_def split: option.splits)
  have e: "echoed S V R x (pr_kern w')" if x: "pr_conns w' j = Some x" for j x
  proof -
    have x0: "pr_conns w j = Some x" "j \<noteq> i" using x c(2) by (auto split: if_splits)
    have "tc_sockfd x \<noteq> tc_sockfd c"
      using safeD(3) [OF s, unfolded distinct_fds_def, THEN conjunct1, rule_format, OF x0(1) c(1)] x0(2) by blast
    then have "R (pr_kern w') (tc_sockfd x) = R (pr_kern w) (tc_sockfd x)"
      using input_docD(10) [OF I] by (simp add: c(2) Socket_destroy_def)
    from others_echo [where R = R and w = w and w' = w', OF free_leaves [OF server_docD(6) [OF D] s step_free.hyps(3)] _ x0(1) this x]
    show ?thesis using x0 step_free.prems by (simp add: echo_ok_def)
  qed
  have "outstanding w' ph = outstanding w ph" by (simp add: c(2) outstanding_def pending_def fun_eq_iff)
  then show ?case using e step_free.prems by (simp add: echo_ok_def c(2))
qed

lemma run_echo_ok:
  assumes D: "server_doc S V" and I: "input_doc S V R" and w0: "fresh_server V w0"
  shows "server_run S inet_addr (echo_server_callbacks S q) alloc user (w0, \<lambda>_. Waiting) st \<Longrightarrow>
    echo_ok S V R (fst st) (outstanding (fst st) (snd st))"
proof (induction rule: server_run.induct)
  case run_none
  show ?case using w0 by (simp add: echo_ok_def fresh_server_def outstanding_def)
next
  case (run_more st st')
  have "safe_schedule V st"
    using server_run_safe [OF D echo_user [OF server_docD(1) [OF D]] fresh_safe [OF w0] run_more(1)] .
  from step_echo [OF D I run_more(2) this run_more.IH] show ?case .
qed

section \<open>Property\<close>

text \<open>C3: The echo server echoes to the right client. In every run of a started echo server, whatever its
  threads and its clients do, and for every connection that lives: what was sent on it, followed by
  what still waits to be sent, is part of what was received on the same connection, in this order, with nothing
  added, doubled or taken from another client, and nothing waits unread in the process. As long as
  the peer does not reset the connection nothing is skipped, either, and until it goes down every byte
  that was received has been sent or waits to be.\<close>

theorem server_echoes:
  assumes "server_doc S V" and "input_doc S V R" and "fresh_server V w0"
    and "server_run S inet_addr (echo_server_callbacks S p) alloc user (w0, \<lambda>_. Waiting) (w, ph)" and "pr_conns w i = Some c"
  shows "readable (tc_inputBuffer c) = [] \<and>
    subseq (v_sent V (pr_kern w) (tc_sockfd c) @ readable (tc_outputBuffer c)) (R (pr_kern w) (tc_sockfd c)) \<and>
    (peer_there S V (tc_sockfd c) \<longrightarrow>
       prefix (v_sent V (pr_kern w) (tc_sockfd c) @ readable (tc_outputBuffer c)) (R (pr_kern w) (tc_sockfd c)) \<and>
       (tc_state c = kConnected \<longrightarrow>
          v_sent V (pr_kern w) (tc_sockfd c) @ readable (tc_outputBuffer c) = R (pr_kern w) (tc_sockfd c)))"
  using run_echo_ok [OF assms(1-4)] assms(5) by (auto simp: echo_ok_def echoed_def)

lemma sim_input_doc: "input_doc sim_sys sim_view sim_got"
proof -
  have "sim_got k' = (case r of Done d \<Rightarrow> (sim_got k)(f := sim_got k f @ d) | Fail _ \<Rightarrow> sim_got k)"
    if "sys_readv sim_sys f lens k = (r, k')" for f lens k r k'
    using that by (auto simp: sim_readv_def split: list.splits io.splits)
  moreover have "sim_got (snd (sim_write f d k)) = sim_got k" for f d k
    by (simp add: sim_write_def split: list.splits io.splits)
  moreover have "sim_got (snd (sim_epoll_ctl ep x f ev k)) = sim_got k" for ep x f ev k by (cases x) simp_all
  moreover have "sim_got (snd (sim_epoll_wait ep n k)) = sim_got k" for ep n k
    by (simp add: sim_epoll_wait_def split: list.splits)
  moreover have "case r of Done (g, a) \<Rightarrow> v_sent sim_view k' g = [] \<and> sim_got k' = (sim_got k)(g := []) | Fail _ \<Rightarrow> sim_got k' = sim_got k"
    if "sys_accept4 sim_sys f k = (r, k')" for f k r k'
    using that by (auto simp: sim_accept_def split: list.splits)
  ultimately show ?thesis unfolding input_doc_def by (auto split: prod.splits)
qed

text \<open>On the concrete kernel: the client that has just been accepted.\<close>

theorem server_echoes_witness:
  "\<exists>w c. server_run sim_sys (\<lambda>_. 0) (echo_server_callbacks sim_sys 1) (\<lambda>_. 9) (\<lambda>_. Inr) (ready_process, \<lambda>_. Waiting)
      (w, ready_phases(0 := Dispatching [])) \<and> pr_conns w 9 = Some c \<and>
     subseq (sim_sent (pr_kern w) (tc_sockfd c) @ readable (tc_outputBuffer c)) (sim_got (pr_kern w) (tc_sockfd c))"
proof -
  obtain w c where w: "server_run sim_sys (\<lambda>_. 0) (echo_server_callbacks sim_sys 1) (\<lambda>_. 9) (\<lambda>_. Inr) (ready_process, \<lambda>_. Waiting)
      (w, ready_phases(0 := Dispatching []))" "pr_conns w 9 = Some c"
    using accepted_run by blast
  from server_echoes [OF sim_server_doc sim_input_doc ready_fresh w] w show ?thesis by auto
qed

end
