(* ===== verification/Spec2Isabelle.thy ===== *)
theory Spec2Isabelle
  imports Logger EventLoopThread ThreadStart LoopQuit ServerStop ServerEcho
begin

text \<open>
  A model of a network library of the reactor kind: a server accepts connections in one thread and
  serves each of them in one of several loops, each loop in a thread of its own. The sources are the
  C++ files of include/ and src/ of the repository. This theory holds no definitions; it imports the
  whole development and describes it.

  \<^bold>\<open>The program.\<close> An \<open>EventLoop\<close> waits in its \<open>Poller\<close> (\<open>epoll\<close>) for the descriptors of its
  \<open>Channel\<close>s, dispatches the events to the channels' callbacks and then runs the functors that
  were queued on it, possibly by other threads, which wake it up through an eventfd. The
  \<open>Acceptor\<close> is a channel on the main loop; for each accepted descriptor \<open>TcpServer\<close> makes a
  \<open>TcpConnection\<close>, gives it to the next loop of the \<open>EventLoopThreadPool\<close> and keeps it in a table by
  name. A connection has two \<open>Buffer\<close>s, writes what the kernel takes and keeps the rest until its
  channel reports that the descriptor is writable. \<open>main.cpp\<close> is an echo server on top.

  \<^bold>\<open>Conventions.\<close> A class is a record with the members of the class, an enumeration a datatype, an
  operation a function from the state to the new state, of type \<open>error + 's\<close> where the code can end
  the process (\<open>LOG_FATAL\<close>), throw, or run into undefined behaviour: a null pointer, a freed object
  or an index out of range is an error of the model, never a default value. \<open>size_t\<close> and event masks
  are words of their width, so they wrap; \<open>int\<close> is an integer and the bound is written out where it
  matters: the connection number that cannot be increased is the error \<open>SignedOverflow\<close> of \<open>newConnection\<close>, and the
  theorems on Timestamp state the range of its fields. A pointer is the identity
  of the object it points to. The operating system is a parameter \<open>S\<close>, a record with one function
  per call; what the proofs use of it is a predicate per call that states its manual page through a
  view \<open>V\<close> of the kernel's state (sent bytes, shut write ends, epoll registrations). SimKernel gives
  a kernel for which all of them hold, and the witnesses run on it.

  \<^bold>\<open>The theories\<close>, from the bottom up.

  \<^item> Prelude: types and errors, \<open>bindE\<close>, \<open>foldE\<close> and \<open>holdsE\<close> (partial correctness of an operation
    that can fail: which errors, and what holds of a result), words as sizes.
  \<^item> Syscalls, SimKernel: the interface to the kernel, its documented behaviour, the kernel of the
    witnesses.
  \<^item> Format, Timestamp, Logger, InetAddress: \<open>snprintf\<close> into a bounded array, and the three classes that
    print with it. Shown: nothing is cut off for the values that occur; ports and addresses come
    back; what each log macro prints.
  \<^item> Buffer: \<open>Buffer.h\<close>, \<open>Buffer.cpp\<close>. The vector and its two indices refine a queue of bytes (locale
    \<open>byte_fifo\<close>); room is made exactly as promised, except where the test wraps; \<open>readFd\<close> appends what
    the kernel delivered.
  \<^item> Channel, EPollPoller: dispatch of an event mask, the life of a registration (new, added, deleted).
    The locale \<open>poller\<close> is the base class \<open>Poller\<close>; the channel's index, the poller's table and the
    kernel's epoll set stay in step.
  \<^item> EventLoop: \<open>EventLoop.h\<close>, \<open>EventLoop.cpp\<close> in one thread: the functor queue (each functor once, in
    order, the ones queued meanwhile in the next round; locale \<open>work_queue\<close>), \<open>loop\<close> as a partial function (\<open>None\<close> is
    running for ever, and it returns exactly when some round sees \<open>quit_\<close>), construction and
    destruction.
  \<^item> LoopThreads, EventLoopThread, Thread: the same code interleaved with other threads, as step
    relations whose steps are the accesses to shared members: no wakeup is lost but for functors that the loop's own
    thread queues before \<open>loop()\<close> (\<open>own_step\<close>, \<open>early_functors_sleep\<close>), when \<open>quit\<close> works and
    when it is lost, the handshake of \<open>startLoop\<close> with the init callback, and the destructor that can hang. LoopQuit: which queued
    functors still run when \<open>quit\<close> is called, and which are lost.
  \<^item> ThreadStart: \<open>Thread::start\<close> with its semaphore, \<open>join\<close> and the destructor, beside the new thread.
    When \<open>start\<close> has returned the id is stored, nothing blocks for good, and what the calls amount to is
    the theory Thread; a detached thread can read a freed object.
  \<^item> EventLoopThreadPool: the pool and its round robin (locale \<open>round_robin\<close>, interpreted as \<open>pool\<close>).
  \<^item> Socket, Acceptor: the listening socket and accepting.
  \<^item> TcpConnection, ConnProperties: the connection as the source has it, its invariant \<open>conn_ok\<close> and the
    relation \<open>evolves\<close> every operation respects, proved for each operation and then for runs of any
    length (\<open>conn_run\<close>, in which a \<open>shutdown\<close> of another thread is a test and, later, a store); the properties of
    sending, writing, reading, closing, and what a store that comes after the close breaks. The locale
    \<open>connection_user\<close> is the contract of the user's callbacks.
  \<^item> TcpServer: the server and the state of the process, of which loops, connections and the acceptor
    are views; accepting, removing, destroying; the consistency of the table.
  \<^item> ConnFrame, ConnMoves: what one operation of one connection leaves alone, first in its own loop
    (\<open>steady\<close>), then in the process (\<open>moves\<close>); \<open>good_user\<close> is the same contract for the user's callbacks.
  \<^item> ServerSafety, ServerRun: the whole server under way. A state is the process and, for each loop, how
    far its round has come (\<open>phase\<close>); a step (\<open>server_step\<close>) is a thread polling, handling one ready
    channel, taking the queue, running one functor or ending its round, or the end of an object that
    nothing refers to; \<open>server_run\<close> is any interleaving of steps. The invariant \<open>safe\<close> relates the table,
    the objects, the pollers, the epoll sets and the queues of all loops. ServerAlone adds what a step
    leaves alone of the connections it does not concern (\<open>leaves_alone\<close>), streams included, and that
    every connection carries on (\<open>lives_on\<close>).
  \<^item> ServerRounds: a whole round of \<open>loop()\<close>, as TcpServer composes it, is such a sequence of steps
    (\<open>accepts_in_round\<close>: where it accepts a client, it can).
  \<^item> ServerProperties: the consequences. No channel dangles, no freed object is used, closed connections
    can be destroyed and lose their descriptor (locale \<open>server_user\<close>, interpreted with the echo server's callbacks); and
    the functors of \<open>send\<close> and \<open>shutdown\<close> from foreign threads, which bind the bare \<open>this\<close>, are the gap.
  \<^item> ServerIsolation: every step concerns at most one connection (\<open>acting\<close>); all others keep their
    object, their entry, their stream and their registration. As long as a connection lives (\<open>survives\<close>),
    its stream only grows, whatever the threads do in between.
  \<^item> ServerStart: from the constructors through \<open>start()\<close> to a state from which runs begin (\<open>fresh_server\<close>).
    The locale \<open>loop_spawner\<close> is what is relied on when a thread with a loop is started; EchoServer
    interprets it with the constructor of \<open>EventLoop\<close>. ServerStop: the destructor and those of
    its members, with \<open>quit\<close> and \<open>join\<close> of each thread, beside the steps of the loops (\<open>teardown_step\<close>): every connection is handed
    to its loop, which can end without it.
  \<^item> EchoServer: \<open>main.cpp\<close>; its callbacks meet both contracts, everything received is sent back, and
    \<open>main\<close> leads to a listening server of four loops that is safe in every run.
  \<^item> ServerEcho: the echo server with all its clients. In every run each client is sent back, in order, what
    was received from it and nothing else (\<open>echoed\<close>); \<open>input_doc\<close> says what was received, \<open>echo_step\<close> what
    an operation of one connection does to the histories of all.

  \<^bold>\<open>Atomicity.\<close> LoopThreads and EventLoopThread interleave single accesses. In the other theories one
  operation of an object runs in one thread to its end; the objects are confined to their loop's
  thread, and what crosses threads is the functor queue. The exception in a connection is \<open>state_\<close>, which
  \<open>shutdown\<close> tests and stores in any thread: in \<open>conn_run\<close> these are two steps, and other steps of the connection may come
  between them. In ServerRun a whole handler or functor is
  one step. Its runs accept a client only when the kernel's descriptor and the allocator's address
  are not in use and \<open>nextConnId_\<close> can be increased (\<open>can_accept\<close>); an object may be destroyed as soon
  as nothing queued refers to it, which is earlier than the code does when a batch of functors is
  still held. The server is started before a run begins (ServerStart), under the premise \<open>apart\<close> that the
  loops have different addresses and epoll descriptors; its destructor (ServerStop), functors of the user's own and
  calls of \<open>send\<close> and \<open>shutdown\<close> from foreign threads are not steps of a run. In ServerStop all loops are in \<open>loop()\<close>; the
  \<open>quit\<close> that comes before \<open>loop()\<close>, after which the \<open>join\<close> waits for ever, is in EventLoopThread.

  \<^bold>\<open>Bounds and fuel.\<close> No definition has fuel. Loops over lists are folds; \<open>loop\<close> is a partial
  function; the theorems that count rounds (\<open>rounds\<close>) quantify over the number. Memory is bounded by
  \<open>vector_max\<close>, the largest vector; a longer one is the error \<open>LengthError\<close>.

  \<^bold>\<open>Not modelled.\<close> \<open>noncopyable\<close> and the type aliases of \<open>Callbacks.h\<close> (types only), \<open>std::thread\<close>
  itself (the step relations of ThreadStart and EventLoopThread have its effect), the text of \<open>strerror\<close>, the clock, \<open>localtime\<close> (an argument), the build files. \<open>SIGPIPE\<close> is taken to be
  ignored. Starting the pool's threads is sequential: \<open>startLoop\<close> waits for each.
\<close>

end
